(* ===== verification/Prelude.thy ===== *)
theory Prelude
  imports Complex_Main
begin

text \<open>
  The prelude of the development: how a Go function with side effects is written down, and the
  lemmas every component shares.

  A Go function that touches shared state is a \<^emph>\<open>program\<close>: a tree whose inner nodes are atomic
  actions (one critical section of a mutex, one read of the clock, one update of a metric) and whose
  leaves are the returned values.  The same tree is read in two ways: \<open>run\<close> executes it without
  interruption (what a single goroutine computes), and the theory \<open>Interleaving\<close> executes a pool of
  such trees one atomic action at a time in any order (what a server with a goroutine per request
  does).  \<open>bindP\<close> is sequential composition; \<open>gets\<close>, \<open>modify\<close> and \<open>atomic\<close> are the three shapes of
  one atomic action.
\<close>

section \<open>Programs\<close>

datatype ('w, 'a) prog = Ret 'a | Act "'w \<Rightarrow> 'w" "'w \<Rightarrow> ('w, 'a) prog"

primrec bindP :: "('w, 'a) prog \<Rightarrow> ('a \<Rightarrow> ('w, 'b) prog) \<Rightarrow> ('w, 'b) prog" where
  "bindP (Ret a) g = g a"
| "bindP (Act u k) g = Act u (\<lambda>w. bindP (k w) g)"

definition seqP :: "('w, 'a) prog \<Rightarrow> ('w, 'b) prog \<Rightarrow> ('w, 'b) prog" where
  "seqP p q = bindP p (\<lambda>_. q)"

definition gets :: "('w \<Rightarrow> 'a) \<Rightarrow> ('w, 'a) prog" where
  "gets f = Act (\<lambda>w. w) (\<lambda>w. Ret (f w))"

definition modify :: "('w \<Rightarrow> 'w) \<Rightarrow> ('w, unit) prog" where
  "modify u = Act u (\<lambda>_. Ret ())"

definition atomic :: "('w \<Rightarrow> 'a \<times> 'w) \<Rightarrow> ('w, 'a) prog" where
  "atomic f = Act (\<lambda>w. snd (f w)) (\<lambda>w. Ret (fst (f w)))"

text \<open>Uninterrupted execution.\<close>

primrec run :: "('w, 'a) prog \<Rightarrow> 'w \<Rightarrow> 'a \<times> 'w" where
  "run (Ret a) = (\<lambda>w. (a, w))"
| "run (Act u k) = (\<lambda>w. run (k w) (u w))"

text \<open>
  \<open>keeps P p\<close>: whatever other goroutines do between the actions of \<open>p\<close>, as long as they keep \<open>P\<close>,
  every action of \<open>p\<close> keeps \<open>P\<close> too.
\<close>

primrec keeps :: "('w \<Rightarrow> bool) \<Rightarrow> ('w, 'a) prog \<Rightarrow> bool" where
  "keeps P (Ret a) \<longleftrightarrow> True"
| "keeps P (Act u k) \<longleftrightarrow> (\<forall>w. P w \<longrightarrow> P (u w) \<and> keeps P (k w))"

text \<open>
  \<open>yields P Q p\<close>: started and interrupted only in worlds that satisfy \<open>P\<close>, the program \<open>p\<close> keeps
  \<open>P\<close> and returns only values that satisfy \<open>Q\<close>.
\<close>

primrec yields :: "('w \<Rightarrow> bool) \<Rightarrow> ('a \<Rightarrow> bool) \<Rightarrow> ('w, 'a) prog \<Rightarrow> bool" where
  "yields P Q (Ret a) \<longleftrightarrow> Q a"
| "yields P Q (Act u k) \<longleftrightarrow> (\<forall>w. P w \<longrightarrow> P (u w) \<and> yields P Q (k w))"

text \<open>\<open>acts S p\<close>: every atomic action of \<open>p\<close>, on every path, is in \<open>S\<close>.\<close>

primrec acts :: "(('w \<Rightarrow> 'w) \<Rightarrow> bool) \<Rightarrow> ('w, 'a) prog \<Rightarrow> bool" where
  "acts S (Ret a) \<longleftrightarrow> True"
| "acts S (Act u k) \<longleftrightarrow> S u \<and> (\<forall>w. acts S (k w))"

named_theorems run_simps \<open>uninterrupted execution of the atomic actions and of composed programs\<close>
named_theorems keeps_intros \<open>rules that decompose a goal \<open>keeps P p\<close> along the program\<close>

section \<open>Monad laws and execution\<close>

lemma bindP_Ret_right [simp]: "bindP p Ret = p"
  by (induction p) auto

lemma bindP_assoc: "bindP (bindP p f) g = bindP p (\<lambda>a. bindP (f a) g)"
  by (induction p) auto

lemma run_bindP [run_simps]: "run (bindP p k) w = run (k (fst (run p w))) (snd (run p w))"
  by (induction p arbitrary: w) auto

lemma run_seqP [run_simps]: "run (seqP p q) w = run q (snd (run p w))"
  by (simp add: seqP_def run_bindP)

lemma run_gets [run_simps]: "run (gets f) w = (f w, w)"
  by (simp add: gets_def)

lemma run_modify [run_simps]: "run (modify u) w = ((), u w)"
  by (simp add: modify_def)

lemma run_atomic [run_simps]: "run (atomic f) w = f w"
  by (simp add: atomic_def)

declare run.simps [run_simps]

section \<open>Programs that keep a predicate\<close>

lemma keeps_Ret [keeps_intros]: "keeps P (Ret a)"
  by simp

lemma yields_bindP:
  "yields P Q p \<Longrightarrow> (\<And>a. Q a \<Longrightarrow> yields P R (k a)) \<Longrightarrow> yields P R (bindP p k)"
  by (induction p) auto

lemma keeps_bindP_yields:
  "yields P Q p \<Longrightarrow> (\<And>a. Q a \<Longrightarrow> keeps P (k a)) \<Longrightarrow> keeps P (bindP p k)"
  by (induction p) auto

lemma yields_keeps: "yields P (\<lambda>_. True) p = keeps P p"
  by (induction p) auto

lemma keeps_bindP [keeps_intros]:
  "keeps P p \<Longrightarrow> (\<And>a. keeps P (k a)) \<Longrightarrow> keeps P (bindP p k)"
  by (rule keeps_bindP_yields [where Q = "\<lambda>_. True"]) (simp_all add: yields_keeps)

lemma keeps_seqP [keeps_intros]: "keeps P p \<Longrightarrow> keeps P q \<Longrightarrow> keeps P (seqP p q)"
  by (simp add: seqP_def keeps_bindP)

lemma keeps_gets [keeps_intros]: "keeps P (gets f)"
  by (simp add: gets_def)

lemma yields_gets: "(\<And>w. P w \<Longrightarrow> Q (f w)) \<Longrightarrow> yields P Q (gets f)"
  by (simp add: gets_def)

lemma keeps_modify: "(\<And>w. P w \<Longrightarrow> P (u w)) \<Longrightarrow> keeps P (modify u)"
  by (simp add: modify_def)

lemma keeps_atomic: "(\<And>w. P w \<Longrightarrow> P (snd (f w))) \<Longrightarrow> keeps P (atomic f)"
  by (simp add: atomic_def)

lemma yields_weaken: "yields P Q p \<Longrightarrow> (\<And>a. Q a \<Longrightarrow> R a) \<Longrightarrow> yields P R p"
  by (induction p) auto

text \<open>What a program returns whatever happens, and what it keeps, go together.\<close>

lemma returns_bindP: "(\<And>a. yields (\<lambda>_. True) Q (k a)) \<Longrightarrow> yields (\<lambda>_. True) Q (bindP p k)"
  by (induction p) auto

lemma yields_keeps_returns: "keeps P p \<Longrightarrow> yields (\<lambda>_. True) Q p \<Longrightarrow> yields P Q p"
  by (induction p) auto

lemma keeps_run: "keeps P p \<Longrightarrow> P w \<Longrightarrow> P (snd (run p w))"
  by (induction p arbitrary: w) auto

section \<open>Programs made of certain actions\<close>

lemma acts_bindP: "acts S p \<Longrightarrow> (\<And>a. acts S (k a)) \<Longrightarrow> acts S (bindP p k)"
  by (induction p) auto

lemma acts_single: "S (\<lambda>w. w) \<Longrightarrow> acts S (gets f)" "S u \<Longrightarrow> acts S (modify u)" "S (\<lambda>w. snd (g w)) \<Longrightarrow> acts S (atomic g)"
  by (simp_all add: gets_def modify_def atomic_def)

lemma acts_keeps: "acts S p \<Longrightarrow> (\<And>u w. S u \<Longrightarrow> P w \<Longrightarrow> P (u w)) \<Longrightarrow> keeps P p"
  by (induction p) auto

lemma acts_run: "acts S p \<Longrightarrow> (\<And>u w. S u \<Longrightarrow> P w \<Longrightarrow> P (u w)) \<Longrightarrow> P w \<Longrightarrow> P (snd (run p w))"
  by (rule keeps_run [OF acts_keeps])

section \<open>Lists\<close>

lemma butlast_last_nth: "xs \<noteq> [] \<Longrightarrow> xs ! (length xs - 1) = last xs"
  by (simp add: last_conv_nth)

text \<open>A property of every element relative to the earlier ones, when a list grows at its end.\<close>

lemma earlier_snoc:
  "(\<forall>k<length (xs @ [x]). Q ((xs @ [x]) ! k) \<longrightarrow> (\<exists>j<k. R ((xs @ [x]) ! j) ((xs @ [x]) ! k))) \<longleftrightarrow>
   (\<forall>k<length xs. Q (xs ! k) \<longrightarrow> (\<exists>j<k. R (xs ! j) (xs ! k))) \<and> (Q x \<longrightarrow> (\<exists>a\<in>set xs. R a x))"
  (is "?L \<longleftrightarrow> ?O \<and> ?N")
proof -
  have nth: "(xs @ [x]) ! j = xs ! j" if "j < length xs" for j
    using that by (simp add: nth_append)
  have ex: "(\<exists>j<k. R ((xs @ [x]) ! j) y) \<longleftrightarrow> (\<exists>j<k. R (xs ! j) y)" if "k \<le> length xs" for k y
    using that nth by (metis order.strict_trans2)
  have "?L \<longleftrightarrow> (Q x \<longrightarrow> (\<exists>j<length xs. R ((xs @ [x]) ! j) x)) \<and>
      (\<forall>k<length xs. Q ((xs @ [x]) ! k) \<longrightarrow> (\<exists>j<k. R ((xs @ [x]) ! j) ((xs @ [x]) ! k)))"
    by (simp only: length_append_singleton All_less_Suc nth_append_length)
  also have "\<dots> \<longleftrightarrow> (Q x \<longrightarrow> (\<exists>j<length xs. R (xs ! j) x)) \<and> ?O"
    using ex nth by (simp only: le_refl less_imp_le cong: imp_cong conj_cong)
  also have "(\<exists>j<length xs. R (xs ! j) x) \<longleftrightarrow> (\<exists>a\<in>set xs. R a x)"
    by (metis in_set_conv_nth)
  finally show ?thesis by blast
qed

end
