(* ===== verification/GoStrings.thy ===== *)
theory GoStrings
  imports Prelude "HOL-Library.Word" "HOL-Library.Char_ord" "HOL-Library.List_Lexorder"
begin

text \<open>
  The parts of the Go standard library the repository uses on strings: a Go string is a sequence of
  bytes, a HOL \<open>string\<close> is a list of 8-bit characters, so the two coincide and \<open>length\<close> is \<open>len\<close>.
  \<open>strings.Split\<close>, \<open>strings.CutPrefix\<close>, \<open>strings.ToLower\<close>, \<open>hex.EncodeToString\<close>,
  \<open>subtle.ConstantTimeCompare\<close>, the verb \<open>%d\<close> of \<open>fmt.Sprintf\<close>, and the nanosecond clock value
  \<open>Time.UnixNano\<close> with its 64-bit wrap-around.
\<close>

section \<open>Definitions\<close>

type_synonym byte = "8 word"

definition byte_of_char :: "char \<Rightarrow> byte" where
  "byte_of_char c = word_of_nat (of_char c)"

text \<open>\<open>strings.Split(s, sep)\<close> for a separator of one byte: never the empty slice.\<close>

fun strings_Split :: "string \<Rightarrow> char \<Rightarrow> string list" where
  "strings_Split [] sep = [[]]"
| "strings_Split (c # cs) sep =
     (case strings_Split cs sep of
        [] \<Rightarrow> []
      | p # ps \<Rightarrow> if c = sep then [] # p # ps else (c # p) # ps)"

definition strings_CutPrefix :: "string \<Rightarrow> string \<Rightarrow> string \<times> bool" where
  "strings_CutPrefix s p =
     (if take (length p) s = p then (drop (length p) s, True) else (s, False))"

definition subtle_ConstantTimeCompare :: "string \<Rightarrow> string \<Rightarrow> int" where
  "subtle_ConstantTimeCompare x y = (if x = y then 1 else 0)"

text \<open>
  \<open>strings.ToLower\<close>, up to the spelling of the letters outside ASCII: the ASCII capitals are
  lowered, and of the letters beyond ASCII the two whose lower case is an ASCII letter are lowered
  (U+0130, bytes C4 B0, to \<open>i\<close>; U+212A, bytes E2 84 AA, to \<open>k\<close>).  Every other byte sequence beyond
  ASCII is mapped by \<open>strings.ToLower\<close> to a sequence beyond ASCII, so a comparison of the result
  with an ASCII literal has the same outcome.
\<close>

definition ascii_lower :: "char \<Rightarrow> char" where
  "ascii_lower c =
     (let n = (of_char c :: nat) in if 65 \<le> n \<and> n \<le> 90 then char_of (n + 32) else c)"

fun strings_ToLower :: "string \<Rightarrow> string" where
  "strings_ToLower (a # b # c # cs) =
     (if a = CHR 0xC4 \<and> b = CHR 0xB0 then CHR ''i'' # strings_ToLower (c # cs)
      else if a = CHR 0xE2 \<and> b = CHR 0x84 \<and> c = CHR 0xAA then CHR ''k'' # strings_ToLower cs
      else ascii_lower a # strings_ToLower (b # c # cs))"
| "strings_ToLower [a, b] =
     (if a = CHR 0xC4 \<and> b = CHR 0xB0 then [CHR ''i''] else [ascii_lower a, ascii_lower b])"
| "strings_ToLower [a] = [ascii_lower a]"
| "strings_ToLower [] = []"

definition dec_digit :: "nat \<Rightarrow> char" where
  "dec_digit n = char_of (48 + n mod 10)"

fun nat_dec :: "nat \<Rightarrow> string" where
  "nat_dec n = (if n < 10 then [dec_digit n] else nat_dec (n div 10) @ [dec_digit (n mod 10)])"

declare nat_dec.simps [simp del]

definition int_dec :: "int \<Rightarrow> string" where
  "int_dec i = (if i < 0 then CHR ''-'' # nat_dec (nat (- i)) else nat_dec (nat i))"

definition hex_digit :: "nat \<Rightarrow> char" where
  "hex_digit n = (let d = n mod 16 in if d < 10 then char_of (48 + d) else char_of (87 + d))"

fun hex_EncodeToString :: "byte list \<Rightarrow> string" where
  "hex_EncodeToString [] = []"
| "hex_EncodeToString (b # bs) =
     hex_digit (unat b div 16) # hex_digit (unat b mod 16) # hex_EncodeToString bs"

text \<open>
  An instant is the number of nanoseconds since the Unix epoch; the zero \<open>time.Time\<close> is the start of
  year 1.  \<open>UnixNano\<close> returns an \<open>int64\<close>, so it wraps.
\<close>

type_synonym Time = int

definition zero_Time :: Time where
  "zero_Time = - 62135596800000000000"

definition UnixNano :: "Time \<Rightarrow> int" where
  "UnixNano t = sint (word_of_int t :: 64 word)"

section \<open>Facts\<close>

lemma strings_Split_nonempty [simp]: "strings_Split s sep \<noteq> []"
  by (induction s) (auto split: list.splits)

fun strings_Join :: "string list \<Rightarrow> char \<Rightarrow> string" where
  "strings_Join [] sep = []"
| "strings_Join [p] sep = p"
| "strings_Join (p # q # ps) sep = p @ sep # strings_Join (q # ps) sep"

lemma strings_Join_Cons: "ps \<noteq> [] \<Longrightarrow> strings_Join (p # ps) sep = p @ sep # strings_Join ps sep"
  by (cases ps) auto

lemma strings_Join_head: "strings_Join ((c # p) # ps) sep = c # strings_Join (p # ps) sep"
  by (cases ps) auto

lemma strings_Join_Split: "strings_Join (strings_Split s sep) sep = s"
proof (induction s)
  case (Cons c cs)
  then show ?case
    by (cases "strings_Split cs sep") (auto simp: strings_Join_Cons strings_Join_head)
qed simp

lemma strings_CutPrefix_append [simp]: "strings_CutPrefix (p @ v) p = (v, True)"
  by (simp add: strings_CutPrefix_def)

lemma strings_CutPrefix_fst: "snd (strings_CutPrefix s p) \<Longrightarrow> s = p @ fst (strings_CutPrefix s p)"
  by (auto simp: strings_CutPrefix_def split: if_splits) (metis append_take_drop_id)

lemma subtle_ConstantTimeCompare_one [simp]: "subtle_ConstantTimeCompare x y = 1 \<longleftrightarrow> x = y"
  by (simp add: subtle_ConstantTimeCompare_def)

lemma length_hex_EncodeToString [simp]: "length (hex_EncodeToString bs) = 2 * length bs"
  by (induction bs) auto

lemma nat_dec_nonempty [simp]: "nat_dec n \<noteq> []"
  by (subst nat_dec.simps) simp

lemma UnixNano_exact:
  "- (2 ^ 63) \<le> t \<Longrightarrow> t < 2 ^ 63 \<Longrightarrow> UnixNano t = t"
  by (simp add: UnixNano_def signed_of_int signed_take_bit_int_eq_self)

end
