(* ===== verification/GoEncoding.thy ===== *)
theory GoEncoding
  imports GoStrings "HOL-Library.Multiset"
begin

text \<open>
  The two encoders behind every hash of the repository: \<open>encoding/json\<close> (\<open>json.Marshal\<close>, with its
  HTML-safe string escapes, the replacement of invalid UTF-8 and the RFC 3339 form of a time) and
  \<open>crypto/sha256\<close> (\<open>sha256.Sum256\<close>, FIPS 180-4, on 32-bit words).  The facts at the end are what the
  ledger relies on: a digest has 32 bytes, so its hexadecimal form has 64 characters.
\<close>

unbundle bit_operations_syntax

section \<open>JSON text\<close>

definition is_cont :: "nat \<Rightarrow> bool" where
  "is_cont b \<longleftrightarrow> 128 \<le> b \<and> b \<le> 191"

text \<open>
  \<open>utf8.DecodeRuneInString\<close> at a byte of 128 or more: the number of bytes of the well-formed
  sequence there, 0 where there is none (Go's \<open>RuneError\<close> of width 1).
\<close>

fun rune_size :: "nat list \<Rightarrow> nat" where
  "rune_size (a # b # rest) =
     (if 194 \<le> a \<and> a \<le> 223 then (if is_cont b then 2 else 0)
      else case rest of
        [] \<Rightarrow> 0
      | c # rest' \<Rightarrow>
          if 224 \<le> a \<and> a \<le> 239 then
            (if is_cont b \<and> is_cont c \<and> (a = 224 \<longrightarrow> 160 \<le> b) \<and> (a = 237 \<longrightarrow> b \<le> 159)
             then 3 else 0)
          else case rest' of
            [] \<Rightarrow> 0
          | d # _ \<Rightarrow>
              if 240 \<le> a \<and> a \<le> 244 \<and> is_cont b \<and> is_cont c \<and> is_cont d
                 \<and> (a = 240 \<longrightarrow> 144 \<le> b) \<and> (a = 244 \<longrightarrow> b \<le> 143)
              then 4 else 0)"
| "rune_size _ = 0"

definition bytes_of :: "string \<Rightarrow> nat list" where
  "bytes_of s = map of_char s"

definition json_escape_u :: "string \<Rightarrow> string" where
  "json_escape_u hex4 = CHR 0x5C # CHR ''u'' # hex4"

definition json_escape_ascii :: "char \<Rightarrow> string" where
  "json_escape_ascii c =
     (let n = (of_char c :: nat) in
      if n = 34 \<or> n = 92 then [CHR 0x5C, c]
      else if n = 8 then [CHR 0x5C, CHR ''b'']
      else if n = 12 then [CHR 0x5C, CHR ''f'']
      else if n = 10 then [CHR 0x5C, CHR ''n'']
      else if n = 13 then [CHR 0x5C, CHR ''r'']
      else if n = 9 then [CHR 0x5C, CHR ''t'']
      else if n < 32 \<or> n = 60 \<or> n = 62 \<or> n = 38
        then json_escape_u [CHR ''0'', CHR ''0'', hex_digit (n div 16), hex_digit (n mod 16)]
      else [c])"

function json_chars :: "string \<Rightarrow> string" where
  "json_chars [] = []"
| "json_chars (c # cs) =
     (if (of_char c :: nat) < 128 then json_escape_ascii c @ json_chars cs
      else let n = rune_size (bytes_of (c # cs)) in
        if n = 0 then json_escape_u ''fffd'' @ json_chars cs
        else if take 3 (c # cs) = [CHR 0xE2, CHR 0x80, CHR 0xA8]
          then json_escape_u ''2028'' @ json_chars (drop (n - 1) cs)
        else if take 3 (c # cs) = [CHR 0xE2, CHR 0x80, CHR 0xA9]
          then json_escape_u ''2029'' @ json_chars (drop (n - 1) cs)
        else take n (c # cs) @ json_chars (drop (n - 1) cs))"
  by pat_completeness auto
termination
  by (relation "measure length") auto

definition json_quote :: "string \<Rightarrow> string" where
  "json_quote s = CHR 0x22 # json_chars s @ [CHR 0x22]"

text \<open>
  The values that reach \<open>json.Marshal\<close>.  A number is carried as the text \<open>encoding/json\<close> writes for
  it.  \<open>JObj\<close> is a struct, written in the order of its fields; \<open>JMap\<close> is a Go map, written in the
  order of its keys.
\<close>

datatype json =
    JNull
  | JBool bool
  | JNum string
  | JStr string
  | JArr "json list"
  | JObj "(string \<times> json) list"
  | JMap "(string \<times> json) list"

fun json_commas :: "string list \<Rightarrow> string" where
  "json_commas [] = []"
| "json_commas [x] = x"
| "json_commas (x # y # ys) = x @ CHR '','' # json_commas (y # ys)"

definition json_fields :: "(string \<times> string) list \<Rightarrow> string" where
  "json_fields kvs = CHR 0x7B # json_commas (map (\<lambda>(k, v). json_quote k @ CHR '':'' # v) kvs) @ [CHR 0x7D]"

definition sort_keys :: "(string \<times> 'b) list \<Rightarrow> (string \<times> 'b) list" where
  "sort_keys kvs = sort_key fst kvs"

fun json_text :: "json \<Rightarrow> string" where
  "json_text JNull = ''null''"
| "json_text (JBool b) = (if b then ''true'' else ''false'')"
| "json_text (JNum s) = s"
| "json_text (JStr s) = json_quote s"
| "json_text (JArr xs) = CHR ''['' # json_commas (map json_text xs) @ '']''"
| "json_text (JObj kvs) = json_fields (map (\<lambda>(k, v). (k, json_text v)) kvs)"
| "json_text (JMap kvs) = json_fields (sort_keys (map (\<lambda>(k, v). (k, json_text v)) kvs))"

section \<open>Times\<close>

text \<open>
  The civil date of a day number counted from 1970-01-01 in the proleptic Gregorian calendar, and
  the RFC 3339 form with nanoseconds (trailing zeros dropped) that \<open>Time.MarshalJSON\<close> writes for a
  UTC time.  Years outside 0 to 9999 make \<open>MarshalJSON\<close> fail.
\<close>

definition civil_from_days :: "int \<Rightarrow> int \<times> int \<times> int" where
  "civil_from_days days =
     (let z = days + 719468;
          era = z div 146097;
          doe = z mod 146097;
          yoe = (doe - doe div 1460 + doe div 36524 - doe div 146096) div 365;
          doy = doe - (365 * yoe + yoe div 4 - yoe div 100);
          mp = (5 * doy + 2) div 153;
          d = doy - (153 * mp + 2) div 5 + 1;
          m = (if mp < 10 then mp + 3 else mp - 9);
          y = yoe + era * 400 + (if m \<le> 2 then 1 else 0)
      in (y, m, d))"

fun pad_dec :: "nat \<Rightarrow> nat \<Rightarrow> string" where
  "pad_dec 0 n = []"
| "pad_dec (Suc k) n = pad_dec k (n div 10) @ [dec_digit n]"

definition drop_zeros :: "string \<Rightarrow> string" where
  "drop_zeros s = rev (dropWhile (\<lambda>c. c = CHR ''0'') (rev s))"

definition rfc3339_nano :: "Time \<Rightarrow> string option" where
  "rfc3339_nano t =
     (let secs = t div 1000000000;
          nanos = t mod 1000000000;
          (y, m, d) = civil_from_days (secs div 86400);
          sod = secs mod 86400;
          frac = drop_zeros (pad_dec 9 (nat nanos))
      in if y < 0 \<or> 9999 < y then None
         else Some (pad_dec 4 (nat y) @ ''-'' @ pad_dec 2 (nat m) @ ''-'' @ pad_dec 2 (nat d) @ ''T''
           @ pad_dec 2 (nat (sod div 3600)) @ '':'' @ pad_dec 2 (nat (sod div 60 mod 60)) @ '':''
           @ pad_dec 2 (nat (sod mod 60)) @ (if frac = [] then [] else CHR ''.'' # frac) @ ''Z''))"

section \<open>SHA-256\<close>

type_synonym w32 = "32 word"

definition sha_k :: "w32 list" where
  "sha_k =
    [1116352408, 1899447441, 3049323471, 3921009573, 961987163, 1508970993,
     2453635748, 2870763221, 3624381080, 310598401, 607225278, 1426881987,
     1925078388, 2162078206, 2614888103, 3248222580, 3835390401, 4022224774,
     264347078, 604807628, 770255983, 1249150122, 1555081692, 1996064986,
     2554220882, 2821834349, 2952996808, 3210313671, 3336571891, 3584528711,
     113926993, 338241895, 666307205, 773529912, 1294757372, 1396182291,
     1695183700, 1986661051, 2177026350, 2456956037, 2730485921, 2820302411,
     3259730800, 3345764771, 3516065817, 3600352804, 4094571909, 275423344,
     430227734, 506948616, 659060556, 883997877, 958139571, 1322822218,
     1537002063, 1747873779, 1955562222, 2024104815, 2227730452, 2361852424,
     2428436474, 2756734187, 3204031479, 3329325298]"

definition sha_init :: "w32 list" where
  "sha_init =
    [1779033703, 3144134277, 1013904242, 2773480762,
     1359893119, 2600822924, 528734635, 1541459225]"

definition big_sigma0 :: "w32 \<Rightarrow> w32" where
  "big_sigma0 x = word_rotr 2 x XOR word_rotr 13 x XOR word_rotr 22 x"

definition big_sigma1 :: "w32 \<Rightarrow> w32" where
  "big_sigma1 x = word_rotr 6 x XOR word_rotr 11 x XOR word_rotr 25 x"

definition small_sigma0 :: "w32 \<Rightarrow> w32" where
  "small_sigma0 x = word_rotr 7 x XOR word_rotr 18 x XOR drop_bit 3 x"

definition small_sigma1 :: "w32 \<Rightarrow> w32" where
  "small_sigma1 x = word_rotr 17 x XOR word_rotr 19 x XOR drop_bit 10 x"

definition sha_ch :: "w32 \<Rightarrow> w32 \<Rightarrow> w32 \<Rightarrow> w32" where
  "sha_ch x y z = (x AND y) XOR (NOT x AND z)"

definition sha_maj :: "w32 \<Rightarrow> w32 \<Rightarrow> w32 \<Rightarrow> w32" where
  "sha_maj x y z = (x AND y) XOR (x AND z) XOR (y AND z)"

definition be_word :: "byte list \<Rightarrow> w32" where
  "be_word bs = foldl (\<lambda>acc b. push_bit 8 acc OR ucast b) 0 bs"

definition be_bytes :: "w32 \<Rightarrow> byte list" where
  "be_bytes w = [ucast (drop_bit 24 w), ucast (drop_bit 16 w), ucast (drop_bit 8 w), ucast w]"

function chunks :: "nat \<Rightarrow> 'a list \<Rightarrow> 'a list list" where
  "chunks n xs = (if xs = [] \<or> n = 0 then [] else take n xs # chunks n (drop n xs))"
  by pat_completeness auto
termination
  by (relation "measure (length \<circ> snd)") auto

declare chunks.simps [simp del]

definition sha_pad :: "byte list \<Rightarrow> byte list" where
  "sha_pad msg =
     (let len = length msg;
          zeros = (119 - len mod 64) mod 64;
          bits = (word_of_nat (8 * len) :: 64 word)
      in msg @ [128] @ replicate zeros 0 @ map (\<lambda>i. ucast (drop_bit (56 - 8 * i) bits)) [0..<8])"

fun sha_schedule :: "nat \<Rightarrow> w32 list \<Rightarrow> w32 list" where
  "sha_schedule 0 ws = ws"
| "sha_schedule (Suc n) ws =
     (let t = length ws in
      sha_schedule n (ws @ [small_sigma1 (ws ! (t - 2)) + ws ! (t - 7)
                            + small_sigma0 (ws ! (t - 15)) + ws ! (t - 16)]))"

fun sha_round :: "w32 list \<Rightarrow> w32 \<times> w32 \<Rightarrow> w32 list" where
  "sha_round [a, b, c, d, e, f, g, h] (k, w) =
     (let t1 = h + big_sigma1 e + sha_ch e f g + k + w;
          t2 = big_sigma0 a + sha_maj a b c
      in [t1 + t2, a, b, c, d + t1, e, f, g])"
| "sha_round st kw = st"

definition sha_block :: "w32 list \<Rightarrow> byte list \<Rightarrow> w32 list" where
  "sha_block st blk =
     map2 (+) st (foldl sha_round st (zip sha_k (sha_schedule 48 (map be_word (chunks 4 blk)))))"

definition sha256_Sum256 :: "byte list \<Rightarrow> byte list" where
  "sha256_Sum256 msg = concat (map be_bytes (foldl sha_block sha_init (chunks 64 (sha_pad msg))))"

text \<open>\<open>h := sha256.Sum256(data); hex.EncodeToString(h[:])\<close>\<close>

definition sha256_hex :: "string \<Rightarrow> string" where
  "sha256_hex data = hex_EncodeToString (sha256_Sum256 (map byte_of_char data))"

section \<open>Facts\<close>

lemma length_sha_round [simp]: "length (sha_round st kw) = length st"
  by (cases "(st, kw)" rule: sha_round.cases) (auto simp: Let_def)

lemma length_foldl_sha_round [simp]: "length (foldl sha_round st kws) = length st"
  by (induction kws arbitrary: st) auto

lemma length_foldl_sha_block [simp]: "length (foldl sha_block st blks) = length st"
  by (induction blks arbitrary: st) (auto simp: sha_block_def)

lemma length_concat_be_bytes: "length (concat (map be_bytes ws)) = 4 * length ws"
  by (induction ws) (auto simp: be_bytes_def)

lemma length_sha256_Sum256: "length (sha256_Sum256 msg) = 32"
  by (simp add: sha256_Sum256_def length_concat_be_bytes sha_init_def)

lemma length_sha256_hex: "length (sha256_hex data) = 64"
  by (simp add: sha256_hex_def length_sha256_Sum256)

text \<open>
  The text of a map does not depend on the order in which Go iterates over it: two association
  lists of the same map (distinct keys, same pairs) are sorted to the same list.
\<close>

lemma sort_keys_unique:
  assumes "distinct (map fst xs)" and "mset xs = mset ys"
  shows "sort_keys xs = sort_keys ys"
proof -
  have inj: "inj_on fst (set xs)"
    using assms(1) by (simp add: distinct_map)
  have "sort_key fst xs = sort_key fst ys"
    by (rule sort_key_inj_key_eq) (simp_all add: assms(2) inj)
  then show ?thesis by (simp add: sort_keys_def)
qed

end
