(* ===== verification/VossTypes.thy ===== *)
theory VossTypes
  imports GoEncoding
begin

text \<open>
  The data of \<open>types.go\<close>, with the string-typed enumerations of the source.  A Go string type whose
  values are read from JSON (an admission result, a lane, a workflow name) stays a string, because
  the program must cope with any text there; a type whose values the program alone produces (the
  classes of the Immune Protocol) is a datatype.  A slice is a list; where \<open>json.Marshal\<close> tells the
  nil slice from the empty one (the stage log of a ledger entry, the entries of a projection) it is an
  optional list.
\<close>

section \<open>Enumerations\<close>

type_synonym AdmitResult = string

definition Admit :: AdmitResult where "Admit = ''ADMIT''"
definition Deny :: AdmitResult where "Deny = ''DENY''"
definition Quarantine :: AdmitResult where "Quarantine = ''QUARANTINE''"

datatype ImmuneClass = ImmuneAllow | ImmuneClamp | ImmuneReroute | ImmuneReject | ImmuneQuarantine

fun ImmuneClass_string :: "ImmuneClass \<Rightarrow> string" where
  "ImmuneClass_string ImmuneAllow = ''ALLOW''"
| "ImmuneClass_string ImmuneClamp = ''CLAMP''"
| "ImmuneClass_string ImmuneReroute = ''REROUTE''"
| "ImmuneClass_string ImmuneReject = ''REJECT''"
| "ImmuneClass_string ImmuneQuarantine = ''QUARANTINE''"

type_synonym MLCALane = string

definition LaneSafe :: MLCALane where "LaneSafe = ''SAFE''"
definition LaneNormal :: MLCALane where "LaneNormal = ''NORMAL''"
definition LaneExpress :: MLCALane where "LaneExpress = ''EXPRESS''"

type_synonym LambdaLaw = string

definition Lambda1 :: LambdaLaw where "Lambda1 = ''Lambda.1''"
definition Lambda2 :: LambdaLaw where "Lambda2 = ''Lambda.2''"
definition Lambda3 :: LambdaLaw where "Lambda3 = ''Lambda.3''"
definition Lambda4 :: LambdaLaw where "Lambda4 = ''Lambda.4''"
definition Lambda5 :: LambdaLaw where "Lambda5 = ''Lambda.5''"
definition Lambda6 :: LambdaLaw where "Lambda6 = ''Lambda.6''"
definition Lambda7 :: LambdaLaw where "Lambda7 = ''Lambda.7''"

section \<open>Coherence projections (the data type; its operations are in \<open>Coherence\<close>)\<close>

record ProjectionEntry =
  pe_Key :: string
  pe_Source :: string
  pe_Classification :: string
  pe_Value :: string

record CoherenceProjection =
  cp_MaxEntries :: int
  cp_Entries :: "ProjectionEntry list option"

section \<open>Requests\<close>

record CapabilityClass =
  cc_Class :: string
  cc_Scope :: string
  cc_Action :: string
  cc_Risk :: string

record ModelRef =
  mr_ProviderID :: string
  mr_ModelID :: string
  mr_KeyRef :: string

record CapabilityRequest =
  rq_RequestID :: string
  rq_TenantID :: string
  rq_MLCALane :: MLCALane
  rq_CapabilityClass :: CapabilityClass
  rq_IntentID :: string
  rq_OperatorID :: string
  rq_ModelRef :: ModelRef
  rq_Payload :: string
  rq_Metadata :: "string \<rightharpoonup> string"
  rq_Coherence :: "CoherenceProjection option"

section \<open>Decisions, stage records, ledger entries, evidence records\<close>

record AdmissionDecision =
  ad_Result :: AdmitResult
  ad_Reason :: string
  ad_RuleRef :: string
  ad_DecisionID :: string
  ad_RequestID :: string
  ad_Timestamp :: Time

record StageRecord =
  sr_Stage :: string
  sr_Passed :: bool
  sr_Reason :: string
  sr_RuleRef :: string

record LedgerEntry =
  le_Index :: "64 word"
  le_Timestamp :: Time
  le_RequestID :: string
  le_IntentID :: string
  le_TenantID :: string
  le_MLCALane :: MLCALane
  le_Capability :: CapabilityClass
  le_Provider :: string
  le_Admitted :: bool
  le_Result :: AdmitResult
  le_Reason :: string
  le_RuleRef :: string
  le_DecisionID :: string
  le_StageLog :: "StageRecord list option"
  le_PrevHash :: string
  le_Hash :: string
  le_ReplayID :: string
  le_ExecutionHash :: string

record CER =
  cer_Version :: string
  cer_DecisionID :: string
  cer_RequestID :: string
  cer_IntentID :: string
  cer_TenantID :: string
  cer_RuntimeIdentity :: string
  cer_InputHash :: string
  cer_EvidenceArtifacts :: "string list"
  cer_VerificationChecks :: "StageRecord list option"
  cer_ReplayMarker :: string
  cer_Lineage :: "LedgerEntry list"
  cer_Timestamp :: Time

record LambdaResult =
  lr_Law :: LambdaLaw
  lr_Passed :: bool
  lr_Reason :: string

text \<open>The zero values Go gives to unset fields and to \<open>T{}\<close>.\<close>

definition zero_CapabilityClass :: CapabilityClass where
  "zero_CapabilityClass = \<lparr>cc_Class = [], cc_Scope = [], cc_Action = [], cc_Risk = []\<rparr>"

definition zero_ModelRef :: ModelRef where
  "zero_ModelRef = \<lparr>mr_ProviderID = [], mr_ModelID = [], mr_KeyRef = []\<rparr>"

definition zero_CapabilityRequest :: CapabilityRequest where
  "zero_CapabilityRequest =
     \<lparr>rq_RequestID = [], rq_TenantID = [], rq_MLCALane = [],
      rq_CapabilityClass = zero_CapabilityClass, rq_IntentID = [], rq_OperatorID = [],
      rq_ModelRef = zero_ModelRef, rq_Payload = [], rq_Metadata = Map.empty, rq_Coherence = None\<rparr>"

definition zero_AdmissionDecision :: AdmissionDecision where
  "zero_AdmissionDecision =
     \<lparr>ad_Result = [], ad_Reason = [], ad_RuleRef = [], ad_DecisionID = [], ad_RequestID = [],
      ad_Timestamp = zero_Time\<rparr>"

definition zero_LedgerEntry :: LedgerEntry where
  "zero_LedgerEntry =
     \<lparr>le_Index = 0, le_Timestamp = zero_Time, le_RequestID = [], le_IntentID = [],
      le_TenantID = [], le_MLCALane = [], le_Capability = zero_CapabilityClass, le_Provider = [],
      le_Admitted = False, le_Result = [], le_Reason = [], le_RuleRef = [], le_DecisionID = [],
      le_StageLog = None, le_PrevHash = [], le_Hash = [], le_ReplayID = [], le_ExecutionHash = []\<rparr>"

section \<open>Errors\<close>

text \<open>
  The sentinel errors of \<open>router.go\<close> and \<open>workflows.go\<close>, compared by identity in the source; an
  error made from a text (\<open>errors.New\<close> in an adapter); and the two errors \<open>WorkflowService.Run\<close>
  formats, which carry what they name.
\<close>

datatype GoError =
    ErrNoProvider
  | ErrInterrupted
  | ErrTerminated
  | ErrLedgerBreak
  | ErrProviderTimeout
  | ErrWorkflowLaneBlocked
  | ErrNew string
  | ErrUnknownWorkflow string
  | ErrLaneNotAllowed string MLCALane

text \<open>
  The text \<open>err.Error()\<close> of an error that can reach the ledger: a sentinel or an adapter's own text.
  The two formatted errors only reach the HTTP response, which carries them as values.
\<close>

fun error_text :: "GoError \<Rightarrow> string" where
  "error_text ErrNoProvider = ''no enabled provider for capability''"
| "error_text ErrInterrupted = ''operator interruption''"
| "error_text ErrTerminated = ''operator termination''"
| "error_text ErrLedgerBreak = ''ledger chain integrity broken''"
| "error_text ErrProviderTimeout = ''provider execution timed out''"
| "error_text ErrWorkflowLaneBlocked = ''workflow lane not permitted for capability''"
| "error_text (ErrNew s) = s"

section \<open>Metrics calls\<close>

text \<open>
  The Prometheus client is not part of the repository: what the program does with it is the sequence
  of calls it makes, recorded one by one.  A histogram observation is recorded with the duration in
  nanoseconds from which the source computes the seconds.  A \<open>float64\<close> is a rational number, one of
  the infinities or not a number.
\<close>

datatype float64 = Finite rat | PosInf | NegInf | NaN

fun float64_ge :: "float64 \<Rightarrow> float64 \<Rightarrow> bool" where
  "float64_ge NaN _ = False"
| "float64_ge _ NaN = False"
| "float64_ge PosInf _ = True"
| "float64_ge _ PosInf = False"
| "float64_ge _ NegInf = True"
| "float64_ge NegInf _ = False"
| "float64_ge (Finite x) (Finite y) = (y \<le> x)"

datatype Metric =
    MetricCycleLatency | MetricAdmissions | MetricProviderErrors | MetricExecutions
  | MetricStageDuration | MetricUSLViolations | MetricDriftScore | MetricHalt | MetricInterrupts
  | MetricInterruptLatency | MetricLedgerWrites | MetricLedgerChainBreaks
  | MetricIdentityViolations | MetricImmuneClass | MetricLambdaCheck

datatype MetricCall =
    MInc Metric "string list"
  | MObserve Metric "string list" int
  | MSet Metric float64

section \<open>Facts\<close>

lemma AdmitResult_distinct [simp]:
  "Admit \<noteq> Deny" "Deny \<noteq> Admit" "Admit \<noteq> Quarantine" "Quarantine \<noteq> Admit"
  "Deny \<noteq> Quarantine" "Quarantine \<noteq> Deny" "Admit \<noteq> []" "Deny \<noteq> []" "Quarantine \<noteq> []"
  "[] \<noteq> Admit" "[] \<noteq> Deny" "[] \<noteq> Quarantine"
  by (simp_all add: Admit_def Deny_def Quarantine_def)

lemma MLCALane_distinct [simp]:
  "LaneSafe \<noteq> LaneNormal" "LaneNormal \<noteq> LaneSafe" "LaneSafe \<noteq> LaneExpress"
  "LaneExpress \<noteq> LaneSafe" "LaneNormal \<noteq> LaneExpress" "LaneExpress \<noteq> LaneNormal"
  "LaneSafe \<noteq> []" "LaneNormal \<noteq> []" "LaneExpress \<noteq> []"
  "[] \<noteq> LaneSafe" "[] \<noteq> LaneNormal" "[] \<noteq> LaneExpress"
  by (simp_all add: LaneSafe_def LaneNormal_def LaneExpress_def)

end
