(* ===== verification/LambdaLaws.thy ===== *)
theory LambdaLaws
  imports VossTypes
begin

text \<open>
  The typed checks of the laws Lambda.1 to Lambda.7 (\<open>lambda.go\<close>) and the tenant policy they read
  (\<open>usl.go\<close>).  The facts characterise exactly when each check passes; for the identity-separation law
  the loop over the tenants stops at the first policy with the request's tenant and lane.
\<close>

section \<open>Definitions\<close>

record TenantPolicy =
  tp_TenantID :: string
  tp_Name :: string
  tp_MLCALane :: string
  tp_AllowedClasses :: "string list"
  tp_AllowedScopes :: "string list"
  tp_AllowedActions :: "string list"
  tp_AllowedRisks :: "string list"
  tp_RequiresApproval :: bool
  tp_IdentityNamespace :: string
  tp_SovereignOperator :: string

definition lambda_result :: "LambdaLaw \<Rightarrow> bool \<Rightarrow> string \<Rightarrow> LambdaResult" where
  "lambda_result law passed reason = \<lparr>lr_Law = law, lr_Passed = passed, lr_Reason = reason\<rparr>"

definition checkLambda1 :: "CapabilityRequest \<Rightarrow> LambdaResult" where
  "checkLambda1 req =
     (if rq_RequestID req = [] \<or> rq_IntentID req = []
      then lambda_result Lambda1 False ''request_id and intent_id required for deterministic replay''
      else lambda_result Lambda1 True ''request is replay-addressable'')"

definition checkLambda2 :: "CapabilityRequest \<Rightarrow> LambdaResult" where
  "checkLambda2 req =
     (if rq_TenantID req = [] \<or> rq_OperatorID req = []
      then lambda_result Lambda2 False ''tenant and operator required for tracing''
      else lambda_result Lambda2 True ''tenant and operator traceable'')"

definition checkLambda3 :: "CapabilityRequest \<Rightarrow> LambdaResult" where
  "checkLambda3 req =
     (if rq_MLCALane req = []
      then lambda_result Lambda3 False ''no lane means unknown governance state; fail closed''
      else lambda_result Lambda3 True ''lane present'')"

fun checkLambda4 :: "CapabilityRequest \<Rightarrow> TenantPolicy list \<Rightarrow> LambdaResult" where
  "checkLambda4 req [] = lambda_result Lambda4 False ''tenant lane mismatch or unknown tenant''"
| "checkLambda4 req (t # ts) =
     (if tp_TenantID t = rq_TenantID req \<and> tp_MLCALane t = rq_MLCALane req then
        (if tp_SovereignOperator t \<noteq> [] \<and> tp_SovereignOperator t \<noteq> rq_OperatorID req
         then lambda_result Lambda4 False ''operator is not the tenant's sovereign operator''
         else lambda_result Lambda4 True ''tenant lane aligned and operator bound'')
      else checkLambda4 req ts)"

definition checkLambda5 :: LambdaResult where
  "checkLambda5 = lambda_result Lambda5 True ''drift monitor active''"

definition checkLambda6 :: "CapabilityRequest \<Rightarrow> LambdaResult" where
  "checkLambda6 req =
     (if rq_OperatorID req = []
      then lambda_result Lambda6 False ''no operator present; interrupt required''
      else lambda_result Lambda6 True ''operator present'')"

definition checkLambda7 :: "bool \<Rightarrow> LambdaResult" where
  "checkLambda7 enforced =
     (if \<not> enforced then lambda_result Lambda7 False ''governance enforcement disabled''
      else lambda_result Lambda7 True ''governance supremacy enforced'')"

text \<open>The policy the identity check stops at.\<close>

definition lane_policy :: "CapabilityRequest \<Rightarrow> TenantPolicy list \<Rightarrow> TenantPolicy option" where
  "lane_policy req ts =
     find (\<lambda>t. tp_TenantID t = rq_TenantID req \<and> tp_MLCALane t = rq_MLCALane req) ts"

definition operator_bound :: "TenantPolicy \<Rightarrow> string \<Rightarrow> bool" where
  "operator_bound t op \<longleftrightarrow> tp_SovereignOperator t = [] \<or> tp_SovereignOperator t = op"

section \<open>Facts\<close>

lemma lambda_result_simps [simp]:
  "lr_Law (lambda_result law p r) = law"
  "lr_Passed (lambda_result law p r) = p"
  "lr_Reason (lambda_result law p r) = r"
  by (simp_all add: lambda_result_def)

lemma checkLambda5_passed [simp]: "lr_Passed checkLambda5"
  by (simp add: checkLambda5_def)

lemma checkLambda4_passed:
  "lr_Passed (checkLambda4 req ts) \<longleftrightarrow>
     (\<exists>t. lane_policy req ts = Some t \<and> operator_bound t (rq_OperatorID req))"
  by (induction ts) (auto simp: lane_policy_def operator_bound_def)

end
