(* ===== verification/USLGate.thy ===== *)
theory USLGate
  imports LambdaLaws
begin

text \<open>
  The USL gate of \<open>usl.go\<close>: tenant lookup, the capability lattice, the tenant's own policy and the
  checks in the order of \<open>USLGate.Check\<close>.  The verdict of the gate (result, reason, rule reference)
  is a pure function of the request; the decision identifier and the time that \<open>decision\<close> adds, and
  the metrics, come with the effects in theory \<open>Runtime\<close>.
\<close>

section \<open>Definitions\<close>

record CapabilityLattice =
  cl_Grant :: CapabilityClass
  cl_Lanes :: "string list"

record USLGate =
  ug_Tenants :: "TenantPolicy list"
  ug_Lattice :: "CapabilityLattice list"
  ug_GovernanceEnforced :: bool

fun contains :: "string list \<Rightarrow> string \<Rightarrow> bool" where
  "contains [] v = False"
| "contains (s # ss) v = (if s = v then True else contains ss v)"

fun findTenant_from :: "TenantPolicy list \<Rightarrow> string \<Rightarrow> TenantPolicy option" where
  "findTenant_from [] tid = None"
| "findTenant_from (t # ts) tid = (if tp_TenantID t = tid then Some t else findTenant_from ts tid)"

definition findTenant :: "USLGate \<Rightarrow> string \<Rightarrow> TenantPolicy option" where
  "findTenant u tid = findTenant_from (ug_Tenants u) tid"

fun granted_from :: "CapabilityLattice list \<Rightarrow> CapabilityClass \<Rightarrow> MLCALane \<Rightarrow> bool" where
  "granted_from [] c lane = False"
| "granted_from (g # gs) c lane =
     (if cc_Class (cl_Grant g) = cc_Class c \<and> cc_Scope (cl_Grant g) = cc_Scope c
         \<and> cc_Action (cl_Grant g) = cc_Action c \<and> cc_Risk (cl_Grant g) = cc_Risk c
         \<and> contains (cl_Lanes g) lane
      then True else granted_from gs c lane)"

definition capabilityGranted :: "USLGate \<Rightarrow> CapabilityClass \<Rightarrow> MLCALane \<Rightarrow> bool" where
  "capabilityGranted u c lane = granted_from (ug_Lattice u) c lane"

definition TenantPolicy_Allows :: "TenantPolicy \<Rightarrow> CapabilityClass \<Rightarrow> bool" where
  "TenantPolicy_Allows t c =
     (let hasClass = contains (tp_AllowedClasses t) (cc_Class c);
          hasScope = (length (tp_AllowedScopes t) = 0 \<or> contains (tp_AllowedScopes t) (cc_Scope c));
          hasAction = (length (tp_AllowedActions t) = 0 \<or> contains (tp_AllowedActions t) (cc_Action c));
          hasRisk = (length (tp_AllowedRisks t) = 0 \<or> contains (tp_AllowedRisks t) (cc_Risk c))
      in hasClass \<and> hasScope \<and> hasAction \<and> hasRisk)"

text \<open>
  The verdict of \<open>USLGate.Check\<close>: result, reason, rule reference and the metrics it increments, in
  the order of the checks.
\<close>

definition usl_verdict ::
  "USLGate \<Rightarrow> CapabilityRequest \<Rightarrow> AdmitResult \<times> string \<times> string \<times> Metric list" where
  "usl_verdict u req =
     (if \<not> ug_GovernanceEnforced u
        then (Deny, ''governance enforcement disabled'', Lambda7, [MetricUSLViolations])
      else case findTenant u (rq_TenantID req) of
        None \<Rightarrow> (Deny, ''unknown tenant'', Lambda4, [MetricUSLViolations, MetricIdentityViolations])
      | Some tenant \<Rightarrow>
          if tp_MLCALane tenant \<noteq> rq_MLCALane req
            then (Deny, ''mlca lane mismatch'', Lambda4,
                  [MetricUSLViolations, MetricIdentityViolations])
          else if \<not> capabilityGranted u (rq_CapabilityClass req) (rq_MLCALane req)
            then (Deny, ''capability not granted in lattice'', ''capability.lattice'',
                  [MetricUSLViolations])
          else if \<not> TenantPolicy_Allows tenant (rq_CapabilityClass req)
            then (Deny, ''capability not allowed for tenant'', ''tenant.capability_policy'',
                  [MetricUSLViolations])
          else if rq_OperatorID req = []
            then (Deny, ''operator required'', Lambda6, [MetricUSLViolations])
          else (Admit, ''admitted'', ''usl.gate'', []))"

text \<open>What the gate promises: the request is within the tenant's lane, the lattice and the policy.\<close>

definition usl_admits :: "USLGate \<Rightarrow> CapabilityRequest \<Rightarrow> bool" where
  "usl_admits u req \<longleftrightarrow>
     ug_GovernanceEnforced u \<and>
     (\<exists>t. findTenant u (rq_TenantID req) = Some t \<and> tp_MLCALane t = rq_MLCALane req
        \<and> TenantPolicy_Allows t (rq_CapabilityClass req)) \<and>
     capabilityGranted u (rq_CapabilityClass req) (rq_MLCALane req) \<and>
     rq_OperatorID req \<noteq> []"

section \<open>Facts\<close>

lemma contains_iff [simp]: "contains xs v \<longleftrightarrow> v \<in> set xs"
  by (induction xs) auto

lemma findTenant_from_find: "findTenant_from ts tid = find (\<lambda>t. tp_TenantID t = tid) ts"
  by (induction ts) auto

lemma capability_eq_iff:
  "(c :: CapabilityClass) = d \<longleftrightarrow> cc_Class c = cc_Class d \<and> cc_Scope c = cc_Scope d
     \<and> cc_Action c = cc_Action d \<and> cc_Risk c = cc_Risk d"
  by (cases c; cases d) simp

lemma granted_from_iff:
  "granted_from gs c lane \<longleftrightarrow> (\<exists>g\<in>set gs. cl_Grant g = c \<and> lane \<in> set (cl_Lanes g))"
  by (induction gs) (auto simp: capability_eq_iff)

lemma capabilityGranted_iff:
  "capabilityGranted u c lane \<longleftrightarrow>
     (\<exists>g\<in>set (ug_Lattice u). cl_Grant g = c \<and> lane \<in> set (cl_Lanes g))"
  by (simp add: capabilityGranted_def granted_from_iff)

lemma TenantPolicy_Allows_iff:
  "TenantPolicy_Allows t c \<longleftrightarrow>
     cc_Class c \<in> set (tp_AllowedClasses t) \<and>
     (tp_AllowedScopes t = [] \<or> cc_Scope c \<in> set (tp_AllowedScopes t)) \<and>
     (tp_AllowedActions t = [] \<or> cc_Action c \<in> set (tp_AllowedActions t)) \<and>
     (tp_AllowedRisks t = [] \<or> cc_Risk c \<in> set (tp_AllowedRisks t))"
  by (simp add: TenantPolicy_Allows_def)

lemma usl_verdict_Admit: "fst (usl_verdict u req) = Admit \<longleftrightarrow> usl_admits u req"
  by (auto simp: usl_verdict_def usl_admits_def split: option.splits)

lemma usl_verdict_result: "fst (usl_verdict u req) \<in> {Admit, Deny}"
  by (auto simp: usl_verdict_def split: option.splits)

text \<open>
  The two tenant searches of the pipeline agree on a request the gate admits: the policy the
  identity check looks at is the one the gate found.
\<close>

lemma lane_policy_of_usl:
  assumes "findTenant u (rq_TenantID req) = Some t" and "tp_MLCALane t = rq_MLCALane req"
  shows "lane_policy req (ug_Tenants u) = Some t"
proof -
  have "findTenant_from ts (rq_TenantID req) = Some t \<Longrightarrow> lane_policy req ts = Some t" for ts
    using assms(2) by (induction ts) (auto simp: lane_policy_def split: if_splits)
  then show ?thesis using assms(1) by (simp add: findTenant_def)
qed

section \<open>Properties\<close>

text \<open>
  On a request the gate admits, the identity-separation check of the pipeline looks at the same
  tenant policy as the gate, and passes exactly when that tenant has no sovereign operator or the
  request names it.
\<close>

lemma identity_check_agrees:
  assumes "usl_admits u req"
  shows "\<exists>t. findTenant u (rq_TenantID req) = Some t \<and> lane_policy req (ug_Tenants u) = Some t
    \<and> (lr_Passed (checkLambda4 req (ug_Tenants u)) \<longleftrightarrow>
         tp_SovereignOperator t = [] \<or> tp_SovereignOperator t = rq_OperatorID req)"
proof -
  obtain t where t: "findTenant u (rq_TenantID req) = Some t" "tp_MLCALane t = rq_MLCALane req"
    using assms by (auto simp: usl_admits_def)
  then have "lane_policy req (ug_Tenants u) = Some t" by (rule lane_policy_of_usl)
  with t show ?thesis by (auto simp: checkLambda4_passed operator_bound_def)
qed

end
