(* ===== verification/LedgerChain.thy ===== *)
theory LedgerChain
  imports VossTypes
begin

text \<open>
  The hash-chained ledger of \<open>ledger.go\<close>: its state, \<open>Append\<close>, \<open>Verify\<close>, \<open>VerifyExport\<close>, \<open>Export\<close>,
  \<open>Count\<close>, \<open>GenerateCER\<close> and the entry hash over \<open>json.Marshal\<close> and SHA-256.  The clock reading that
  \<open>Append\<close> and \<open>GenerateCER\<close> take inside the lock is their first argument.

  The locale \<open>chained_log\<close> states what a store of chained entries promises; it is interpreted on the
  router's ledger here and on the catalog of the ledger service in theory \<open>LedgerCatalog\<close>.  The facts about
  \<open>VerifyExport\<close> say which changes to an exported chain the verification notices and which it does
  not.
\<close>

section \<open>The entry hash\<close>

definition capability_json :: "CapabilityClass \<Rightarrow> json" where
  "capability_json c =
     JObj [(''class'', JStr (cc_Class c)), (''scope'', JStr (cc_Scope c)),
           (''action'', JStr (cc_Action c)), (''risk'', JStr (cc_Risk c))]"

definition stage_json :: "StageRecord \<Rightarrow> json" where
  "stage_json s =
     JObj [(''stage'', JStr (sr_Stage s)), (''passed'', JBool (sr_Passed s)),
           (''reason'', JStr (sr_Reason s)), (''rule_ref'', JStr (sr_RuleRef s))]"

definition omitempty :: "string \<Rightarrow> string \<Rightarrow> (string \<times> json) list" where
  "omitempty key v = (if v = [] then [] else [(key, JStr v)])"

definition entry_json :: "string \<Rightarrow> LedgerEntry \<Rightarrow> json" where
  "entry_json timestamp e =
     JObj ([(''index'', JNum (nat_dec (unat (le_Index e)))), (''timestamp'', JStr timestamp),
            (''request_id'', JStr (le_RequestID e)), (''intent_id'', JStr (le_IntentID e)),
            (''tenant_id'', JStr (le_TenantID e)), (''mlca_lane'', JStr (le_MLCALane e)),
            (''capability'', capability_json (le_Capability e)),
            (''provider'', JStr (le_Provider e)), (''admitted'', JBool (le_Admitted e)),
            (''result'', JStr (le_Result e)), (''reason'', JStr (le_Reason e)),
            (''rule_ref'', JStr (le_RuleRef e)), (''decision_id'', JStr (le_DecisionID e)),
            (''stage_log'', (case le_StageLog e of None \<Rightarrow> JNull
                             | Some ss \<Rightarrow> JArr (map stage_json ss))),
            (''prev_hash'', JStr (le_PrevHash e)), (''hash'', JStr (le_Hash e))]
           @ omitempty ''replay_id'' (le_ReplayID e)
           @ omitempty ''execution_hash'' (le_ExecutionHash e))"

text \<open>\<open>data, _ := json.Marshal(e)\<close>: a failure to format the time leaves \<open>data\<close> nil.\<close>

definition marshal_entry :: "LedgerEntry \<Rightarrow> string" where
  "marshal_entry e =
     (case rfc3339_nano (le_Timestamp e) of
        None \<Rightarrow> [] | Some ts \<Rightarrow> json_text (entry_json ts e))"

definition hashEntry :: "LedgerEntry \<Rightarrow> string" where
  "hashEntry e = sha256_hex (marshal_entry (e\<lparr>le_Hash := [], le_PrevHash := []\<rparr>))"

section \<open>The ledger\<close>

record Ledger =
  lg_entries :: "LedgerEntry list"
  lg_lastHash :: string
  lg_nextIdx :: "64 word"

definition genesis :: string where
  "genesis = ''genesis''"

definition NewLedger :: Ledger where
  "NewLedger = \<lparr>lg_entries = [], lg_lastHash = genesis, lg_nextIdx = 0\<rparr>"

definition Append :: "Time \<Rightarrow> LedgerEntry \<Rightarrow> Ledger \<Rightarrow> LedgerEntry \<times> Ledger" where
  "Append now entry l =
     (let e1 = entry\<lparr>le_Index := lg_nextIdx l, le_Timestamp := now, le_PrevHash := lg_lastHash l\<rparr>;
          e2 = e1\<lparr>le_Hash := hashEntry e1\<rparr>
      in (e2, l\<lparr>lg_entries := lg_entries l @ [e2], lg_lastHash := le_Hash e2,
               lg_nextIdx := lg_nextIdx l + 1\<rparr>))"

text \<open>The entries that \<open>WriteDecision\<close> and \<open>WriteExecution\<close> build, with the clock reading of the replay marker.\<close>

definition replay_marker :: "string \<Rightarrow> Time \<Rightarrow> string" where
  "replay_marker intent now = ''replay-'' @ intent @ ''-'' @ int_dec (UnixNano now)"

definition decision_entry ::
  "Time \<Rightarrow> CapabilityRequest \<Rightarrow> bool \<Rightarrow> AdmitResult \<Rightarrow> string \<Rightarrow> string \<Rightarrow> string
     \<Rightarrow> StageRecord list option \<Rightarrow> LedgerEntry" where
  "decision_entry now req admitted result reason ruleRef decisionID stageLog =
     zero_LedgerEntry\<lparr>le_RequestID := rq_RequestID req, le_IntentID := rq_IntentID req,
       le_TenantID := rq_TenantID req, le_MLCALane := rq_MLCALane req,
       le_Capability := rq_CapabilityClass req, le_Provider := mr_ProviderID (rq_ModelRef req),
       le_Admitted := admitted, le_Result := result, le_Reason := reason, le_RuleRef := ruleRef,
       le_DecisionID := decisionID, le_StageLog := stageLog,
       le_ReplayID := replay_marker (rq_IntentID req) now\<rparr>"

definition execution_entry :: "Time \<Rightarrow> CapabilityRequest \<Rightarrow> string \<Rightarrow> string \<Rightarrow> LedgerEntry" where
  "execution_entry now req decisionID executionHash =
     zero_LedgerEntry\<lparr>le_RequestID := rq_RequestID req, le_IntentID := rq_IntentID req,
       le_TenantID := rq_TenantID req, le_MLCALane := rq_MLCALane req,
       le_Capability := rq_CapabilityClass req, le_Provider := mr_ProviderID (rq_ModelRef req),
       le_Admitted := True, le_Result := Admit, le_Reason := ''executed under governance'',
       le_RuleRef := ''provider.execution'', le_DecisionID := decisionID,
       le_ExecutionHash := executionHash, le_ReplayID := replay_marker (rq_IntentID req) now\<rparr>"

text \<open>The loop \<open>for i := 1; i < len(entries); i++\<close> of the two verifiers.\<close>

fun count_breaks :: "LedgerEntry list \<Rightarrow> nat" where
  "count_breaks (a # b # es) =
     (if le_PrevHash b \<noteq> le_Hash a then 1 else 0) + count_breaks (b # es)"
| "count_breaks _ = 0"

definition Verify :: "Ledger \<Rightarrow> bool \<times> nat" where
  "Verify l =
     (if length (lg_entries l) = 0 then (True, 0)
      else if le_PrevHash (lg_entries l ! 0) \<noteq> genesis then (False, 0)
      else let breaks = count_breaks (lg_entries l) in (breaks = 0, breaks))"

definition VerifyExport :: "LedgerEntry list \<Rightarrow> bool \<times> nat" where
  "VerifyExport entries =
     (if length entries = 0 then (True, 0)
      else if le_PrevHash (entries ! 0) \<noteq> genesis then (False, 0)
      else let breaks = count_breaks entries in (breaks = 0, breaks))"

definition Export :: "Ledger \<Rightarrow> LedgerEntry list" where
  "Export l = lg_entries l"

definition Count :: "Ledger \<Rightarrow> nat" where
  "Count l = length (lg_entries l)"

definition make_CER :: "Time \<Rightarrow> LedgerEntry list \<Rightarrow> LedgerEntry \<Rightarrow> CER" where
  "make_CER now lineage e =
     \<lparr>cer_Version = ''1.0'', cer_DecisionID = le_DecisionID e, cer_RequestID = le_RequestID e,
      cer_IntentID = le_IntentID e, cer_TenantID = le_TenantID e,
      cer_RuntimeIdentity = ''voss-standalone'', cer_InputHash = sha256_hex (marshal_entry e),
      cer_EvidenceArtifacts = [le_Hash e], cer_VerificationChecks = le_StageLog e,
      cer_ReplayMarker = le_ReplayID e, cer_Lineage = lineage, cer_Timestamp = now\<rparr>"

fun cer_loop :: "Time \<Rightarrow> LedgerEntry list \<Rightarrow> LedgerEntry list \<Rightarrow> string \<Rightarrow> CER option" where
  "cer_loop now lineage [] decisionID = None"
| "cer_loop now lineage (e # es) decisionID =
     (if le_DecisionID e = decisionID then Some (make_CER now lineage e)
      else cer_loop now lineage es decisionID)"

definition GenerateCER :: "Time \<Rightarrow> Ledger \<Rightarrow> string \<Rightarrow> CER option" where
  "GenerateCER now l decisionID = cer_loop now (lg_entries l) (lg_entries l) decisionID"

section \<open>What a chain is\<close>

definition chained :: "LedgerEntry list \<Rightarrow> bool" where
  "chained es \<longleftrightarrow>
     (es \<noteq> [] \<longrightarrow> le_PrevHash (hd es) = genesis) \<and>
     (\<forall>i. Suc i < length es \<longrightarrow> le_PrevHash (es ! Suc i) = le_Hash (es ! i))"

definition sealed :: "LedgerEntry list \<Rightarrow> bool" where
  "sealed es \<longleftrightarrow> (\<forall>e\<in>set es. le_Hash e = hashEntry e)"

definition indexed :: "LedgerEntry list \<Rightarrow> bool" where
  "indexed es \<longleftrightarrow> (\<forall>i<length es. le_Index (es ! i) = word_of_nat i)"

text \<open>The hash the next entry must name as its predecessor.\<close>

definition tip :: "LedgerEntry list \<Rightarrow> string" where
  "tip es = (if es = [] then genesis else le_Hash (last es))"

definition ledger_inv :: "Ledger \<Rightarrow> bool" where
  "ledger_inv l \<longleftrightarrow> lg_lastHash l = tip (lg_entries l) \<and> lg_nextIdx l = word_of_nat (length (lg_entries l))"

definition ledger_wf :: "Ledger \<Rightarrow> bool" where
  "ledger_wf l \<longleftrightarrow> ledger_inv l \<and> chained (lg_entries l) \<and> sealed (lg_entries l) \<and> indexed (lg_entries l)"

text \<open>A sequence of appends, each with its clock reading.\<close>

fun append_many ::
  "(Time \<Rightarrow> LedgerEntry \<Rightarrow> 's \<Rightarrow> LedgerEntry \<times> 's) \<Rightarrow> (Time \<times> LedgerEntry) list \<Rightarrow> 's \<Rightarrow> 's" where
  "append_many app [] s = s"
| "append_many app ((t, e) # tes) s = append_many app tes (snd (app t e s))"

section \<open>Facts\<close>

lemma count_breaks_zero:
  "count_breaks es = 0 \<longleftrightarrow> (\<forall>i. Suc i < length es \<longrightarrow> le_PrevHash (es ! Suc i) = le_Hash (es ! i))"
proof (induction es rule: count_breaks.induct)
  case (1 a b es)
  show ?case (is "?L = (\<forall>i. ?P i)")
  proof -
    have "?L \<longleftrightarrow> le_PrevHash b = le_Hash a \<and> count_breaks (b # es) = 0" by simp
    also have "\<dots> \<longleftrightarrow> ?P 0 \<and> (\<forall>i. ?P (Suc i))" using "1.IH" by simp
    also have "\<dots> \<longleftrightarrow> (\<forall>i. ?P i)" by (metis not0_implies_Suc)
    finally show ?thesis .
  qed
qed auto

lemma VerifyExport_chained: "VerifyExport es = (True, 0) \<longleftrightarrow> chained es"
  by (cases es) (auto simp: VerifyExport_def chained_def count_breaks_zero Let_def)

lemma VerifyExport_fst: "fst (VerifyExport es) \<longleftrightarrow> chained es"
  by (cases es) (auto simp: VerifyExport_def chained_def count_breaks_zero Let_def)

lemma Verify_VerifyExport: "Verify l = VerifyExport (Export l)"
  by (simp add: Verify_def VerifyExport_def Export_def)

lemma hashEntry_ignores [simp]:
  "hashEntry (e\<lparr>le_Hash := h\<rparr>) = hashEntry e" "hashEntry (e\<lparr>le_PrevHash := p\<rparr>) = hashEntry e"
  by (simp_all add: hashEntry_def)

lemma length_hashEntry: "length (hashEntry e) = 64"
  by (simp add: hashEntry_def length_sha256_hex)

lemma hashEntry_not_genesis: "hashEntry e \<noteq> genesis"
proof
  assume "hashEntry e = genesis"
  then have "length (hashEntry e) = length genesis" by simp
  then show False by (simp add: length_hashEntry genesis_def)
qed

lemma chained_Nil [simp]: "chained []"
  by (simp add: chained_def)

lemma chained_snoc: "chained (es @ [e]) \<longleftrightarrow> chained es \<and> le_PrevHash e = tip es"
proof (cases es rule: rev_cases)
  case Nil
  then show ?thesis by (simp add: chained_def tip_def)
next
  case (snoc fs f)
  have split: "(\<forall>i. Suc i < length (es @ [e]) \<longrightarrow> le_PrevHash ((es @ [e]) ! Suc i) = le_Hash ((es @ [e]) ! i))
      \<longleftrightarrow> (\<forall>i. Suc i < length es \<longrightarrow> le_PrevHash (es ! Suc i) = le_Hash (es ! i))
          \<and> le_PrevHash e = le_Hash f"
    using snoc by (auto simp: nth_append less_Suc_eq)
  have "hd (es @ [e]) = hd es" using snoc by (cases fs) simp_all
  with split snoc show ?thesis unfolding chained_def tip_def by auto
qed

lemma sealed_snoc [simp]: "sealed (es @ [e]) \<longleftrightarrow> sealed es \<and> le_Hash e = hashEntry e"
  by (auto simp: sealed_def)

lemma indexed_snoc:
  "indexed (es @ [e]) \<longleftrightarrow> indexed es \<and> le_Index e = word_of_nat (length es)"
  by (auto simp: indexed_def nth_append less_Suc_eq)

subsection \<open>The contract of a chained store\<close>

locale chained_log =
  fixes entries :: "'s \<Rightarrow> LedgerEntry list"
    and append_entry :: "Time \<Rightarrow> LedgerEntry \<Rightarrow> 's \<Rightarrow> LedgerEntry \<times> 's"
    and inv :: "'s \<Rightarrow> bool"
  assumes entries_append: "inv s \<Longrightarrow> entries (snd (append_entry t e s)) = entries s @ [fst (append_entry t e s)]"
    and inv_append: "inv s \<Longrightarrow> inv (snd (append_entry t e s))"
    and prev_append: "inv s \<Longrightarrow> le_PrevHash (fst (append_entry t e s)) = tip (entries s)"
    and hash_append: "inv s \<Longrightarrow> le_Hash (fst (append_entry t e s)) = hashEntry (fst (append_entry t e s))"
    and index_append: "inv s \<Longrightarrow> le_Index (fst (append_entry t e s)) = word_of_nat (length (entries s))"
begin

lemma chained_append: "inv s \<Longrightarrow> chained (entries s) \<Longrightarrow> chained (entries (snd (append_entry t e s)))"
  by (simp add: entries_append chained_snoc prev_append)

lemma chained_append_iff: "inv s \<Longrightarrow> chained (entries (snd (append_entry t e s))) \<longleftrightarrow> chained (entries s)"
  by (simp add: entries_append chained_snoc prev_append)

lemma sealed_append: "inv s \<Longrightarrow> sealed (entries s) \<Longrightarrow> sealed (entries (snd (append_entry t e s)))"
  by (simp add: entries_append hash_append)

lemma indexed_append: "inv s \<Longrightarrow> indexed (entries s) \<Longrightarrow> indexed (entries (snd (append_entry t e s)))"
  by (simp add: entries_append indexed_snoc index_append)

lemma append_many_log:
  "inv s \<Longrightarrow> inv (append_many append_entry tes s) \<and>
     (\<exists>new. entries (append_many append_entry tes s) = entries s @ new \<and> length new = length tes)"
proof (induction tes arbitrary: s)
  case Nil
  then show ?case by simp
next
  case (Cons te tes)
  obtain t e where te: "te = (t, e)" by (cases te)
  from Cons.IH [OF inv_append [OF Cons.prems], of t e] obtain new where
    "inv (append_many append_entry (te # tes) s)"
    "entries (append_many append_entry (te # tes) s) = entries s @ fst (append_entry t e s) # new"
    "length (fst (append_entry t e s) # new) = length (te # tes)"
    by (auto simp: te entries_append [OF Cons.prems])
  then show ?case by blast
qed

lemma append_many_chained:
  "inv s \<Longrightarrow> chained (entries (append_many append_entry tes s)) \<longleftrightarrow> chained (entries s)"
  by (induction tes arbitrary: s) (auto simp: inv_append chained_append_iff)

lemma append_many_sealed:
  "inv s \<Longrightarrow> sealed (entries s) \<Longrightarrow> sealed (entries (append_many append_entry tes s))"
  by (induction tes arbitrary: s) (auto simp: inv_append sealed_append)

end

lemma Append_simps [simp]:
  "lg_entries (snd (Append now e l)) = lg_entries l @ [fst (Append now e l)]"
  "lg_lastHash (snd (Append now e l)) = le_Hash (fst (Append now e l))"
  "lg_nextIdx (snd (Append now e l)) = lg_nextIdx l + 1"
  "le_PrevHash (fst (Append now e l)) = lg_lastHash l"
  "le_Index (fst (Append now e l)) = lg_nextIdx l"
  "le_Timestamp (fst (Append now e l)) = now"
  by (simp_all add: Append_def Let_def)

lemma Append_content [simp]:
  "le_RequestID (fst (Append now e l)) = le_RequestID e"
  "le_IntentID (fst (Append now e l)) = le_IntentID e"
  "le_TenantID (fst (Append now e l)) = le_TenantID e"
  "le_MLCALane (fst (Append now e l)) = le_MLCALane e"
  "le_Capability (fst (Append now e l)) = le_Capability e"
  "le_Provider (fst (Append now e l)) = le_Provider e"
  "le_Admitted (fst (Append now e l)) = le_Admitted e"
  "le_Result (fst (Append now e l)) = le_Result e"
  "le_Reason (fst (Append now e l)) = le_Reason e"
  "le_RuleRef (fst (Append now e l)) = le_RuleRef e"
  "le_DecisionID (fst (Append now e l)) = le_DecisionID e"
  "le_StageLog (fst (Append now e l)) = le_StageLog e"
  "le_ReplayID (fst (Append now e l)) = le_ReplayID e"
  "le_ExecutionHash (fst (Append now e l)) = le_ExecutionHash e"
  by (simp_all add: Append_def Let_def)

lemma Append_hash [simp]: "le_Hash (fst (Append now e l)) = hashEntry (fst (Append now e l))"
  by (simp add: Append_def Let_def)

interpretation router_log: chained_log lg_entries Append ledger_inv
proof
  fix s t e
  assume inv: "ledger_inv s"
  then show "ledger_inv (snd (Append t e s))"
    by (simp add: ledger_inv_def tip_def)
  show "le_PrevHash (fst (Append t e s)) = tip (lg_entries s)"
    and "le_Index (fst (Append t e s)) = word_of_nat (length (lg_entries s))"
    using inv by (simp_all add: ledger_inv_def)
qed (simp_all)

lemma ledger_wf_NewLedger: "ledger_wf NewLedger"
  by (simp add: ledger_wf_def ledger_inv_def NewLedger_def tip_def sealed_def indexed_def)

lemma ledger_wf_Append: "ledger_wf l \<Longrightarrow> ledger_wf (snd (Append now e l))"
  by (simp add: ledger_wf_def router_log.inv_append router_log.chained_append
      router_log.sealed_append router_log.indexed_append del: Append_simps)

lemma ledger_wf_Verify: "ledger_wf l \<Longrightarrow> Verify l = (True, 0)"
  by (simp add: Verify_VerifyExport VerifyExport_chained ledger_wf_def Export_def)

subsection \<open>What verification notices\<close>

lemma chained_take: "chained es \<Longrightarrow> chained (take n es)"
  by (auto simp: chained_def hd_conv_nth)

lemma count_breaks_same_hashes:
  "map le_Hash es = map le_Hash fs \<Longrightarrow> map le_PrevHash es = map le_PrevHash fs \<Longrightarrow>
     count_breaks es = count_breaks fs"
proof (induction es arbitrary: fs rule: count_breaks.induct)
  case (1 a b es)
  then obtain c d gs where "fs = c # d # gs" by (auto simp: map_eq_Cons_conv)
  with 1 show ?case by auto
qed (auto simp: map_eq_Cons_conv)

lemma VerifyExport_same_hashes:
  assumes "map le_Hash es = map le_Hash fs" and "map le_PrevHash es = map le_PrevHash fs"
  shows "VerifyExport es = VerifyExport fs"
proof -
  have "count_breaks es = count_breaks fs" by (rule count_breaks_same_hashes [OF assms])
  with assms(2) show ?thesis by (cases es; cases fs) (auto simp: VerifyExport_def)
qed

lemma chained_delete_middle:
  assumes "chained es" and "0 < i" and "Suc i < length es"
  shows "chained (take i es @ drop (Suc i) es) \<longleftrightarrow> le_Hash (es ! i) = le_Hash (es ! (i - 1))"
proof -
  let ?ds = "take i es @ drop (Suc i) es"
  have link: "le_PrevHash (es ! Suc j) = le_Hash (es ! j)" if "Suc j < length es" for j
    using assms(1) that by (auto simp: chained_def)
  have nth: "?ds ! j = (if j < i then es ! j else es ! Suc j)" if "Suc j < length es" for j
    using that assms(3) by (auto simp: nth_append min_def)
  have len: "length ?ds = length es - 1" using assms(3) by simp
  have hd: "le_PrevHash (hd ?ds) = genesis"
    using assms by (cases es) (auto simp: chained_def take_Cons')
  show ?thesis
  proof
    assume "chained ?ds"
    moreover have "Suc (i - 1) < length ?ds" using assms(2,3) len by simp
    ultimately have "le_PrevHash (?ds ! Suc (i - 1)) = le_Hash (?ds ! (i - 1))"
      by (auto simp: chained_def)
    then have "le_PrevHash (es ! Suc i) = le_Hash (es ! (i - 1))"
      using nth [of i] nth [of "i - 1"] assms(2,3) by simp
    then show "le_Hash (es ! i) = le_Hash (es ! (i - 1))" using link [OF assms(3)] by simp
  next
    assume eq: "le_Hash (es ! i) = le_Hash (es ! (i - 1))"
    have "le_PrevHash (?ds ! Suc j) = le_Hash (?ds ! j)" if "Suc j < length ?ds" for j
    proof -
      have "Suc (Suc j) < length es" "Suc j < length es" using that len by auto
      then show ?thesis
        using nth [of j] nth [of "Suc j"] link [of j] link [of "Suc j"] eq
        by (cases "Suc j = i") (auto simp: not_less_eq)
    qed
    with hd show "chained ?ds" by (simp add: chained_def)
  qed
qed

lemma chained_tl_sealed:
  assumes "chained es" and "sealed es" and "1 < length es"
  shows "\<not> chained (tl es)"
proof
  assume "chained (tl es)"
  from assms(3) obtain a b fs where es: "es = a # b # fs"
    by (cases es; cases "tl es") auto
  have "le_PrevHash b = le_Hash a" using assms(1) es by (auto simp: chained_def)
  moreover have "le_Hash a = hashEntry a" using assms(2) es by (simp add: sealed_def)
  moreover have "le_PrevHash b = genesis" using \<open>chained (tl es)\<close> es by (simp add: chained_def)
  ultimately show False using hashEntry_not_genesis by metis
qed

lemma cer_loop_first:
  "cer_loop now lineage es d = map_option (make_CER now lineage) (find (\<lambda>e. le_DecisionID e = d) es)"
  by (induction es) auto

section \<open>Properties\<close>

lemma count_breaks_card:
  "count_breaks es = card {i. Suc i < length es \<and> le_PrevHash (es ! Suc i) \<noteq> le_Hash (es ! i)}"
proof (induction es rule: count_breaks.induct)
  case (1 a b es)
  let ?S = "\<lambda>fs. {i. Suc i < length fs \<and> le_PrevHash (fs ! Suc i) \<noteq> le_Hash (fs ! i)}"
  have "?S (a # b # es) = (if le_PrevHash b \<noteq> le_Hash a then {0} else {}) \<union> Suc ` ?S (b # es)"
  proof (rule set_eqI)
    show "i \<in> ?S (a # b # es) \<longleftrightarrow> i \<in> (if le_PrevHash b \<noteq> le_Hash a then {0} else {}) \<union> Suc ` ?S (b # es)" for i
      by (cases i) auto
  qed
  moreover have "finite (?S (b # es))" by (rule finite_subset [of _ "{..<length (b # es)}"]) auto
  ultimately show ?case using "1.IH" by (auto simp: card_insert_if card_image)
qed simp_all

lemma append_many_New:
  "ledger_inv (append_many Append tes NewLedger)"
  "chained (lg_entries (append_many Append tes NewLedger))"
  "sealed (lg_entries (append_many Append tes NewLedger))"
  "length (lg_entries (append_many Append tes NewLedger)) = length tes"
proof -
  have inv: "ledger_inv NewLedger" using ledger_wf_NewLedger by (simp add: ledger_wf_def)
  have new: "lg_entries NewLedger = []" "sealed []" by (simp_all add: NewLedger_def sealed_def)
  show "ledger_inv (append_many Append tes NewLedger)"
    and "length (lg_entries (append_many Append tes NewLedger)) = length tes"
    using router_log.append_many_log [OF inv, of tes] new by auto
  show "chained (lg_entries (append_many Append tes NewLedger))"
    using router_log.append_many_chained [OF inv, of tes] new by simp
  show "sealed (lg_entries (append_many Append tes NewLedger))"
    using router_log.append_many_sealed [OF inv, of tes] new by simp
qed

text \<open>
  C27: \<open>VerifyExport\<close> answers whether the export is chained back to the genesis marker; its second result
  is the number of links that do not match where the export starts at the marker, and 0 where it does not,
  however many links are broken.  The ledger's own \<open>Verify\<close> is the same function of its export.
\<close>

theorem verify_counts_breaks:
  "VerifyExport es =
     (chained es,
      if es \<noteq> [] \<and> le_PrevHash (hd es) = genesis
      then card {i. Suc i < length es \<and> le_PrevHash (es ! Suc i) \<noteq> le_Hash (es ! i)} else 0)
   \<and> Verify l = VerifyExport (Export l)"
proof -
  have "fst (VerifyExport es) \<longleftrightarrow> chained es" by (rule VerifyExport_fst)
  moreover have "snd (VerifyExport es) = (if es \<noteq> [] \<and> le_PrevHash (hd es) = genesis
      then card {i. Suc i < length es \<and> le_PrevHash (es ! Suc i) \<noteq> le_Hash (es ! i)} else 0)"
    using count_breaks_card [of es] by (cases es) (simp_all add: VerifyExport_def Let_def)
  ultimately show ?thesis by (simp add: prod_eq_iff Verify_VerifyExport)
qed

text \<open>
  Whatever entries are appended to a new ledger, at whatever clock readings, the ledger
  verifies without breaks, holds one entry per append, every entry carries the hash of its own
  content, and the position counter and last hash describe the list.
\<close>

lemma ledger_from_scratch:
  "let l = append_many Append tes NewLedger in
     Verify l = (True, 0) \<and> Count l = length tes \<and> sealed (Export l) \<and> ledger_inv l"
  using append_many_New [of tes]
  by (simp add: Verify_VerifyExport VerifyExport_chained Export_def Count_def Let_def)

text \<open>
  C28: in a chained ledger whose entries carry their own hashes, deleting the first of several
  entries is detected, and deleting an entry between two others is detected exactly when its hash
  differs from its predecessor's.
\<close>

theorem deletion_detected:
  assumes "fst (VerifyExport es)" and "sealed es" and "0 < i" and "Suc i < length es"
  shows "\<not> fst (VerifyExport (tl es))
    \<and> (fst (VerifyExport (take i es @ drop (Suc i) es)) \<longleftrightarrow> hashEntry (es ! i) = hashEntry (es ! (i - 1)))"
proof -
  have "chained es" using assms(1) by (simp add: VerifyExport_fst)
  moreover have "le_Hash (es ! i) = hashEntry (es ! i)" "le_Hash (es ! (i - 1)) = hashEntry (es ! (i - 1))"
    using assms by (auto simp: sealed_def)
  ultimately show ?thesis
    using assms by (simp add: VerifyExport_fst chained_tl_sealed chained_delete_middle)
qed

theorem deletion_detected_witness:
  "\<not> fst (VerifyExport (tl (Export (append_many Append
       [(0, zero_LedgerEntry), (1, zero_LedgerEntry), (2, zero_LedgerEntry)] NewLedger))))"
  using append_many_New [of "[(0, zero_LedgerEntry), (1, zero_LedgerEntry), (2, zero_LedgerEntry)]"]
  by (intro deletion_detected [where i = 1, THEN conjunct1]) (simp_all only: VerifyExport_fst Export_def, simp_all)

text \<open>
  C29: verification compares stored hashes only: an export that verifies still verifies after any
  suffix has been cut off, and after the verdict of any entry has been rewritten in place.
\<close>

theorem tampering_undetected:
  assumes "fst (VerifyExport es)"
  shows "fst (VerifyExport (take n es)) \<and>
    fst (VerifyExport (es[i := (es ! i)\<lparr>le_Admitted := a, le_Result := r, le_Reason := why, le_TenantID := t\<rparr>]))"
proof -
  let ?e = "(es ! i)\<lparr>le_Admitted := a, le_Result := r, le_Reason := why, le_TenantID := t\<rparr>"
  have "map f (es[i := ?e]) = map f es" if "f ?e = f (es ! i)" for f :: "LedgerEntry \<Rightarrow> string"
    using that by (cases "i < length es") (simp_all add: map_update list_update_same_conv list_update_beyond)
  then have "VerifyExport (es[i := ?e]) = VerifyExport es" by (intro VerifyExport_same_hashes) simp_all
  with assms show ?thesis by (simp add: VerifyExport_fst chained_take)
qed

theorem tampering_undetected_witness:
  "fst (VerifyExport [zero_LedgerEntry\<lparr>le_PrevHash := genesis, le_Admitted := True, le_Result := Admit,
     le_Reason := ''forged'', le_TenantID := ''other''\<rparr>])"
proof -
  have "fst (VerifyExport [zero_LedgerEntry\<lparr>le_PrevHash := genesis\<rparr>])" by (simp add: VerifyExport_def)
  from tampering_undetected [OF this, where n = 1 and i = 0 and a = True and r = Admit and why = "''forged''" and t = "''other''"] show ?thesis
    by (simp add: zero_LedgerEntry_def)
qed

end
