(* ===== verification/Execution.thy ===== *)
theory Execution
  imports VossTypes
begin

text \<open>
  The execution state machine of \<open>execution.go\<close>: the states, the table of legal transitions, the store
  with one state per intent and its operations \<open>Current\<close>, \<open>Transition\<close>, \<open>Forcibly\<close> and \<open>Reset\<close>.

  The step relation \<open>legal_step\<close> is the table as a relation on the state of one intent; the facts show
  that \<open>Transition\<close> moves along the legal table only, that the two terminal states have no legal successor,
  and that \<open>Forcibly\<close> and \<open>Reset\<close> ignore the table.
\<close>

section \<open>Definitions\<close>

datatype ExecState = ExecPending | ExecAdmitted | ExecRunning | ExecHalted | ExecTerminated

fun legalTransitions :: "ExecState \<Rightarrow> ExecState \<Rightarrow> bool" where
  "legalTransitions ExecPending next = (next = ExecAdmitted)"
| "legalTransitions ExecAdmitted next = (next = ExecRunning \<or> next = ExecHalted \<or> next = ExecTerminated)"
| "legalTransitions ExecRunning next = (next = ExecHalted \<or> next = ExecTerminated)"
| "legalTransitions ExecHalted next = False"
| "legalTransitions ExecTerminated next = False"

definition IsTerminal :: "ExecState \<Rightarrow> bool" where
  "IsTerminal s \<longleftrightarrow> s = ExecHalted \<or> s = ExecTerminated"

type_synonym ExecutionState = "string \<rightharpoonup> ExecState"

definition NewExecutionState :: ExecutionState where
  "NewExecutionState = Map.empty"

definition Current :: "ExecutionState \<Rightarrow> string \<Rightarrow> ExecState" where
  "Current e intent = (case e intent of None \<Rightarrow> ExecPending | Some st \<Rightarrow> st)"

definition Transition ::
  "string \<Rightarrow> ExecState \<Rightarrow> ExecState \<Rightarrow> ExecutionState \<Rightarrow> bool \<times> ExecutionState" where
  "Transition intent expect next e =
     (let cur = (case e intent of None \<Rightarrow> ExecPending | Some st \<Rightarrow> st) in
      if cur \<noteq> expect then (False, e)
      else if \<not> legalTransitions cur next then (False, e)
      else (True, e(intent \<mapsto> next)))"

definition Forcibly :: "string \<Rightarrow> ExecState \<Rightarrow> ExecutionState \<Rightarrow> ExecutionState" where
  "Forcibly intent next e = e(intent \<mapsto> next)"

definition Reset :: "string \<Rightarrow> ExecutionState \<Rightarrow> ExecutionState" where
  "Reset intent e = e(intent := None)"

text \<open>The moves \<open>Transition\<close> can make, as a relation on the state of one intent.\<close>

inductive legal_step :: "ExecState \<Rightarrow> ExecState \<Rightarrow> bool" where
  admit: "legal_step ExecPending ExecAdmitted"
| start: "legal_step ExecAdmitted ExecRunning"
| halt: "s = ExecAdmitted \<or> s = ExecRunning \<Longrightarrow> legal_step s ExecHalted"
| terminate: "s = ExecAdmitted \<or> s = ExecRunning \<Longrightarrow> legal_step s ExecTerminated"

code_pred legal_step .

inductive_cases legal_step_from_halted: "legal_step ExecHalted t"
inductive_cases legal_step_from_terminated: "legal_step ExecTerminated t"
inductive_cases legal_step_from_pending: "legal_step ExecPending t"
inductive_simps legal_step_to_running: "legal_step s ExecRunning"

section \<open>Facts\<close>

lemma legal_step_table: "legal_step s t \<longleftrightarrow> legalTransitions s t"
  by (cases s; cases t) (auto intro: legal_step.intros elim: legal_step.cases)

lemma terminal_no_step: "IsTerminal s \<Longrightarrow> \<not> legal_step s t"
  by (auto simp: IsTerminal_def elim: legal_step_from_halted legal_step_from_terminated)

lemma Current_New [simp]: "Current NewExecutionState i = ExecPending"
  by (simp add: Current_def NewExecutionState_def)

lemma Current_Forcibly [simp]:
  "Current (Forcibly i s e) j = (if j = i then s else Current e j)"
  by (simp add: Current_def Forcibly_def)

lemma Current_Reset [simp]:
  "Current (Reset i e) j = (if j = i then ExecPending else Current e j)"
  by (simp add: Current_def Reset_def)

lemma Transition_iff:
  "fst (Transition i expect next e) \<longleftrightarrow> Current e i = expect \<and> legal_step expect next"
  by (auto simp: Transition_def Current_def Let_def legal_step_table)

lemma Transition_Current:
  "Current (snd (Transition i expect next e)) j =
     (if j = i \<and> fst (Transition i expect next e) then next else Current e j)"
  by (auto simp: Transition_def Current_def Let_def)

lemma Transition_refused: "\<not> fst (Transition i expect next e) \<Longrightarrow> snd (Transition i expect next e) = e"
  by (auto simp: Transition_def Let_def)

subsection \<open>The order of the states\<close>

text \<open>The states in the order an intent can pass through them; every legal move goes up.\<close>

fun exec_rank :: "ExecState \<Rightarrow> nat" where
  "exec_rank ExecPending = 0"
| "exec_rank ExecAdmitted = 1"
| "exec_rank ExecRunning = 2"
| "exec_rank ExecHalted = 3"
| "exec_rank ExecTerminated = 4"

lemma exec_rank_inj: "exec_rank s = exec_rank t \<Longrightarrow> s = t"
  by (cases s; cases t) auto

instantiation ExecState :: linorder
begin

definition less_eq_ExecState :: "ExecState \<Rightarrow> ExecState \<Rightarrow> bool" where
  "less_eq_ExecState s t \<longleftrightarrow> exec_rank s \<le> exec_rank t"

definition less_ExecState :: "ExecState \<Rightarrow> ExecState \<Rightarrow> bool" where
  "less_ExecState s t \<longleftrightarrow> exec_rank s < exec_rank t"

instance
  by standard (auto simp: less_eq_ExecState_def less_ExecState_def intro: exec_rank_inj)

end

lemma legal_step_less: "legal_step s t \<Longrightarrow> s < t"
  by (auto simp: less_ExecState_def elim!: legal_step.cases)

text \<open>The states one intent goes through by successful transitions.\<close>

fun legal_path :: "ExecState list \<Rightarrow> bool" where
  "legal_path (s # t # ss) \<longleftrightarrow> legal_step s t \<and> legal_path (t # ss)"
| "legal_path _ \<longleftrightarrow> True"

fun moves_left :: "ExecState \<Rightarrow> nat" where
  "moves_left ExecPending = 3"
| "moves_left ExecAdmitted = 2"
| "moves_left ExecRunning = 1"
| "moves_left s = 0"

lemma legal_step_moves: "legal_step s t \<Longrightarrow> moves_left t < moves_left s"
  by (auto elim!: legal_step.cases)

lemma legal_path_length: "legal_path (s # ss) \<Longrightarrow> length ss \<le> moves_left s"
proof (induction ss arbitrary: s)
  case (Cons t ss)
  then show ?case using legal_step_moves [of s t] by fastforce
qed simp

section \<open>Properties\<close>

text \<open>
  \<open>Transition\<close> succeeds exactly when the intent is in the expected state and the table has the
  move; then the intent, and no other, is in the new state; a refused transition changes nothing.
\<close>

lemma Transition_correct:
  "(fst (Transition i expect next e) \<longleftrightarrow> Current e i = expect \<and> legal_step expect next)
   \<and> Current (snd (Transition i expect next e)) =
       (if fst (Transition i expect next e) then (Current e)(i := next) else Current e)"
  by (auto simp: Transition_iff Transition_Current fun_eq_iff)

text \<open>
  An intent in a terminal state stays there under every transition the state machine is asked
  for, and the terminal states are exactly those without a legal move.
\<close>

lemma terminal_refuses:
  assumes "IsTerminal (Current e i)"
  shows "Transition i expect next e = (False, e) \<and> (\<forall>t. \<not> legal_step (Current e i) t)"
proof -
  have "\<not> fst (Transition i expect next e)"
    using terminal_no_step [OF assms] by (auto simp: Transition_iff)
  with Transition_refused [OF this] terminal_no_step [OF assms] show ?thesis
    by (simp add: prod_eq_iff)
qed

text \<open>
  The state machine always comes to an end: the states an intent passes through by legal
  transitions are strictly increasing and there are at most four of them.
\<close>

lemma transitions_bounded:
  assumes "legal_path ss"
  shows "sorted_wrt (<) ss \<and> length ss \<le> 4"
proof
  show "sorted_wrt (<) ss"
    using assms
  proof (induction ss rule: legal_path.induct)
    case (1 s t ss)
    then show ?case using legal_step_less [of s t] by (auto intro: less_trans)
  qed simp_all
  have "moves_left s \<le> 3" for s by (cases s) auto
  then show "length ss \<le> 4"
    using assms legal_path_length [of "hd ss" "tl ss"] by (cases ss) (auto intro: le_trans)
qed

end
