(* ===== verification/Corrigibility.thy ===== *)
theory Corrigibility
  imports VossTypes
begin

text \<open>
  The operator override store of \<open>corrigibility.go\<close>: interrupts, corrections and terminations per
  intent.  A Go map read of a missing key yields the zero value, so a flag map is a partial map to
  booleans read with the default \<open>False\<close>.

  The locale \<open>override_store\<close> is what the admission pipeline and the operator endpoints rely on: an
  override, once recorded, is seen by every later query, and no recording operation withdraws
  another override.  Only the clearing operations withdraw one.
\<close>

section \<open>Definitions\<close>

record InterruptStore =
  is_interrupt :: "string \<rightharpoonup> bool"
  is_corrected :: "string \<rightharpoonup> string"
  is_terminate :: "string \<rightharpoonup> bool"

definition NewInterruptStore :: InterruptStore where
  "NewInterruptStore = \<lparr>is_interrupt = Map.empty, is_corrected = Map.empty, is_terminate = Map.empty\<rparr>"

definition flag :: "(string \<rightharpoonup> bool) \<Rightarrow> string \<Rightarrow> bool" where
  "flag m k = (case m k of None \<Rightarrow> False | Some b \<Rightarrow> b)"

definition Interrupt :: "string \<Rightarrow> InterruptStore \<Rightarrow> InterruptStore" where
  "Interrupt intent s = s\<lparr>is_interrupt := (is_interrupt s)(intent \<mapsto> True)\<rparr>"

definition IsInterrupted :: "InterruptStore \<Rightarrow> string \<Rightarrow> bool" where
  "IsInterrupted s intent = flag (is_interrupt s) intent"

definition Clear :: "string \<Rightarrow> InterruptStore \<Rightarrow> InterruptStore" where
  "Clear intent s = s\<lparr>is_interrupt := (is_interrupt s)(intent := None)\<rparr>"

definition Correct :: "string \<Rightarrow> string \<Rightarrow> InterruptStore \<Rightarrow> InterruptStore" where
  "Correct intent directive s = s\<lparr>is_corrected := (is_corrected s)(intent \<mapsto> directive)\<rparr>"

definition Correction :: "InterruptStore \<Rightarrow> string \<Rightarrow> string \<times> bool" where
  "Correction s intent = (case is_corrected s intent of None \<Rightarrow> ([], False) | Some d \<Rightarrow> (d, True))"

definition ClearCorrection :: "string \<Rightarrow> InterruptStore \<Rightarrow> InterruptStore" where
  "ClearCorrection intent s = s\<lparr>is_corrected := (is_corrected s)(intent := None)\<rparr>"

definition Terminate :: "string \<Rightarrow> InterruptStore \<Rightarrow> InterruptStore" where
  "Terminate intent s = s\<lparr>is_terminate := (is_terminate s)(intent \<mapsto> True)\<rparr>"

definition IsTerminated :: "InterruptStore \<Rightarrow> string \<Rightarrow> bool" where
  "IsTerminated s intent = flag (is_terminate s) intent"

text \<open>The overrides an intent can be under.\<close>

definition overridden :: "InterruptStore \<Rightarrow> string \<Rightarrow> bool" where
  "overridden s i \<longleftrightarrow> IsTerminated s i \<or> IsInterrupted s i \<or> snd (Correction s i)"

section \<open>The contract of the store\<close>

locale override_store =
  fixes interrupt :: "string \<Rightarrow> 's \<Rightarrow> 's"
    and correct :: "string \<Rightarrow> string \<Rightarrow> 's \<Rightarrow> 's"
    and terminate :: "string \<Rightarrow> 's \<Rightarrow> 's"
    and interrupted :: "'s \<Rightarrow> string \<Rightarrow> bool"
    and correction :: "'s \<Rightarrow> string \<Rightarrow> string \<times> bool"
    and terminated :: "'s \<Rightarrow> string \<Rightarrow> bool"
  assumes interrupted_law:
      "interrupted (interrupt i s) j \<longleftrightarrow> j = i \<or> interrupted s j"
      "interrupted (correct i d s) j \<longleftrightarrow> interrupted s j"
      "interrupted (terminate i s) j \<longleftrightarrow> interrupted s j"
    and terminated_law:
      "terminated (interrupt i s) j \<longleftrightarrow> terminated s j"
      "terminated (correct i d s) j \<longleftrightarrow> terminated s j"
      "terminated (terminate i s) j \<longleftrightarrow> j = i \<or> terminated s j"
    and correction_law:
      "correction (interrupt i s) j = correction s j"
      "correction (correct i d s) j = (if j = i then (d, True) else correction s j)"
      "correction (terminate i s) j = correction s j"
begin

definition blocked :: "'s \<Rightarrow> string \<Rightarrow> bool" where
  "blocked s i \<longleftrightarrow> terminated s i \<or> interrupted s i \<or> snd (correction s i)"

lemma blocked_after:
  "blocked (interrupt i s) i" "blocked (correct i d s) i" "blocked (terminate i s) i"
  by (simp_all add: blocked_def interrupted_law terminated_law correction_law)

lemma blocked_mono:
  "blocked s j \<Longrightarrow> blocked (interrupt i s) j"
  "blocked s j \<Longrightarrow> blocked (correct i d s) j"
  "blocked s j \<Longrightarrow> blocked (terminate i s) j"
  by (auto simp: blocked_def interrupted_law terminated_law correction_law)

lemma blocked_other:
  "j \<noteq> i \<Longrightarrow> blocked (interrupt i s) j \<longleftrightarrow> blocked s j"
  "j \<noteq> i \<Longrightarrow> blocked (correct i d s) j \<longleftrightarrow> blocked s j"
  "j \<noteq> i \<Longrightarrow> blocked (terminate i s) j \<longleftrightarrow> blocked s j"
  by (auto simp: blocked_def interrupted_law terminated_law correction_law)

end

interpretation overrides: override_store Interrupt Correct Terminate IsInterrupted Correction IsTerminated
  by unfold_locales
    (auto simp: Interrupt_def Correct_def Terminate_def IsInterrupted_def IsTerminated_def
      Correction_def flag_def)

section \<open>Facts\<close>

lemmas override_laws [simp] =
  overrides.interrupted_law overrides.terminated_law overrides.correction_law

lemma overridden_blocked: "overridden = overrides.blocked"
  by (simp add: fun_eq_iff overridden_def overrides.blocked_def)

lemma overridden_record:
  "overridden (Interrupt i s) i" "overridden (Correct i d s) i" "overridden (Terminate i s) i"
  unfolding overridden_blocked by (rule overrides.blocked_after)+

lemma overridden_mono:
  "overridden s j \<Longrightarrow> overridden (Interrupt i s) j"
  "overridden s j \<Longrightarrow> overridden (Correct i d s) j"
  "overridden s j \<Longrightarrow> overridden (Terminate i s) j"
  unfolding overridden_blocked by (fact overrides.blocked_mono)+

lemma New_not_overridden [simp]:
  "\<not> IsInterrupted NewInterruptStore i" "\<not> IsTerminated NewInterruptStore i"
  "Correction NewInterruptStore i = ([], False)"
  by (simp_all add: NewInterruptStore_def IsInterrupted_def IsTerminated_def Correction_def flag_def)

lemma Clear_laws [simp]:
  "IsInterrupted (Clear i s) j \<longleftrightarrow> j \<noteq> i \<and> IsInterrupted s j"
  "IsTerminated (Clear i s) j \<longleftrightarrow> IsTerminated s j"
  "Correction (Clear i s) j = Correction s j"
  "IsInterrupted (ClearCorrection i s) j \<longleftrightarrow> IsInterrupted s j"
  "IsTerminated (ClearCorrection i s) j \<longleftrightarrow> IsTerminated s j"
  "Correction (ClearCorrection i s) j = (if j = i then ([], False) else Correction s j)"
  by (auto simp: Clear_def ClearCorrection_def IsInterrupted_def IsTerminated_def Correction_def flag_def)

end
