(* ===== verification/ImmuneProtocol.thy ===== *)
theory ImmuneProtocol
  imports VossTypes
begin

text \<open>
  The Immune Protocol of \<open>immune.go\<close>: the classification of a request by tenant, payload and lane.  The
  protocol object has no state; the metric it increments is labelled with the class it returns, and
  is recorded with the effects in theory \<open>Runtime\<close>.
\<close>

section \<open>Definitions\<close>

record ImmuneDecision =
  id_Result :: ImmuneClass
  id_Reason :: string

definition Classify_decision :: "CapabilityRequest \<Rightarrow> ImmuneDecision" where
  "Classify_decision req =
     (if rq_TenantID req = []
        then \<lparr>id_Result = ImmuneReject, id_Reason = ''unknown tenant: fail closed''\<rparr>
      else if length (rq_Payload req) = 0
        then \<lparr>id_Result = ImmuneQuarantine, id_Reason = ''empty payload: quarantine''\<rparr>
      else if rq_MLCALane req = LaneSafe
        then \<lparr>id_Result = ImmuneAllow, id_Reason = ''safe lane: allowed''\<rparr>
      else if rq_MLCALane req = LaneNormal
        then \<lparr>id_Result = ImmuneClamp, id_Reason = ''normal lane: clamped''\<rparr>
      else if rq_MLCALane req = LaneExpress
        then \<lparr>id_Result = ImmuneReroute, id_Reason = ''express lane: rerouted for inspection''\<rparr>
      else \<lparr>id_Result = ImmuneReject, id_Reason = ''unknown lane: reject''\<rparr>)"

section \<open>Facts\<close>

lemma Classify_not_rejected:
  "id_Result (Classify_decision req) \<in> {ImmuneAllow, ImmuneClamp, ImmuneReroute} \<longleftrightarrow>
     rq_TenantID req \<noteq> [] \<and> rq_Payload req \<noteq> [] \<and> rq_MLCALane req \<in> {LaneSafe, LaneNormal, LaneExpress}"
  by (auto simp: Classify_decision_def)

lemma Classify_Allow: "id_Result (Classify_decision req) = ImmuneAllow \<Longrightarrow> rq_MLCALane req = LaneSafe"
  by (auto simp: Classify_decision_def split: if_splits)

end
