(* ===== verification/Adapters.thy ===== *)
theory Adapters
  imports VossTypes
begin

text \<open>
  The provider interface and the two adapters of \<open>adapters.go\<close>.  An adapter is a record of its three
  methods.  A provider answers from outside the program, so a method also takes the position of the
  call in the run (a provider may answer the same request differently later), and \<open>Generate\<close> says
  after how many nanoseconds it returns, or that it never does.

  The locale \<open>payload_blind\<close> is the contract of an adapter that reads the model reference and the
  intent of a request only and whose capability answer does not change over time; both adapters of
  the repository satisfy it.
\<close>

section \<open>Definitions\<close>

text \<open>A Go \<open>map[string]interface{}\<close> as the list of its bindings; \<open>None\<close> is the nil map.\<close>

type_synonym gomap = "(string \<times> json) list option"

record Adapter =
  ap_CapabilityRequest :: "nat \<Rightarrow> CapabilityRequest \<Rightarrow> bool \<times> string"
  ap_Generate :: "nat \<Rightarrow> CapabilityRequest \<Rightarrow> nat option \<times> gomap \<times> GoError option"
  ap_Trace :: "nat \<Rightarrow> CapabilityRequest \<Rightarrow> gomap \<times> GoError option"

definition FakeAdapter_CapabilityRequest :: "bool \<Rightarrow> CapabilityRequest \<Rightarrow> bool \<times> string" where
  "FakeAdapter_CapabilityRequest allow req =
     (if \<not> allow then (False, ''fake adapter denies'') else (True, []))"

definition FakeAdapter_Generate :: "CapabilityRequest \<Rightarrow> gomap \<times> GoError option" where
  "FakeAdapter_Generate req =
     (if mr_KeyRef (rq_ModelRef req) = [] then (None, Some (ErrNew ''key_ref required''))
      else (Some [(''provider'', JStr (mr_ProviderID (rq_ModelRef req))),
                  (''model'', JStr (mr_ModelID (rq_ModelRef req))),
                  (''intent'', JStr (rq_IntentID req))], None))"

definition FakeAdapter_Trace :: "CapabilityRequest \<Rightarrow> gomap \<times> GoError option" where
  "FakeAdapter_Trace req = (Some [(''trace_id'', JStr (rq_IntentID req))], None)"

definition NewFakeAdapter :: "bool \<Rightarrow> nat \<Rightarrow> Adapter" where
  "NewFakeAdapter allow latency =
     \<lparr>ap_CapabilityRequest = (\<lambda>_. FakeAdapter_CapabilityRequest allow),
      ap_Generate = (\<lambda>_ req. (Some latency, FakeAdapter_Generate req)),
      ap_Trace = (\<lambda>_. FakeAdapter_Trace)\<rparr>"

definition ProjectInfinity_CapabilityRequest :: "CapabilityRequest \<Rightarrow> bool \<times> string" where
  "ProjectInfinity_CapabilityRequest req =
     (if mr_KeyRef (rq_ModelRef req) = [] then (False, ''key_ref required for Project Infinity'')
      else (True, []))"

definition ProjectInfinity_Generate :: "CapabilityRequest \<Rightarrow> gomap \<times> GoError option" where
  "ProjectInfinity_Generate req =
     (Some [(''provider'', JStr ''project-infinity''),
            (''model'', JStr (mr_ModelID (rq_ModelRef req))),
            (''intent'', JStr (rq_IntentID req))], None)"

definition ProjectInfinity_Trace :: "CapabilityRequest \<Rightarrow> gomap \<times> GoError option" where
  "ProjectInfinity_Trace req = (Some [(''trace_id'', JStr (rq_IntentID req))], None)"

text \<open>The base URL is stored and never read.\<close>

definition NewProjectInfinityAdapter :: "string \<Rightarrow> nat \<Rightarrow> Adapter" where
  "NewProjectInfinityAdapter baseURL latency =
     \<lparr>ap_CapabilityRequest = (\<lambda>_. ProjectInfinity_CapabilityRequest),
      ap_Generate = (\<lambda>_ req. (Some latency, ProjectInfinity_Generate req)),
      ap_Trace = (\<lambda>_. ProjectInfinity_Trace)\<rparr>"

section \<open>The contract of a payload-blind adapter\<close>

definition same_call :: "CapabilityRequest \<Rightarrow> CapabilityRequest \<Rightarrow> bool" where
  "same_call r s \<longleftrightarrow> rq_ModelRef r = rq_ModelRef s \<and> rq_IntentID r = rq_IntentID s"

locale payload_blind =
  fixes a :: Adapter
  assumes blind_capability: "same_call r s \<Longrightarrow> ap_CapabilityRequest a n r = ap_CapabilityRequest a n s"
    and steady_capability: "ap_CapabilityRequest a n r = ap_CapabilityRequest a m r"
    and blind_generate: "same_call r s \<Longrightarrow> ap_Generate a n r = ap_Generate a n s"
begin

lemma capability_coherence: "ap_CapabilityRequest a n (r\<lparr>rq_Coherence := c\<rparr>) = ap_CapabilityRequest a n r"
  by (rule blind_capability) (simp add: same_call_def)

lemma generate_coherence: "ap_Generate a n (r\<lparr>rq_Coherence := c\<rparr>) = ap_Generate a n r"
  by (rule blind_generate) (simp add: same_call_def)

end

interpretation fake: payload_blind "NewFakeAdapter allow latency"
  by unfold_locales
    (simp_all add: NewFakeAdapter_def FakeAdapter_CapabilityRequest_def FakeAdapter_Generate_def same_call_def)

interpretation infinity: payload_blind "NewProjectInfinityAdapter url latency"
  by unfold_locales
    (simp_all add: NewProjectInfinityAdapter_def ProjectInfinity_CapabilityRequest_def
      ProjectInfinity_Generate_def same_call_def)

section \<open>Facts\<close>

lemma ProjectInfinity_key_ref:
  "fst (ap_CapabilityRequest (NewProjectInfinityAdapter url d) n req) \<longleftrightarrow> mr_KeyRef (rq_ModelRef req) \<noteq> []"
  by (simp add: NewProjectInfinityAdapter_def ProjectInfinity_CapabilityRequest_def)

end
