(* ===== verification/Runtime.thy ===== *)
theory Runtime
  imports USLGate LedgerChain Execution Corrigibility ImmuneProtocol Adapters
begin

text \<open>
  The shared state of a running service and its atomic actions.

  \<open>world\<close> holds what the goroutines of one process share: the router's ledger, its override store
  (one object, shared between the router and the GRE-1001 pipeline), its execution states, the
  steered drift score, the registered providers, the ledger catalog of the ledger service, the files,
  the metric calls made so far and the calls made to providers.  What the program reads from outside
  (clock, random bytes, the choice of a \<open>select\<close> with two ready cases, the outcome of writing a file) is
  a function of the position in the run, which every reading advances; the environment variables are
  fixed.

  Each action below is one critical section or one reading.  \<open>gov\<close> forgets the position and the
  metrics: actions that change nothing else are \<open>quiet\<close>.  The locale \<open>noise_invariant\<close> is the contract
  of a predicate that does not look at them.
\<close>

section \<open>The world\<close>

datatype ProviderCall = CallCapability string CapabilityRequest | CallGenerate string CapabilityRequest

text \<open>
  What \<open>os.WriteFile\<close> can do: write everything, fail before the file is opened, or truncate the file and
  fail after some bytes.
\<close>

datatype WriteOutcome = Written | NotOpened | Partial nat

record world =
  w_clock :: "nat \<Rightarrow> Time"
  w_random :: "nat \<Rightarrow> byte"
  w_select :: "nat \<Rightarrow> bool"
  w_pos :: nat
  w_env :: "string \<Rightarrow> string"
  w_metrics :: "MetricCall list"
  w_ledger :: Ledger
  w_interrupts :: InterruptStore
  w_exec :: ExecutionState
  w_driftOverride :: "float64 option"
  w_providers :: "string \<rightharpoonup> Adapter"
  w_calls :: "ProviderCall list"
  w_catalog :: "LedgerEntry list"
  w_write :: "nat \<Rightarrow> WriteOutcome"
  w_disk :: "string \<rightharpoonup> string"

type_synonym 'a go = "(world, 'a) prog"

section \<open>Clock, randomness, metrics\<close>

definition tick :: "world \<Rightarrow> world" where
  "tick w = w\<lparr>w_pos := Suc (w_pos w)\<rparr>"

definition time_Now :: "Time go" where
  "time_Now = atomic (\<lambda>w. (w_clock w (w_pos w), tick w))"

definition rand_Read :: "nat \<Rightarrow> byte list go" where
  "rand_Read n = atomic (\<lambda>w. (map (\<lambda>i. w_random w (w_pos w + i)) [0..<n], w\<lparr>w_pos := w_pos w + n\<rparr>))"

definition metric :: "MetricCall \<Rightarrow> unit go" where
  "metric c = modify (\<lambda>w. w\<lparr>w_metrics := w_metrics w @ [c]\<rparr>)"

definition inc :: "Metric \<Rightarrow> string list \<Rightarrow> unit go" where
  "inc m labels = metric (MInc m labels)"

fun inc_all :: "Metric list \<Rightarrow> unit go" where
  "inc_all [] = Ret ()"
| "inc_all (m # ms) = seqP (inc m []) (inc_all ms)"

text \<open>\<open>m.Observe(time.Since(start).Seconds())\<close>\<close>

definition observe_since :: "Metric \<Rightarrow> string list \<Rightarrow> Time \<Rightarrow> unit go" where
  "observe_since m labels start = bindP time_Now (\<lambda>now. metric (MObserve m labels (now - start)))"

section \<open>The USL gate and the Immune Protocol with their effects\<close>

definition decisionID :: "string go" where
  "decisionID = bindP (rand_Read 8) (\<lambda>b. Ret (hex_EncodeToString b))"

definition decision :: "AdmitResult \<Rightarrow> string \<Rightarrow> string \<Rightarrow> string \<Rightarrow> Time \<Rightarrow> AdmissionDecision go" where
  "decision result reason ruleRef requestID ts =
     bindP decisionID (\<lambda>d. Ret \<lparr>ad_Result = result, ad_Reason = reason, ad_RuleRef = ruleRef,
       ad_DecisionID = d, ad_RequestID = requestID, ad_Timestamp = ts\<rparr>)"

definition USLGate_Check :: "USLGate \<Rightarrow> CapabilityRequest \<Rightarrow> AdmissionDecision go" where
  "USLGate_Check u req =
     bindP time_Now (\<lambda>now.
       (case usl_verdict u req of (result, reason, ruleRef, metrics) \<Rightarrow>
          seqP (inc_all metrics) (decision result reason ruleRef (rq_RequestID req) now)))"

definition Immune_Classify :: "CapabilityRequest \<Rightarrow> ImmuneDecision go" where
  "Immune_Classify req =
     (let d = Classify_decision req in
      seqP (inc MetricImmuneClass [ImmuneClass_string (id_Result d)]) (Ret d))"

section \<open>Ledger, overrides, execution states, providers\<close>

definition ledger_Append :: "LedgerEntry \<Rightarrow> LedgerEntry go" where
  "ledger_Append e =
     atomic (\<lambda>w. let (e', l) = Append (w_clock w (w_pos w)) e (w_ledger w)
                 in (e', (tick w)\<lparr>w_ledger := l\<rparr>))"

definition WriteDecision ::
  "CapabilityRequest \<Rightarrow> bool \<Rightarrow> AdmitResult \<Rightarrow> string \<Rightarrow> string \<Rightarrow> string \<Rightarrow> StageRecord list
     \<Rightarrow> LedgerEntry go" where
  "WriteDecision req admitted result reason ruleRef decID stageLog =
     bindP time_Now (\<lambda>now.
       ledger_Append (decision_entry now req admitted result reason ruleRef decID (Some stageLog)))"

definition WriteExecution :: "CapabilityRequest \<Rightarrow> string \<Rightarrow> string \<Rightarrow> LedgerEntry go" where
  "WriteExecution req decID executionHash =
     bindP time_Now (\<lambda>now. ledger_Append (execution_entry now req decID executionHash))"

definition ledger_Verify :: "(bool \<times> nat) go" where
  "ledger_Verify = gets (\<lambda>w. Verify (w_ledger w))"

definition ledger_Export :: "LedgerEntry list go" where
  "ledger_Export = gets (\<lambda>w. Export (w_ledger w))"

definition isTerminated :: "string \<Rightarrow> bool go" where
  "isTerminated intent = gets (\<lambda>w. IsTerminated (w_interrupts w) intent)"

definition isInterrupted :: "string \<Rightarrow> bool go" where
  "isInterrupted intent = gets (\<lambda>w. IsInterrupted (w_interrupts w) intent)"

definition getCorrection :: "string \<Rightarrow> (string \<times> bool) go" where
  "getCorrection intent = gets (\<lambda>w. Correction (w_interrupts w) intent)"

definition override :: "(InterruptStore \<Rightarrow> InterruptStore) \<Rightarrow> unit go" where
  "override f = modify (\<lambda>w. w\<lparr>w_interrupts := f (w_interrupts w)\<rparr>)"

definition exec_Current :: "string \<Rightarrow> ExecState go" where
  "exec_Current intent = gets (\<lambda>w. Current (w_exec w) intent)"

definition exec_Transition :: "string \<Rightarrow> ExecState \<Rightarrow> ExecState \<Rightarrow> bool go" where
  "exec_Transition intent expect next =
     atomic (\<lambda>w. let (ok, e) = Transition intent expect next (w_exec w) in (ok, w\<lparr>w_exec := e\<rparr>))"

definition exec_Forcibly :: "string \<Rightarrow> ExecState \<Rightarrow> unit go" where
  "exec_Forcibly intent next = modify (\<lambda>w. w\<lparr>w_exec := Forcibly intent next (w_exec w)\<rparr>)"

definition provider_lookup :: "string \<Rightarrow> Adapter option go" where
  "provider_lookup pid = gets (\<lambda>w. w_providers w pid)"

text \<open>The two methods of an adapter the router calls; the call itself is recorded.\<close>

definition call_CapabilityRequest :: "Adapter \<Rightarrow> CapabilityRequest \<Rightarrow> (bool \<times> string) go" where
  "call_CapabilityRequest a req =
     atomic (\<lambda>w. (ap_CapabilityRequest a (w_pos w) req,
       (tick w)\<lparr>w_calls := w_calls w @ [CallCapability (mr_ProviderID (rq_ModelRef req)) req]\<rparr>))"

definition start_Generate :: "Adapter \<Rightarrow> CapabilityRequest \<Rightarrow> (nat option \<times> gomap \<times> GoError option) go" where
  "start_Generate a req =
     atomic (\<lambda>w. (ap_Generate a (w_pos w) req,
       (tick w)\<lparr>w_calls := w_calls w @ [CallGenerate (mr_ProviderID (rq_ModelRef req)) req]\<rparr>))"

section \<open>Facts\<close>

definition gov :: "world \<Rightarrow> world" where
  "gov w = w\<lparr>w_metrics := [], w_pos := 0\<rparr>"

definition quiet :: "'a go \<Rightarrow> bool" where
  "quiet p \<longleftrightarrow> acts (\<lambda>u. \<forall>w. gov (u w) = gov w) p"

named_theorems quiet_intros \<open>programs that change the clock position and the metrics only\<close>

lemma gov_simps [simp]:
  "gov (tick w) = gov w" "gov (w\<lparr>w_pos := n\<rparr>) = gov w" "gov (w\<lparr>w_metrics := m\<rparr>) = gov w"
  by (simp_all add: gov_def tick_def)

lemma gov_fields:
  assumes "gov w = gov v"
  shows "w_clock w = w_clock v" "w_env w = w_env v" "w_ledger w = w_ledger v"
    "w_interrupts w = w_interrupts v" "w_exec w = w_exec v" "w_driftOverride w = w_driftOverride v"
    "w_providers w = w_providers v" "w_calls w = w_calls v" "w_catalog w = w_catalog v"
    "w_select w = w_select v" "w_random w = w_random v"
proof -
  have "w_clock (gov w) = w_clock (gov v) \<and> w_env (gov w) = w_env (gov v) \<and> w_ledger (gov w) = w_ledger (gov v)
    \<and> w_interrupts (gov w) = w_interrupts (gov v) \<and> w_exec (gov w) = w_exec (gov v)
    \<and> w_driftOverride (gov w) = w_driftOverride (gov v) \<and> w_providers (gov w) = w_providers (gov v)
    \<and> w_calls (gov w) = w_calls (gov v) \<and> w_catalog (gov w) = w_catalog (gov v)
    \<and> w_select (gov w) = w_select (gov v) \<and> w_random (gov w) = w_random (gov v)"
    using assms by simp
  then show "w_clock w = w_clock v" "w_env w = w_env v" "w_ledger w = w_ledger v"
    "w_interrupts w = w_interrupts v" "w_exec w = w_exec v" "w_driftOverride w = w_driftOverride v"
    "w_providers w = w_providers v" "w_calls w = w_calls v" "w_catalog w = w_catalog v"
    "w_select w = w_select v" "w_random w = w_random v"
    by (simp_all add: gov_def)
qed

lemma gov_update_cong:
  "gov w = gov v \<Longrightarrow> gov (w\<lparr>w_ledger := l\<rparr>) = gov (v\<lparr>w_ledger := l\<rparr>)"
  "gov w = gov v \<Longrightarrow> gov (w\<lparr>w_exec := e\<rparr>) = gov (v\<lparr>w_exec := e\<rparr>)"
  "gov w = gov v \<Longrightarrow> gov (w\<lparr>w_calls := c\<rparr>) = gov (v\<lparr>w_calls := c\<rparr>)"
  by (cases w; cases v; simp add: gov_def)+

lemma quiet_Ret [quiet_intros]: "quiet (Ret a)"
  by (simp add: quiet_def)

lemma quiet_bindP [quiet_intros]: "quiet p \<Longrightarrow> (\<And>a. quiet (k a)) \<Longrightarrow> quiet (bindP p k)"
  by (simp add: quiet_def acts_bindP)

lemma quiet_seqP [quiet_intros]: "quiet p \<Longrightarrow> quiet q \<Longrightarrow> quiet (seqP p q)"
  by (simp add: seqP_def quiet_bindP)

lemma quiet_gets [quiet_intros]: "quiet (gets f)"
  by (simp add: quiet_def acts_single)

lemma quiet_time_Now [quiet_intros]: "quiet time_Now"
  by (simp add: quiet_def time_Now_def acts_single)

lemma quiet_metric [quiet_intros]: "quiet (metric c)" "quiet (inc m ls)"
  by (simp_all add: quiet_def metric_def inc_def acts_single)

lemma quiet_inc_all [quiet_intros]: "quiet (inc_all ms)"
  by (induction ms) (auto intro!: quiet_intros)

lemma quiet_observe_since [quiet_intros]: "quiet (observe_since m ls t)"
  unfolding observe_since_def by (intro quiet_intros)

lemma quiet_rand_Read [quiet_intros]: "quiet (rand_Read n)"
  by (simp add: quiet_def rand_Read_def acts_single)

lemma quiet_USLGate_Check [quiet_intros]: "quiet (USLGate_Check u req)"
  unfolding USLGate_Check_def decision_def decisionID_def
  by (cases "usl_verdict u req") (auto intro!: quiet_intros)

lemma quiet_Immune_Classify [quiet_intros]: "quiet (Immune_Classify req)"
  unfolding Immune_Classify_def Let_def by (intro quiet_intros)

lemma quiet_reads [quiet_intros]:
  "quiet ledger_Verify" "quiet ledger_Export" "quiet (isTerminated i)" "quiet (isInterrupted i)"
  "quiet (getCorrection i)" "quiet (exec_Current i)" "quiet (provider_lookup p)"
  by (simp_all add: ledger_Verify_def ledger_Export_def isTerminated_def isInterrupted_def
      getCorrection_def exec_Current_def provider_lookup_def quiet_gets)

lemma quiet_run: "quiet p \<Longrightarrow> gov (snd (run p w)) = gov w"
  unfolding quiet_def by (erule acts_run [where P = "\<lambda>v. gov v = gov w"]) simp_all

text \<open>The decision of \<open>Check\<close> and of \<open>Classify\<close> is the pure verdict.\<close>

lemma run_USLGate_Check:
  "ad_Result (fst (run (USLGate_Check u req) w)) = fst (usl_verdict u req)"
  "ad_Reason (fst (run (USLGate_Check u req) w)) = fst (snd (usl_verdict u req))"
  "ad_RuleRef (fst (run (USLGate_Check u req) w)) = fst (snd (snd (usl_verdict u req)))"
  "ad_RequestID (fst (run (USLGate_Check u req) w)) = rq_RequestID req"
  by (cases "usl_verdict u req"; simp add: USLGate_Check_def decision_def decisionID_def run_simps)+

lemma run_Immune_Classify: "fst (run (Immune_Classify req) w) = Classify_decision req"
  by (simp add: Immune_Classify_def Let_def run_simps)

subsection \<open>Predicates that ignore the clock position and the metrics\<close>

locale noise_invariant =
  fixes P :: "world \<Rightarrow> bool"
  assumes P_gov: "P w \<longleftrightarrow> P (gov w)"
begin

lemma P_pos: "P (w\<lparr>w_pos := n\<rparr>) \<longleftrightarrow> P w"
  using P_gov [of "w\<lparr>w_pos := n\<rparr>"] P_gov [of w] by simp

lemma P_tick: "P (tick w) \<longleftrightarrow> P w"
  by (simp add: tick_def P_pos)

lemma keeps_quiet: "quiet p \<Longrightarrow> keeps P p"
  unfolding quiet_def by (erule acts_keeps) (metis P_gov)

lemmas keeps_time_Now = keeps_quiet [OF quiet_time_Now]
lemmas keeps_inc = keeps_quiet [OF quiet_metric(2)]
lemmas keeps_observe_since = keeps_quiet [OF quiet_observe_since]
lemmas keeps_Immune_Classify = keeps_quiet [OF quiet_Immune_Classify]
lemmas keeps_reads = quiet_reads [THEN keeps_quiet]

end

section \<open>Properties\<close>

text \<open>
  C17: the USL gate admits exactly the requests that its specification admits (governance enforced,
  known tenant in its lane, capability in the lattice for that lane and allowed by the tenant's
  policy, operator named) and denies all others; it answers for the request it was asked about and
  changes nothing but metrics and clock position.
\<close>

theorem gate_decides:
  "let (d, w') = run (USLGate_Check u req) w in
     ad_Result d = (if usl_admits u req then Admit else Deny) \<and> ad_RequestID d = rq_RequestID req
     \<and> length (ad_DecisionID d) = 16 \<and> gov w' = gov w"
proof -
  have "ad_Result (fst (run (USLGate_Check u req) w)) = (if usl_admits u req then Admit else Deny)"
    using usl_verdict_Admit [of u req] usl_verdict_result [of u req] by (auto simp: run_USLGate_Check)
  moreover have "length (ad_DecisionID (fst (run (USLGate_Check u req) w))) = 16"
    by (cases "usl_verdict u req")
      (simp add: USLGate_Check_def decision_def decisionID_def rand_Read_def run_simps)
  ultimately show ?thesis
    by (simp add: case_prod_beta run_USLGate_Check quiet_run [OF quiet_USLGate_Check])
qed

end
