(* ===== verification/GRE.thy ===== *)
theory GRE
  imports Runtime
begin

text \<open>
  The GRE-1001 pipeline of \<open>gre.go\<close>: the nine stages, the constructor that lists them in order, the
  loop \<open>Run\<close> that halts at the first failing stage, and \<open>SteerDrift\<close>.

  \<open>stage_verdicts\<close> is the pure reading of the nine stages in a fixed world; \<open>halt_at\<close> is what halting
  at the first failure means.  \<open>run_GRE_Run\<close> shows that \<open>Run\<close> computes exactly that and is quiet.  In
  a concurrent run the stages read the override store at different moments, so the facts about
  interleavings use the program, not the verdicts.
\<close>

section \<open>Definitions\<close>

definition StageInputValidation :: string where "StageInputValidation = ''input_validation''"
definition StageCapabilityCheck :: string where "StageCapabilityCheck = ''capability_check''"
definition StageIdentitySeparation :: string where "StageIdentitySeparation = ''identity_separation''"
definition StageUSLGate :: string where "StageUSLGate = ''usl_gate''"
definition StageDriftCheck :: string where "StageDriftCheck = ''drift_check''"
definition StageOperatorCorrigibility :: string where "StageOperatorCorrigibility = ''operator_corrigibility''"
definition StageAuditTrail :: string where "StageAuditTrail = ''audit_trail''"
definition StageLedgerWrite :: string where "StageLedgerWrite = ''ledger_write''"
definition StageOutputValidation :: string where "StageOutputValidation = ''output_validation''"

record StageInput =
  si_Request :: CapabilityRequest
  si_Tenants :: "TenantPolicy list"
  si_Lattice :: "CapabilityLattice list"

record StageOutput =
  so_Stage :: string
  so_Passed :: bool
  so_Reason :: string
  so_RuleRef :: string

record StageStep =
  ss_Name :: string
  ss_Check :: "StageInput \<Rightarrow> StageOutput go"

record GRE1001 =
  gre_Stages :: "StageStep list"
  gre_usl :: USLGate

definition stage_out :: "string \<Rightarrow> bool \<Rightarrow> string \<Rightarrow> string \<Rightarrow> StageOutput" where
  "stage_out stage passed reason ruleRef =
     \<lparr>so_Stage = stage, so_Passed = passed, so_Reason = reason, so_RuleRef = ruleRef\<rparr>"

definition stageInputValidation :: "StageInput \<Rightarrow> StageOutput" where
  "stageInputValidation si =
     (let r = si_Request si in
      if rq_RequestID r = [] \<or> rq_IntentID r = []
        then stage_out StageInputValidation False ''request_id and intent_id required'' Lambda1
      else if rq_TenantID r = [] \<or> rq_OperatorID r = []
        then stage_out StageInputValidation False ''tenant and operator required for auditability'' Lambda2
      else stage_out StageInputValidation True ''input valid'' Lambda1)"

definition stageCapabilityCheck :: "StageInput \<Rightarrow> StageOutput" where
  "stageCapabilityCheck si =
     (let c = rq_CapabilityClass (si_Request si) in
      if cc_Class c = [] \<or> cc_Scope c = [] \<or> cc_Action c = [] \<or> cc_Risk c = []
        then stage_out StageCapabilityCheck False ''capability class incomplete'' ''capability.lattice''
      else stage_out StageCapabilityCheck True ''capability class complete'' ''capability.lattice'')"

definition stageIdentitySeparation :: "StageInput \<Rightarrow> StageOutput go" where
  "stageIdentitySeparation si =
     (let res = checkLambda4 (si_Request si) (si_Tenants si) in
      if \<not> lr_Passed res
        then seqP (inc MetricIdentityViolations [])
               (Ret (stage_out StageIdentitySeparation False (lr_Reason res) Lambda4))
      else Ret (stage_out StageIdentitySeparation True ''tenant isolated'' Lambda4))"

definition stage_gate :: "StageInput \<Rightarrow> USLGate" where
  "stage_gate si = \<lparr>ug_Tenants = si_Tenants si, ug_Lattice = si_Lattice si, ug_GovernanceEnforced = True\<rparr>"

definition stageUSLGate :: "StageInput \<Rightarrow> StageOutput go" where
  "stageUSLGate si =
     bindP (USLGate_Check (stage_gate si) (si_Request si)) (\<lambda>ad.
       if ad_Result ad = Deny \<or> ad_Result ad = Quarantine
         then Ret (stage_out StageUSLGate False (ad_Reason ad) (ad_RuleRef ad))
       else Ret (stage_out StageUSLGate True ''admitted'' ''usl.gate''))"

definition drift_threshold :: float64 where
  "drift_threshold = Finite (1 / 2)"

definition drift_spike :: "float64 option \<Rightarrow> bool" where
  "drift_spike d = (case d of None \<Rightarrow> False | Some v \<Rightarrow> float64_ge v drift_threshold)"

definition stageDriftCheck :: "StageInput \<Rightarrow> StageOutput go" where
  "stageDriftCheck si =
     (let res = checkLambda5 in
      if \<not> lr_Passed res
        then seqP (metric (MSet MetricDriftScore (Finite 1)))
               (Ret (stage_out StageDriftCheck False (lr_Reason res) Lambda5))
      else bindP (gets w_driftOverride) (\<lambda>d.
        if drift_spike d
          then seqP (metric (MSet MetricDriftScore (the d)))
                 (Ret (stage_out StageDriftCheck False ''drift spike exceeds threshold'' Lambda5))
        else seqP (metric (MSet MetricDriftScore (Finite 0)))
               (Ret (stage_out StageDriftCheck True ''no drift'' Lambda5))))"

definition stageOperatorCorrigibility :: "StageInput \<Rightarrow> StageOutput go" where
  "stageOperatorCorrigibility si =
     (let i = rq_IntentID (si_Request si) in
      bindP (isTerminated i) (\<lambda>t.
        if t then Ret (stage_out StageOperatorCorrigibility False ''operator terminated execution'' Lambda6)
        else bindP (isInterrupted i) (\<lambda>n.
          if n then Ret (stage_out StageOperatorCorrigibility False ''operator interrupt active'' Lambda6)
          else bindP (getCorrection i) (\<lambda>(directive, ok).
            if ok then Ret (stage_out StageOperatorCorrigibility False
                              (''operator correction active: '' @ directive) Lambda6)
            else Ret (stage_out StageOperatorCorrigibility True ''no active interrupt'' Lambda6)))))"

definition stageAuditTrail :: "StageInput \<Rightarrow> StageOutput" where
  "stageAuditTrail si =
     (if rq_IntentID (si_Request si) = []
        then stage_out StageAuditTrail False ''intent required for audit'' Lambda2
      else stage_out StageAuditTrail True ''audit trail available'' Lambda2)"

definition stageLedgerWrite :: "StageInput \<Rightarrow> StageOutput" where
  "stageLedgerWrite si =
     (if rq_TenantID (si_Request si) = []
        then stage_out StageLedgerWrite False ''tenant required for ledger'' Lambda2
      else stage_out StageLedgerWrite True ''ledger writable'' ''ledger'')"

definition stageOutputValidation :: "StageInput \<Rightarrow> StageOutput" where
  "stageOutputValidation si = stage_out StageOutputValidation True ''output deterministic'' Lambda1"

definition step :: "string \<Rightarrow> (StageInput \<Rightarrow> StageOutput go) \<Rightarrow> StageStep" where
  "step name check = \<lparr>ss_Name = name, ss_Check = check\<rparr>"

definition NewGRE1001 :: "USLGate \<Rightarrow> GRE1001" where
  "NewGRE1001 usl =
     \<lparr>gre_Stages =
        [step StageInputValidation (\<lambda>si. Ret (stageInputValidation si)),
         step StageCapabilityCheck (\<lambda>si. Ret (stageCapabilityCheck si)),
         step StageIdentitySeparation stageIdentitySeparation,
         step StageUSLGate stageUSLGate,
         step StageDriftCheck stageDriftCheck,
         step StageOperatorCorrigibility stageOperatorCorrigibility,
         step StageAuditTrail (\<lambda>si. Ret (stageAuditTrail si)),
         step StageLedgerWrite (\<lambda>si. Ret (stageLedgerWrite si)),
         step StageOutputValidation (\<lambda>si. Ret (stageOutputValidation si))],
      gre_usl = usl\<rparr>"

definition boolStr :: "bool \<Rightarrow> string" where
  "boolStr b = (if b then ''true'' else ''false'')"

fun run_stages :: "StageStep list \<Rightarrow> StageInput \<Rightarrow> StageOutput list \<Rightarrow> (StageOutput list \<times> bool) go" where
  "run_stages [] si outputs = Ret (outputs, True)"
| "run_stages (s # ss) si outputs =
     bindP time_Now (\<lambda>start.
     bindP (ss_Check s si) (\<lambda>out.
     seqP (observe_since MetricStageDuration [ss_Name s] start)
     (seqP (inc MetricLambdaCheck [ss_Name s, boolStr (so_Passed out)])
       (if \<not> so_Passed out
        then seqP (inc MetricHalt []) (Ret (outputs @ [out], False))
        else run_stages ss si (outputs @ [out])))))"

definition GRE_Run :: "GRE1001 \<Rightarrow> StageInput \<Rightarrow> (StageOutput list \<times> bool) go" where
  "GRE_Run g si = run_stages (gre_Stages g) si []"

definition SteerDrift :: "float64 \<Rightarrow> unit go" where
  "SteerDrift v = modify (\<lambda>w. w\<lparr>w_driftOverride := Some v\<rparr>)"

definition toStageRecords :: "StageOutput list \<Rightarrow> StageRecord list" where
  "toStageRecords stages =
     map (\<lambda>s. \<lparr>sr_Stage = so_Stage s, sr_Passed = so_Passed s, sr_Reason = so_Reason s,
               sr_RuleRef = so_RuleRef s\<rparr>) stages"

subsection \<open>The pure reading\<close>

definition identity_verdict :: "StageInput \<Rightarrow> StageOutput" where
  "identity_verdict si =
     (let res = checkLambda4 (si_Request si) (si_Tenants si) in
      if lr_Passed res then stage_out StageIdentitySeparation True ''tenant isolated'' Lambda4
      else stage_out StageIdentitySeparation False (lr_Reason res) Lambda4)"

definition usl_stage_verdict :: "StageInput \<Rightarrow> StageOutput" where
  "usl_stage_verdict si =
     (case usl_verdict (stage_gate si) (si_Request si) of (result, reason, ruleRef, _) \<Rightarrow>
        if result = Admit then stage_out StageUSLGate True ''admitted'' ''usl.gate''
        else stage_out StageUSLGate False reason ruleRef)"

definition drift_verdict :: "float64 option \<Rightarrow> StageOutput" where
  "drift_verdict d =
     (if drift_spike d then stage_out StageDriftCheck False ''drift spike exceeds threshold'' Lambda5
      else stage_out StageDriftCheck True ''no drift'' Lambda5)"

definition corrigibility_verdict :: "InterruptStore \<Rightarrow> string \<Rightarrow> StageOutput" where
  "corrigibility_verdict s i =
     (if IsTerminated s i
        then stage_out StageOperatorCorrigibility False ''operator terminated execution'' Lambda6
      else if IsInterrupted s i
        then stage_out StageOperatorCorrigibility False ''operator interrupt active'' Lambda6
      else if snd (Correction s i)
        then stage_out StageOperatorCorrigibility False
               (''operator correction active: '' @ fst (Correction s i)) Lambda6
      else stage_out StageOperatorCorrigibility True ''no active interrupt'' Lambda6)"

definition stage_verdicts :: "StageInput \<Rightarrow> InterruptStore \<Rightarrow> float64 option \<Rightarrow> StageOutput list" where
  "stage_verdicts si s d =
     [stageInputValidation si, stageCapabilityCheck si, identity_verdict si, usl_stage_verdict si,
      drift_verdict d, corrigibility_verdict s (rq_IntentID (si_Request si)), stageAuditTrail si,
      stageLedgerWrite si, stageOutputValidation si]"

fun halt_at :: "StageOutput list \<Rightarrow> StageOutput list \<times> bool" where
  "halt_at [] = ([], True)"
| "halt_at (s # ss) =
     (if \<not> so_Passed s then ([s], False) else (s # fst (halt_at ss), snd (halt_at ss)))"

section \<open>Facts\<close>

lemma stage_out_simps [simp]:
  "so_Stage (stage_out s p r f) = s" "so_Passed (stage_out s p r f) = p"
  "so_Reason (stage_out s p r f) = r" "so_RuleRef (stage_out s p r f) = f"
  by (simp_all add: stage_out_def)

lemma step_simps [simp]: "ss_Name (step n c) = n" "ss_Check (step n c) = c"
  by (simp_all add: step_def)

text \<open>Each stage with effects returns its verdict and is quiet.\<close>

definition computes :: "'a go \<Rightarrow> (world \<Rightarrow> 'a) \<Rightarrow> bool" where
  "computes p f \<longleftrightarrow> (\<forall>w. fst (run p w) = f w) \<and> quiet p"

lemma computes_Ret: "computes (Ret a) (\<lambda>_. a)"
  by (simp add: computes_def quiet_Ret)

lemma computes_identity: "computes (stageIdentitySeparation si) (\<lambda>_. identity_verdict si)"
  unfolding computes_def
  by (auto simp: stageIdentitySeparation_def identity_verdict_def Let_def run_simps intro!: quiet_intros)

lemma computes_usl: "computes (stageUSLGate si) (\<lambda>_. usl_stage_verdict si)"
proof -
  have "fst (usl_verdict (stage_gate si) (si_Request si)) \<in> {Admit, Deny}"
    by (rule usl_verdict_result)
  then show ?thesis
    unfolding computes_def stageUSLGate_def usl_stage_verdict_def
    by (auto simp: run_simps run_USLGate_Check split: prod.splits intro!: quiet_intros)
qed

lemma computes_drift: "computes (stageDriftCheck si) (\<lambda>w. drift_verdict (w_driftOverride w))"
  unfolding computes_def
  by (auto simp: stageDriftCheck_def drift_verdict_def Let_def run_simps intro!: quiet_intros)

lemma computes_corrigibility:
  "computes (stageOperatorCorrigibility si)
     (\<lambda>w. corrigibility_verdict (w_interrupts w) (rq_IntentID (si_Request si)))"
  unfolding computes_def
  by (auto simp: stageOperatorCorrigibility_def corrigibility_verdict_def Let_def run_simps
      isTerminated_def isInterrupted_def getCorrection_def split: prod.splits intro!: quiet_intros)

definition gov_reader :: "(world \<Rightarrow> 'a) \<Rightarrow> bool" where
  "gov_reader f \<longleftrightarrow> (\<forall>w v. gov w = gov v \<longrightarrow> f w = f v)"

lemma run_stages_computes:
  assumes "list_all2 (\<lambda>s f. computes (ss_Check s si) f \<and> gov_reader f) ss fs"
  shows "fst (run (run_stages ss si outs) w) =
      (outs @ fst (halt_at (map (\<lambda>f. f w) fs)), snd (halt_at (map (\<lambda>f. f w) fs)))
    \<and> gov (snd (run (run_stages ss si outs) w)) = gov w"
  using assms
proof (induction ss fs arbitrary: outs w rule: list_all2_induct)
  case Nil
  then show ?case by (simp add: run_simps)
next
  case (Cons s ss f fs)
  let ?w1 = "snd (run time_Now w)"
  let ?w2 = "snd (run (ss_Check s si) ?w1)"
  let ?w3 = "snd (run (observe_since MetricStageDuration [ss_Name s] (fst (run time_Now w))) ?w2)"
  let ?w4 = "snd (run (inc MetricLambdaCheck [ss_Name s, boolStr (so_Passed (f w))]) ?w3)"
  have g1: "gov ?w1 = gov w" by (rule quiet_run [OF quiet_time_Now])
  have out: "fst (run (ss_Check s si) ?w1) = f w"
  proof -
    have "fst (run (ss_Check s si) ?w1) = f ?w1" using Cons.hyps(1) by (simp add: computes_def)
    also have "f ?w1 = f w" using Cons.hyps(1) g1 unfolding gov_reader_def by blast
    finally show ?thesis .
  qed
  have "gov ?w2 = gov ?w1" using Cons.hyps(1) by (simp add: computes_def quiet_run)
  moreover have "gov ?w3 = gov ?w2" by (rule quiet_run [OF quiet_observe_since])
  moreover have "gov ?w4 = gov ?w3" by (rule quiet_run [OF quiet_metric(2)])
  ultimately have g4: "gov ?w4 = gov w" using g1 by simp
  have same: "map (\<lambda>g. g ?w4) fs = map (\<lambda>g. g w) fs"
  proof -
    have readers: "gov_reader g" if "g \<in> set fs" for g
      using Cons.hyps(2) that by (auto simp: list_all2_conv_all_nth in_set_conv_nth)
    show ?thesis
    proof (rule map_cong [OF refl])
      fix g
      assume "g \<in> set fs"
      then show "g ?w4 = g w" using readers g4 unfolding gov_reader_def by blast
    qed
  qed
  show ?case
  proof (cases "so_Passed (f w)")
    case True
    with Cons.IH [of "outs @ [f w]" ?w4, unfolded same] g4 show ?thesis
      by (simp add: run_simps out)
  next
    case False
    have "gov (snd (run (inc MetricHalt []) ?w4)) = gov ?w4" by (rule quiet_run [OF quiet_metric(2)])
    with False g4 show ?thesis by (simp add: run_simps out)
  qed
qed

lemma run_GRE_Run:
  "fst (run (GRE_Run (NewGRE1001 usl) si) w) = halt_at (stage_verdicts si (w_interrupts w) (w_driftOverride w))"
  "gov (snd (run (GRE_Run (NewGRE1001 usl) si) w)) = gov w"
proof -
  let ?fs = "[\<lambda>_. stageInputValidation si, \<lambda>_. stageCapabilityCheck si, \<lambda>_. identity_verdict si,
    \<lambda>_. usl_stage_verdict si, \<lambda>w. drift_verdict (w_driftOverride w),
    \<lambda>w. corrigibility_verdict (w_interrupts w) (rq_IntentID (si_Request si)),
    \<lambda>_. stageAuditTrail si, \<lambda>_. stageLedgerWrite si, \<lambda>_. stageOutputValidation si]"
  have all: "list_all2 (\<lambda>s f. computes (ss_Check s si) f \<and> gov_reader f) (gre_Stages (NewGRE1001 usl)) ?fs"
    by (simp add: NewGRE1001_def computes_Ret computes_identity computes_usl computes_drift
        computes_corrigibility gov_reader_def) (metis gov_fields(4,6))
  show "fst (run (GRE_Run (NewGRE1001 usl) si) w) = halt_at (stage_verdicts si (w_interrupts w) (w_driftOverride w))"
    and "gov (snd (run (GRE_Run (NewGRE1001 usl) si) w)) = gov w"
    using run_stages_computes [OF all, of "[]" w] by (auto simp: GRE_Run_def stage_verdicts_def)
qed

subsection \<open>Halting\<close>

lemma halt_at_ok: "snd (halt_at ss) \<longleftrightarrow> list_all so_Passed ss"
  by (induction ss) auto

lemma halt_at_failed:
  "\<not> snd (halt_at ss) \<Longrightarrow> fst (halt_at ss) \<noteq> [] \<and> \<not> so_Passed (last (fst (halt_at ss)))
     \<and> list_all so_Passed (butlast (fst (halt_at ss)))"
  by (induction ss) (auto split: if_splits)

text \<open>When all nine stages pass.\<close>

definition pipeline_passes :: "StageInput \<Rightarrow> InterruptStore \<Rightarrow> float64 option \<Rightarrow> bool" where
  "pipeline_passes si s d \<longleftrightarrow>
     (let r = si_Request si; c = rq_CapabilityClass r in
      rq_RequestID r \<noteq> [] \<and> rq_IntentID r \<noteq> [] \<and> rq_TenantID r \<noteq> [] \<and> rq_OperatorID r \<noteq> []
      \<and> cc_Class c \<noteq> [] \<and> cc_Scope c \<noteq> [] \<and> cc_Action c \<noteq> [] \<and> cc_Risk c \<noteq> []
      \<and> lr_Passed (checkLambda4 r (si_Tenants si)) \<and> usl_admits (stage_gate si) r
      \<and> \<not> drift_spike d \<and> \<not> overridden s (rq_IntentID r))"

lemma usl_stage_passed: "so_Passed (usl_stage_verdict si) \<longleftrightarrow> usl_admits (stage_gate si) (si_Request si)"
  using usl_verdict_Admit [of "stage_gate si" "si_Request si"]
  by (auto simp: usl_stage_verdict_def split: prod.splits if_splits)

lemma stage_verdicts_pass: "list_all so_Passed (stage_verdicts si s d) \<longleftrightarrow> pipeline_passes si s d"
  by (auto simp: stage_verdicts_def pipeline_passes_def usl_stage_passed Let_def overridden_def
      stageInputValidation_def stageCapabilityCheck_def identity_verdict_def drift_verdict_def
      corrigibility_verdict_def stageAuditTrail_def stageLedgerWrite_def stageOutputValidation_def
      split: if_splits)

lemma GRE_Run_ok:
  "snd (halt_at (stage_verdicts si s d)) \<longleftrightarrow> pipeline_passes si s d"
  by (simp add: halt_at_ok stage_verdicts_pass)

subsection \<open>The pipeline is quiet\<close>

lemma quiet_stages:
  "quiet (stageIdentitySeparation si)" "quiet (stageUSLGate si)" "quiet (stageDriftCheck si)"
  "quiet (stageOperatorCorrigibility si)"
  using computes_identity computes_usl computes_drift computes_corrigibility by (simp_all add: computes_def)

lemma quiet_run_stages: "(\<And>s. s \<in> set ss \<Longrightarrow> quiet (ss_Check s si)) \<Longrightarrow> quiet (run_stages ss si outs)"
  by (induction ss arbitrary: outs) (auto intro!: quiet_intros)

lemma quiet_check: "s \<in> set (gre_Stages (NewGRE1001 usl)) \<Longrightarrow> quiet (ss_Check s si)"
  by (auto simp: NewGRE1001_def quiet_stages quiet_Ret)

lemma quiet_GRE_Run [quiet_intros]: "quiet (GRE_Run (NewGRE1001 usl) si)"
  unfolding GRE_Run_def by (rule quiet_run_stages) (rule quiet_check)

section \<open>Properties\<close>

text \<open>
  C16: a run of the nine-stage pipeline reports the verdicts of the stages in order up to and
  including the first that fails, accepts exactly when all nine conditions hold, and changes nothing
  but metrics and clock position.
\<close>

theorem pipeline_halts_first:
  "let (res, w') = run (GRE_Run (NewGRE1001 usl) si) w;
       verdicts = stage_verdicts si (w_interrupts w) (w_driftOverride w) in
     fst res = take (Suc (length (takeWhile so_Passed verdicts))) verdicts
     \<and> (snd res \<longleftrightarrow> pipeline_passes si (w_interrupts w) (w_driftOverride w))
     \<and> gov w' = gov w"
proof -
  have "fst (halt_at vs) = take (Suc (length (takeWhile so_Passed vs))) vs" for vs
    by (induction vs) auto
  then show ?thesis by (simp add: case_prod_beta Let_def run_GRE_Run GRE_Run_ok)
qed

end
