(* ===== verification/Config.thy ===== *)
theory Config
  imports USLGate
begin

text \<open>
  The tenant configuration (\<open>config.go\<close>): the decoded file and \<open>Config.Build\<close>, which turns it into the
  tenant policies and the capability lattice.  \<open>LoadConfig\<close> strips a byte-order mark and decodes the
  file; reading the file and \<open>json.Unmarshal\<close> into a \<open>Config\<close> are its first two arguments, and
  \<open>ConfigFile\<close> gives the second.

  The facts describe every grant that \<open>Build\<close> can produce and relate the policy of a tenant to the
  capability classes its configuration lists.
\<close>

section \<open>Definitions\<close>

record LegacyTenant =
  lt_TenantID :: string
  lt_Name :: string
  lt_MLCALane :: string
  lt_AllowedCapabilityClasses :: "string list"
  lt_RequiresOperatorApproval :: bool
  lt_IdentitySeparation :: bool
  lt_RoutingPolicy :: string
  lt_AllowedProviders :: "string list"
  lt_KeyRefs :: "string \<rightharpoonup> string"
  lt_OperatorIDs :: "string list"
  lt_CorrigibilityUnconditional :: bool

record Config =
  cf_Version :: string
  cf_Tenants :: "LegacyTenant list"
  cf_MLCALanes :: "string \<rightharpoonup> string"
  cf_VossBinding :: "string list"
  cf_USLGateEnforced :: bool
  cf_LedgerRequired :: bool

definition zero_Config :: Config where
  "zero_Config = \<lparr>cf_Version = [], cf_Tenants = [], cf_MLCALanes = Map.empty, cf_VossBinding = [],
     cf_USLGateEnforced = False, cf_LedgerRequired = False\<rparr>"

definition utf8_bom :: string where
  "utf8_bom = [CHR 0xEF, CHR 0xBB, CHR 0xBF]"

definition LoadConfig :: "(string \<Rightarrow> string option) \<Rightarrow> (string \<Rightarrow> Config) \<Rightarrow> string \<Rightarrow> Config" where
  "LoadConfig readFile unmarshal path =
     (case readFile path of
        None \<Rightarrow> zero_Config
      | Some data \<Rightarrow> unmarshal (fst (strings_CutPrefix data utf8_bom)))"

definition LoadConfigFromEnv ::
  "(string \<Rightarrow> string option) \<Rightarrow> (string \<Rightarrow> Config) \<Rightarrow> (string \<Rightarrow> string) \<Rightarrow> Config" where
  "LoadConfigFromEnv readFile unmarshal getenv =
     (let path = getenv ''VOSS_CONFIG'' in
      LoadConfig readFile unmarshal
        (if path = [] then ''deploy/voss/config/tenants.production.json'' else path))"

text \<open>One round of the loop over the capability classes: allowed classes, scopes and actions so far.\<close>

fun class_step :: "string list \<times> string list \<times> string list \<Rightarrow> string
    \<Rightarrow> string list \<times> string list \<times> string list" where
  "class_step (allowed, scopes, actions) cl =
     (let parts = strings_Split cl (CHR ''.'') in
      if length parts \<ge> 2 then
        (allowed @ [parts ! 0],
         if \<not> contains scopes (parts ! 1) then scopes @ [parts ! 1] else scopes,
         if length parts \<ge> 3 \<and> \<not> contains actions (parts ! 2) then actions @ [parts ! 2] else actions)
      else (allowed @ [cl], scopes, actions))"

definition class_lists :: "string list \<Rightarrow> string list \<times> string list \<times> string list" where
  "class_lists cls = foldl class_step ([], [], []) cls"

definition default_actions :: "string list" where
  "default_actions = [''propose'', ''execute'', ''preview'', ''verify'', ''apply'']"

definition tenant_policy :: "LegacyTenant \<Rightarrow> TenantPolicy" where
  "tenant_policy t =
     (let (allowed, scopes, actions) = class_lists (lt_AllowedCapabilityClasses t) in
      \<lparr>tp_TenantID = lt_TenantID t, tp_Name = lt_Name t, tp_MLCALane = lt_MLCALane t,
       tp_AllowedClasses = allowed, tp_AllowedScopes = scopes,
       tp_AllowedActions = (if length actions = 0 then default_actions else actions),
       tp_AllowedRisks = [], tp_RequiresApproval = lt_RequiresOperatorApproval t,
       tp_IdentityNamespace = lt_TenantID t @ ''-ns'',
       tp_SovereignOperator = (if length (lt_OperatorIDs t) > 0 then lt_OperatorIDs t ! 0 else [])\<rparr>)"

definition class_grant :: "string \<Rightarrow> string \<Rightarrow> CapabilityLattice" where
  "class_grant lane cl =
     (let parts = strings_Split cl (CHR ''.'') in
      \<lparr>cl_Grant = \<lparr>cc_Class = parts ! 0,
                  cc_Scope = (if length parts \<ge> 2 then parts ! 1 else ''default''),
                  cc_Action = ''execute'', cc_Risk = ''low''\<rparr>,
       cl_Lanes = [lane]\<rparr>)"

definition Build :: "Config \<Rightarrow> TenantPolicy list \<times> CapabilityLattice list" where
  "Build c =
     (map tenant_policy (cf_Tenants c),
      concat (map (\<lambda>t. map (class_grant (lt_MLCALane t)) (lt_AllowedCapabilityClasses t)) (cf_Tenants c)))"

text \<open>The gate a service builds from a configuration.\<close>

definition gate_of :: "Config \<Rightarrow> USLGate" where
  "gate_of c = \<lparr>ug_Tenants = fst (Build c), ug_Lattice = snd (Build c), ug_GovernanceEnforced = True\<rparr>"

section \<open>Facts\<close>

lemma class_grant_simps [simp]:
  "cc_Action (cl_Grant (class_grant lane cl)) = ''execute''"
  "cc_Risk (cl_Grant (class_grant lane cl)) = ''low''"
  "cl_Lanes (class_grant lane cl) = [lane]"
  by (simp_all add: class_grant_def Let_def)

lemma gate_of_granted:
  "capabilityGranted (gate_of c) cap lane \<longleftrightarrow>
     (\<exists>t\<in>set (cf_Tenants c). lt_MLCALane t = lane \<and>
        (\<exists>cl\<in>set (lt_AllowedCapabilityClasses t). cl_Grant (class_grant lane cl) = cap))"
  by (auto simp: capabilityGranted_iff gate_of_def Build_def)

lemma gate_of_granted_execute_low:
  "capabilityGranted (gate_of c) cap lane \<Longrightarrow> cc_Action cap = ''execute'' \<and> cc_Risk cap = ''low''"
  by (auto simp: gate_of_granted)

lemma foldl_class_step:
  "foldl class_step (a, s, x) cls = (a', s', x') \<Longrightarrow>
     set a' = set a \<union> (\<lambda>cl. hd (strings_Split cl (CHR ''.''))) ` set cls"
proof (induction cls arbitrary: a s x)
  case Nil
  then show ?case by simp
next
  case (Cons cl cls)
  have single: "length (strings_Split cl (CHR ''.'')) < 2 \<Longrightarrow> hd (strings_Split cl (CHR ''.'')) = cl"
    using strings_Join_Split [of cl "CHR ''.''"]
    by (cases "strings_Split cl (CHR ''.'')"; cases "tl (strings_Split cl (CHR ''.''))") auto
  obtain a1 s1 x1 where step: "class_step (a, s, x) cl = (a1, s1, x1)" by (cases "class_step (a, s, x) cl")
  then have "set a1 = insert (hd (strings_Split cl (CHR ''.''))) (set a)"
    using single by (auto simp: Let_def hd_conv_nth split: if_splits)
  with Cons.IH [of a1 s1 x1] Cons.prems step show ?case by auto
qed

lemma tenant_policy_classes:
  "set (tp_AllowedClasses (tenant_policy t)) =
     (\<lambda>cl. hd (strings_Split cl (CHR ''.''))) ` set (lt_AllowedCapabilityClasses t)"
  using foldl_class_step [of "[]" "[]" "[]" "lt_AllowedCapabilityClasses t"]
  by (auto simp: tenant_policy_def class_lists_def split: prod.splits)

lemma class_step_scopes:
  "foldl class_step (a, s, x) cls = (a', s', x') \<Longrightarrow>
     set s' = set s \<union> {strings_Split cl (CHR ''.'') ! 1 | cl. cl \<in> set cls \<and> 2 \<le> length (strings_Split cl (CHR ''.''))}"
proof (induction cls arbitrary: a s x)
  case (Cons cl cls)
  obtain a1 s1 x1 where step: "class_step (a, s, x) cl = (a1, s1, x1)" by (cases "class_step (a, s, x) cl")
  then have "set s1 = set s \<union> {strings_Split c (CHR ''.'') ! 1 | c. c = cl \<and> 2 \<le> length (strings_Split c (CHR ''.''))}"
    by (auto simp: Let_def split: if_splits)
  with Cons.IH [of a1 s1 x1] Cons.prems step show ?case by auto
qed auto

lemma class_step_actions_two:
  "\<forall>cl\<in>set cls. length (strings_Split cl (CHR ''.'')) \<le> 2 \<Longrightarrow> snd (snd (foldl class_step (a, s, x) cls)) = x"
  by (induction cls arbitrary: a s x) (auto simp: Let_def)

text \<open>Two-part classes: the shape \<open>class.scope\<close> of the shipped configuration.\<close>

definition two_part :: "LegacyTenant \<Rightarrow> bool" where
  "two_part t \<longleftrightarrow> (\<forall>cl\<in>set (lt_AllowedCapabilityClasses t). length (strings_Split cl (CHR ''.'')) = 2)"

lemma two_part_policy:
  assumes "two_part t"
  shows "tp_AllowedActions (tenant_policy t) = default_actions"
    and "set (tp_AllowedScopes (tenant_policy t)) =
      (\<lambda>cl. strings_Split cl (CHR ''.'') ! 1) ` set (lt_AllowedCapabilityClasses t)"
proof -
  obtain a s x where fold: "foldl class_step ([], [], []) (lt_AllowedCapabilityClasses t) = (a, s, x)"
    by (cases "foldl class_step ([], [], []) (lt_AllowedCapabilityClasses t)")
  have "x = []"
    using class_step_actions_two [of "lt_AllowedCapabilityClasses t" "[]" "[]" "[]"] assms fold
    by (simp add: two_part_def)
  with fold show "tp_AllowedActions (tenant_policy t) = default_actions"
    by (simp add: tenant_policy_def class_lists_def)
  show "set (tp_AllowedScopes (tenant_policy t)) =
      (\<lambda>cl. strings_Split cl (CHR ''.'') ! 1) ` set (lt_AllowedCapabilityClasses t)"
    using class_step_scopes [OF fold] fold assms
    by (force simp: tenant_policy_def class_lists_def two_part_def)
qed

lemma tenant_policy_ids [simp]:
  "tp_TenantID (tenant_policy t) = lt_TenantID t" "tp_MLCALane (tenant_policy t) = lt_MLCALane t"
  "tp_AllowedRisks (tenant_policy t) = []"
  by (simp_all add: tenant_policy_def split: prod.splits)

text \<open>For two-part classes, every capability a tenant lists is granted in its lane and allowed by its policy.\<close>

lemma two_part_listed:
  assumes "two_part t" and "t \<in> set (cf_Tenants c)" and "cl \<in> set (lt_AllowedCapabilityClasses t)"
  defines "cap \<equiv> cl_Grant (class_grant (lt_MLCALane t) cl)"
  shows "capabilityGranted (gate_of c) cap (lt_MLCALane t) \<and> TenantPolicy_Allows (tenant_policy t) cap"
proof
  show "capabilityGranted (gate_of c) cap (lt_MLCALane t)"
    using assms by (auto simp: gate_of_granted)
  have "strings_Split cl (CHR ''.'') ! 1 \<in> set (tp_AllowedScopes (tenant_policy t))"
    using two_part_policy(2) [OF assms(1)] assms(3) by auto
  moreover have "strings_Split cl (CHR ''.'') ! 0 \<in> set (tp_AllowedClasses (tenant_policy t))"
    using assms(3) by (auto simp: tenant_policy_classes hd_conv_nth)
  ultimately show "TenantPolicy_Allows (tenant_policy t) cap"
    using two_part_policy(1) [OF assms(1)] assms(1,3)
    by (auto simp: TenantPolicy_Allows_iff cap_def class_grant_def Let_def two_part_def default_actions_def)
qed

section \<open>Properties\<close>

lemma class_grant_iff:
  "cl_Grant (class_grant lane cl) = cap \<longleftrightarrow>
     cc_Action cap = ''execute'' \<and> cc_Risk cap = ''low'' \<and> cc_Class cap = hd (strings_Split cl (CHR ''.''))
     \<and> cc_Scope cap = (if 2 \<le> length (strings_Split cl (CHR ''.'')) then strings_Split cl (CHR ''.'') ! 1 else ''default'')"
  by (cases cap) (auto simp: class_grant_def Let_def hd_conv_nth)

text \<open>
  The lattice built from a configuration grants a capability in a lane exactly when some tenant of
  that lane lists its class and scope; the only action ever granted is \<open>execute\<close> and the only risk
  \<open>low\<close>.
\<close>

lemma built_lattice_grants:
  "capabilityGranted (gate_of c) cap lane \<longleftrightarrow>
     cc_Action cap = ''execute'' \<and> cc_Risk cap = ''low'' \<and>
     (\<exists>t cl. t \<in> set (cf_Tenants c) \<and> lt_MLCALane t = lane \<and> cl \<in> set (lt_AllowedCapabilityClasses t)
        \<and> cc_Class cap = hd (strings_Split cl (CHR ''.''))
        \<and> cc_Scope cap = (if 2 \<le> length (strings_Split cl (CHR ''.'')) then strings_Split cl (CHR ''.'') ! 1
                          else ''default''))"
  unfolding gate_of_granted class_grant_iff by blast

end
