(* ===== verification/Router.thy ===== *)
theory Router
  imports GRE Config
begin

text \<open>
  The router of \<open>router.go\<close>: \<open>Router.Admit\<close> with its gates in order, \<open>Router.GovernAndExecute\<close>, the
  bounded provider call and the helpers.  The router object's mutable parts (ledger, overrides,
  execution states, providers) live in the world; the record holds the parts fixed at construction.

  What these programs do without interruption is shown in \<open>Admission\<close> and \<open>GovernedRun\<close>, what they do
  among other goroutines in \<open>Service\<close> and \<open>GovernedExecution\<close>.
\<close>

section \<open>Data\<close>

record Router =
  rt_usl :: USLGate
  rt_gre :: GRE1001

record AdmissionOutcome =
  ao_Decision :: AdmissionDecision
  ao_Entry :: LedgerEntry
  ao_Stages :: "StageRecord list"

record ExecutionResult =
  er_IntentID :: string
  er_Result :: gomap
  er_Hash :: string

definition zero_AdmissionOutcome :: AdmissionOutcome where
  "zero_AdmissionOutcome = \<lparr>ao_Decision = zero_AdmissionDecision, ao_Entry = zero_LedgerEntry, ao_Stages = []\<rparr>"

definition zero_ExecutionResult :: ExecutionResult where
  "zero_ExecutionResult = \<lparr>er_IntentID = [], er_Result = None, er_Hash = []\<rparr>"

text \<open>The fixed part of the object \<open>NewRouter\<close> builds, and the whole constructor.\<close>

definition make_Router :: "TenantPolicy list \<Rightarrow> CapabilityLattice list \<Rightarrow> Router" where
  "make_Router tenants lattice =
     (let usl = \<lparr>ug_Tenants = tenants, ug_Lattice = lattice, ug_GovernanceEnforced = True\<rparr>
      in \<lparr>rt_usl = usl, rt_gre = NewGRE1001 usl\<rparr>)"

definition fresh_state :: "world \<Rightarrow> world" where
  "fresh_state w = w\<lparr>w_ledger := NewLedger, w_interrupts := NewInterruptStore, w_exec := NewExecutionState,
     w_driftOverride := None, w_providers := Map.empty\<rparr>"

definition NewRouter :: "TenantPolicy list \<Rightarrow> CapabilityLattice list \<Rightarrow> Router go" where
  "NewRouter tenants lattice = seqP (modify fresh_state) (Ret (make_Router tenants lattice))"

definition RegisterProvider :: "string \<Rightarrow> Adapter \<Rightarrow> unit go" where
  "RegisterProvider pid a = modify (\<lambda>w. w\<lparr>w_providers := (w_providers w)(pid \<mapsto> a)\<rparr>)"

section \<open>Helpers\<close>

definition decID :: "string go" where
  "decID = bindP time_Now (\<lambda>now. Ret (''dec-'' @ int_dec (UnixNano now)))"

definition admittedDecision ::
  "CapabilityRequest \<Rightarrow> AdmitResult \<Rightarrow> string \<Rightarrow> string \<Rightarrow> string \<Rightarrow> AdmissionDecision go" where
  "admittedDecision req result reason ruleRef did =
     bindP time_Now (\<lambda>now. Ret \<lparr>ad_Result = result, ad_Reason = reason, ad_RuleRef = ruleRef,
       ad_DecisionID = did, ad_RequestID = rq_RequestID req, ad_Timestamp = now\<rparr>)"

text \<open>\<open>admittedDecision(req, result, reason, ruleRef, decID())\<close>\<close>

definition new_decision :: "CapabilityRequest \<Rightarrow> AdmitResult \<Rightarrow> string \<Rightarrow> string \<Rightarrow> AdmissionDecision go" where
  "new_decision req result reason ruleRef =
     bindP decID (\<lambda>did. admittedDecision req result reason ruleRef did)"

text \<open>\<open>r.ledger.WriteDecision(req, admitted, result, decision.Reason, decision.RuleRef, decision.DecisionID, log)\<close>\<close>

definition write_decision :: "CapabilityRequest \<Rightarrow> bool \<Rightarrow> AdmissionDecision \<Rightarrow> StageRecord list \<Rightarrow> LedgerEntry go" where
  "write_decision req admitted d stageLog =
     WriteDecision req admitted (ad_Result d) (ad_Reason d) (ad_RuleRef d) (ad_DecisionID d) stageLog"

fun tenantSovereign_from :: "TenantPolicy list \<Rightarrow> string \<Rightarrow> string \<times> bool" where
  "tenantSovereign_from [] tid = ([], False)"
| "tenantSovereign_from (t # ts) tid =
     (if tp_TenantID t = tid then (tp_SovereignOperator t, True) else tenantSovereign_from ts tid)"

definition tenantSovereign :: "USLGate option \<Rightarrow> string \<Rightarrow> string \<times> bool" where
  "tenantSovereign usl tid =
     (case usl of None \<Rightarrow> ([], False) | Some u \<Rightarrow> tenantSovereign_from (ug_Tenants u) tid)"

definition stage_record :: "string \<Rightarrow> bool \<Rightarrow> string \<Rightarrow> string \<Rightarrow> StageRecord" where
  "stage_record stage passed reason ruleRef =
     \<lparr>sr_Stage = stage, sr_Passed = passed, sr_Reason = reason, sr_RuleRef = ruleRef\<rparr>"

definition outcome :: "AdmissionDecision \<Rightarrow> LedgerEntry \<Rightarrow> StageRecord list \<Rightarrow> AdmissionOutcome" where
  "outcome d e stages = \<lparr>ao_Decision = d, ao_Entry = e, ao_Stages = stages\<rparr>"

definition HashInput :: "CapabilityRequest \<Rightarrow> string" where
  "HashInput req = sha256_hex (rq_TenantID req @ ''|'' @ rq_IntentID req @ ''|''
     @ mr_ProviderID (rq_ModelRef req) @ ''|'' @ rq_OperatorID req)"

definition HashResult :: "gomap \<Rightarrow> string" where
  "HashResult result =
     sha256_hex (case result of None \<Rightarrow> json_text JNull | Some kvs \<Rightarrow> json_text (JMap kvs))"

section \<open>\<open>Admit\<close>, gate by gate\<close>

text \<open>The ledger does not verify.\<close>

definition admit_ledger_break :: "CapabilityRequest \<Rightarrow> (AdmissionOutcome \<times> GoError option) go" where
  "admit_ledger_break req =
     seqP (inc MetricLedgerChainBreaks [])
     (bindP (new_decision req Deny ''ledger chain integrity broken'' ''ledger.integrity'') (\<lambda>d.
      bindP (ledger_Append (zero_LedgerEntry\<lparr>le_RequestID := rq_RequestID req, le_IntentID := rq_IntentID req,
               le_TenantID := rq_TenantID req, le_MLCALane := rq_MLCALane req,
               le_Capability := rq_CapabilityClass req, le_Provider := mr_ProviderID (rq_ModelRef req),
               le_Admitted := False, le_Result := Deny, le_Reason := ''ledger chain integrity broken'',
               le_RuleRef := ''ledger.integrity'', le_DecisionID := ad_DecisionID d,
               le_ReplayID := ''replay-'' @ rq_IntentID req\<rparr>)) (\<lambda>entry.
      seqP (inc MetricLedgerWrites [])
      (seqP (inc MetricAdmissions [Deny])
      (Ret (outcome d entry [], Some ErrLedgerBreak))))))"

text \<open>The intent is terminated before the pipeline.\<close>

definition admit_terminated :: "CapabilityRequest \<Rightarrow> (AdmissionOutcome \<times> GoError option) go" where
  "admit_terminated req =
     seqP (inc MetricInterrupts [])
     (bindP (new_decision req Deny ''operator termination'' Lambda6) (\<lambda>d.
      seqP (exec_Forcibly (rq_IntentID req) ExecTerminated)
      (bindP (write_decision req False d
               [stage_record StageOperatorCorrigibility False ''operator termination'' Lambda6]) (\<lambda>entry.
      seqP (inc MetricLedgerWrites [])
      (seqP (inc MetricAdmissions [Deny])
      (Ret (outcome d entry [], Some ErrTerminated)))))))"

text \<open>The intent is interrupted before the pipeline.\<close>

definition admit_interrupted :: "CapabilityRequest \<Rightarrow> Time \<Rightarrow> (AdmissionOutcome \<times> GoError option) go" where
  "admit_interrupted req start =
     seqP (inc MetricInterrupts [])
     (seqP (observe_since MetricInterruptLatency [] start)
     (bindP (new_decision req Deny ''operator interruption'' Lambda6) (\<lambda>d.
      bindP (write_decision req False d
               [stage_record StageOperatorCorrigibility False ''operator interrupt'' Lambda6]) (\<lambda>entry.
      seqP (inc MetricLedgerWrites [])
      (seqP (inc MetricAdmissions [Deny])
      (Ret (outcome d entry [], Some ErrInterrupted)))))))"

text \<open>The pipeline halted: the last stage says why.\<close>

definition admit_halted :: "CapabilityRequest \<Rightarrow> StageOutput list \<Rightarrow> (AdmissionOutcome \<times> GoError option) go" where
  "admit_halted req stages =
     (let lst = stages ! (length stages - 1); stageRecords = toStageRecords stages in
      bindP (new_decision req Deny (so_Reason lst) (so_RuleRef lst)) (\<lambda>d.
      bindP (write_decision req False d stageRecords) (\<lambda>entry.
      seqP (inc MetricLedgerWrites [])
      (seqP (inc MetricAdmissions [Deny])
      (Ret (outcome d entry stageRecords, None))))))"

text \<open>Clamp and Reroute are lifted for the tenant's sovereign operator.\<close>

definition operator_approval :: "Router \<Rightarrow> CapabilityRequest \<Rightarrow> ImmuneDecision \<Rightarrow> ImmuneDecision" where
  "operator_approval r req immune =
     (if id_Result immune = ImmuneClamp \<or> id_Result immune = ImmuneReroute then
        (case tenantSovereign (Some (rt_usl r)) (rq_TenantID req) of (tenant, ok) \<Rightarrow>
           if ok \<and> tenant = rq_OperatorID req
           then \<lparr>id_Result = ImmuneAllow,
                 id_Reason = ''operator approved governed lane: '' @ id_Reason immune\<rparr>
           else immune)
      else immune)"

definition admit_quarantined ::
  "CapabilityRequest \<Rightarrow> StageRecord list \<Rightarrow> ImmuneDecision \<Rightarrow> (AdmissionOutcome \<times> GoError option) go" where
  "admit_quarantined req stageRecords immune =
     bindP (new_decision req Quarantine (''immune: '' @ id_Reason immune) ''immune.protocol'') (\<lambda>d.
     bindP (write_decision req False d
              (stageRecords @ [stage_record ''immune'' False (id_Reason immune) ''immune.protocol''])) (\<lambda>entry.
     seqP (inc MetricLedgerWrites [])
     (seqP (inc MetricAdmissions [Quarantine])
     (Ret (outcome d entry [], None)))))"

definition admit_no_provider :: "CapabilityRequest \<Rightarrow> StageRecord list \<Rightarrow> (AdmissionOutcome \<times> GoError option) go" where
  "admit_no_provider req stageRecords =
     bindP (new_decision req Deny ''no enabled provider for capability'' ''provider.registry'') (\<lambda>d.
     bindP (write_decision req False d
              (stageRecords @ [stage_record ''provider'' False ''no provider registered'' ''provider.registry''])) (\<lambda>entry.
     seqP (inc MetricProviderErrors [mr_ProviderID (rq_ModelRef req)])
     (seqP (inc MetricAdmissions [Deny])
     (seqP (inc MetricLedgerWrites [])
     (Ret (outcome d entry [], None))))))"

definition admit_refused ::
  "CapabilityRequest \<Rightarrow> StageRecord list \<Rightarrow> string \<Rightarrow> (AdmissionOutcome \<times> GoError option) go" where
  "admit_refused req stageRecords reason =
     bindP (new_decision req Deny (''adapter: '' @ reason) ''provider.adapter'') (\<lambda>d.
     bindP (write_decision req False d
              (stageRecords @ [stage_record ''provider'' False reason ''provider.adapter''])) (\<lambda>entry.
     seqP (inc MetricProviderErrors [mr_ProviderID (rq_ModelRef req)])
     (seqP (inc MetricAdmissions [Deny])
     (seqP (inc MetricLedgerWrites [])
     (Ret (outcome d entry [], None))))))"

text \<open>The overrides are read again after the adapter answered.\<close>

definition admit_terminated_in_flight ::
  "CapabilityRequest \<Rightarrow> StageRecord list \<Rightarrow> (AdmissionOutcome \<times> GoError option) go" where
  "admit_terminated_in_flight req stageRecords =
     seqP (inc MetricInterrupts [])
     (seqP (exec_Forcibly (rq_IntentID req) ExecTerminated)
     (bindP (new_decision req Deny ''operator termination during flight'' Lambda6) (\<lambda>d.
      bindP (write_decision req False d
               (stageRecords @ [stage_record ''provider'' False ''operator termination during flight'' Lambda6])) (\<lambda>entry.
      seqP (inc MetricLedgerWrites [])
      (seqP (inc MetricAdmissions [Deny])
      (Ret (outcome d entry [], Some ErrTerminated)))))))"

definition admit_interrupted_in_flight ::
  "CapabilityRequest \<Rightarrow> Time \<Rightarrow> StageRecord list \<Rightarrow> (AdmissionOutcome \<times> GoError option) go" where
  "admit_interrupted_in_flight req start stageRecords =
     seqP (inc MetricInterrupts [])
     (seqP (observe_since MetricInterruptLatency [] start)
     (seqP (exec_Forcibly (rq_IntentID req) ExecHalted)
     (bindP (new_decision req Deny ''operator interruption during flight'' Lambda6) (\<lambda>d.
      bindP (write_decision req False d
               (stageRecords @ [stage_record ''provider'' False ''operator interruption during flight'' Lambda6])) (\<lambda>entry.
      seqP (inc MetricLedgerWrites [])
      (seqP (inc MetricAdmissions [Deny])
      (Ret (outcome d entry [], Some ErrInterrupted))))))))"

definition admit_commit :: "CapabilityRequest \<Rightarrow> StageRecord list \<Rightarrow> (AdmissionOutcome \<times> GoError option) go" where
  "admit_commit req stageRecords =
     bindP (new_decision req Admit ''admitted'' ''usl.gate'') (\<lambda>d.
     bindP (write_decision req True d stageRecords) (\<lambda>entry.
     seqP (inc MetricAdmissions [Admit])
     (seqP (inc MetricLedgerWrites [])
     (Ret (outcome d entry stageRecords, None)))))"

definition admit_in_flight ::
  "CapabilityRequest \<Rightarrow> Time \<Rightarrow> StageRecord list \<Rightarrow> (AdmissionOutcome \<times> GoError option) go" where
  "admit_in_flight req start stageRecords =
     bindP (isTerminated (rq_IntentID req)) (\<lambda>t.
       if t then admit_terminated_in_flight req stageRecords
       else bindP (isInterrupted (rq_IntentID req)) (\<lambda>n.
         if n then admit_interrupted_in_flight req start stageRecords
         else admit_commit req stageRecords))"

definition admit_provider ::
  "CapabilityRequest \<Rightarrow> Time \<Rightarrow> StageRecord list \<Rightarrow> (AdmissionOutcome \<times> GoError option) go" where
  "admit_provider req start stageRecords =
     bindP (provider_lookup (mr_ProviderID (rq_ModelRef req))) (\<lambda>found.
       case found of
         None \<Rightarrow> admit_no_provider req stageRecords
       | Some adapter \<Rightarrow>
           bindP (call_CapabilityRequest adapter req) (\<lambda>(ok, reason).
             if \<not> ok then admit_refused req stageRecords reason
             else admit_in_flight req start stageRecords))"

definition admit_pipeline :: "Router \<Rightarrow> CapabilityRequest \<Rightarrow> Time \<Rightarrow> (AdmissionOutcome \<times> GoError option) go" where
  "admit_pipeline r req start =
     bindP (GRE_Run (rt_gre r) \<lparr>si_Request = req, si_Tenants = ug_Tenants (rt_usl r),
              si_Lattice = ug_Lattice (rt_usl r)\<rparr>) (\<lambda>(stages, ok).
       if \<not> ok then admit_halted req stages
       else bindP (Immune_Classify req) (\<lambda>classified.
         let immune = operator_approval r req classified in
         if id_Result immune \<noteq> ImmuneAllow then admit_quarantined req (toStageRecords stages) immune
         else admit_provider req start (toStageRecords stages)))"

definition admit_gates :: "Router \<Rightarrow> CapabilityRequest \<Rightarrow> Time \<Rightarrow> (AdmissionOutcome \<times> GoError option) go" where
  "admit_gates r req start =
     bindP ledger_Verify (\<lambda>(ok, _).
       if \<not> ok then admit_ledger_break req
       else bindP (isTerminated (rq_IntentID req)) (\<lambda>t.
         if t then admit_terminated req
         else bindP (isInterrupted (rq_IntentID req)) (\<lambda>n.
           if n then admit_interrupted req start
           else admit_pipeline r req start)))"

text \<open>The whole function: the deferred latency observation runs after every return.\<close>

definition Router_Admit :: "Router \<Rightarrow> CapabilityRequest \<Rightarrow> (AdmissionOutcome \<times> GoError option) go" where
  "Router_Admit r req =
     bindP time_Now (\<lambda>start.
     bindP (admit_gates r req start) (\<lambda>res.
     seqP (observe_since MetricCycleLatency [] start) (Ret res)))"

section \<open>\<open>GovernAndExecute\<close>\<close>

text \<open>\<open>strconv.Atoi\<close>: an optional sign, decimal digits, within the range of an \<open>int\<close>.\<close>

definition atoi_digits :: "string \<Rightarrow> int option" where
  "atoi_digits s =
     (if s \<noteq> [] \<and> list_all (\<lambda>c. 48 \<le> (of_char c :: nat) \<and> (of_char c :: nat) \<le> 57) s
      then Some (foldl (\<lambda>n c. 10 * n + (of_char c - 48)) 0 s) else None)"

definition strconv_Atoi :: "string \<Rightarrow> int option" where
  "strconv_Atoi s =
     (let v = (case s of
                 [] \<Rightarrow> None
               | c # cs \<Rightarrow> if c = CHR ''-'' then map_option uminus (atoi_digits cs)
                          else if c = CHR ''+'' then atoi_digits cs else atoi_digits s)
      in case v of None \<Rightarrow> None
         | Some i \<Rightarrow> if - (2 ^ 63) \<le> i \<and> i < 2 ^ 63 then Some i else None)"

definition ProviderTimeout :: int where
  "ProviderTimeout = 2500 * 1000000"

definition providerTimeout :: "(string \<Rightarrow> string) \<Rightarrow> int" where
  "providerTimeout getenv =
     (let v = getenv ''VOSS_PROVIDER_TIMEOUT'' in
      if v \<noteq> [] then
        (case strconv_Atoi v of
           Some ms \<Rightarrow> if ms > 0 then sint (word_of_int (ms * 1000000) :: 64 word) else ProviderTimeout
         | None \<Rightarrow> ProviderTimeout)
      else ProviderTimeout)"

text \<open>
  The \<open>select\<close> between the result channel and the timer: the earlier one wins; when both are ready at
  the same instant Go picks either.  A timer with a negative duration fires at once.
\<close>

definition select_result :: "nat option \<Rightarrow> int \<Rightarrow> bool \<Rightarrow> bool" where
  "select_result latency timeout pick =
     (case latency of
        None \<Rightarrow> False
      | Some d \<Rightarrow> int d < max 0 timeout \<or> (int d = max 0 timeout \<and> pick))"

definition boundedGenerate :: "Adapter \<Rightarrow> CapabilityRequest \<Rightarrow> (gomap \<times> GoError option) go" where
  "boundedGenerate adapter req =
     bindP (start_Generate adapter req) (\<lambda>(latency, res, err).
     bindP (gets (\<lambda>w. providerTimeout (w_env w))) (\<lambda>timeout.
     bindP (atomic (\<lambda>w. (w_select w (w_pos w), tick w))) (\<lambda>pick.
       if select_result latency timeout pick then Ret (res, err)
       else Ret (None, Some ErrProviderTimeout))))"

definition execute_no_provider ::
  "CapabilityRequest \<Rightarrow> (AdmissionOutcome \<times> ExecutionResult \<times> GoError option) go" where
  "execute_no_provider req =
     bindP (new_decision req Deny ''no enabled provider for capability at execute'' ''provider.registry'') (\<lambda>d.
     bindP (write_decision req False d
              [stage_record ''provider'' False ''no provider registered'' ''provider.registry'']) (\<lambda>entry.
     seqP (inc MetricProviderErrors [mr_ProviderID (rq_ModelRef req)])
     (seqP (inc MetricAdmissions [Deny])
     (seqP (inc MetricLedgerWrites [])
     (Ret (outcome d entry [], zero_ExecutionResult, None))))))"

definition execute_failed ::
  "CapabilityRequest \<Rightarrow> GoError \<Rightarrow> (AdmissionOutcome \<times> ExecutionResult \<times> GoError option) go" where
  "execute_failed req err =
     (let reason = (if err = ErrProviderTimeout then ''provider execution timed out''
                    else ''provider execution failed'') in
      bindP (new_decision req Deny reason ''provider.execution'') (\<lambda>d.
      bindP (write_decision req False d
               [stage_record ''provider'' False (error_text err) ''provider.execution'']) (\<lambda>entry.
      seqP (inc MetricProviderErrors [mr_ProviderID (rq_ModelRef req)])
      (seqP (inc MetricAdmissions [Deny])
      (seqP (inc MetricLedgerWrites [])
      (Ret (outcome d entry [], zero_ExecutionResult, None)))))))"

definition execute_done ::
  "CapabilityRequest \<Rightarrow> AdmissionOutcome \<Rightarrow> gomap \<Rightarrow> (AdmissionOutcome \<times> ExecutionResult \<times> GoError option) go" where
  "execute_done req out generated =
     (let exec = \<lparr>er_IntentID = rq_IntentID req, er_Result = generated, er_Hash = HashResult generated\<rparr> in
      seqP (WriteExecution req (ad_DecisionID (ao_Decision out)) (er_Hash exec))
      (seqP (inc MetricLedgerWrites [])
      (seqP (inc MetricExecutions [])
      (Ret (out, exec, None)))))"

definition execute_provider ::
  "CapabilityRequest \<Rightarrow> AdmissionOutcome \<Rightarrow> (AdmissionOutcome \<times> ExecutionResult \<times> GoError option) go" where
  "execute_provider req out =
     bindP (exec_Current (rq_IntentID req)) (\<lambda>cur.
     seqP (exec_Transition (rq_IntentID req) cur ExecRunning)
     (bindP (provider_lookup (mr_ProviderID (rq_ModelRef req))) (\<lambda>found.
        case found of
          None \<Rightarrow> execute_no_provider req
        | Some adapter \<Rightarrow>
            bindP (boundedGenerate adapter req) (\<lambda>(generated, err).
              case err of
                Some e \<Rightarrow> execute_failed req e
              | None \<Rightarrow> execute_done req out generated))))"

text \<open>The final check of the overrides, immediately before the provider is used.\<close>

definition execute_admitted ::
  "CapabilityRequest \<Rightarrow> AdmissionOutcome \<Rightarrow> (AdmissionOutcome \<times> ExecutionResult \<times> GoError option) go" where
  "execute_admitted req out =
     bindP (isTerminated (rq_IntentID req)) (\<lambda>t.
       if t then seqP (exec_Forcibly (rq_IntentID req) ExecTerminated)
                  (Ret (out, zero_ExecutionResult, Some ErrTerminated))
       else bindP (getCorrection (rq_IntentID req)) (\<lambda>(d, _).
         bindP (isInterrupted (rq_IntentID req)) (\<lambda>n.
           if n \<or> d \<noteq> [] then seqP (exec_Forcibly (rq_IntentID req) ExecHalted)
                                (Ret (out, zero_ExecutionResult, Some ErrInterrupted))
           else execute_provider req out)))"

definition GovernAndExecute ::
  "Router \<Rightarrow> CapabilityRequest \<Rightarrow> (AdmissionOutcome \<times> ExecutionResult \<times> GoError option) go" where
  "GovernAndExecute r req =
     bindP (Router_Admit r req) (\<lambda>(out, err).
       if err \<noteq> None then Ret (out, zero_ExecutionResult, err)
       else if ad_Result (ao_Decision out) \<noteq> Admit then Ret (out, zero_ExecutionResult, None)
       else execute_admitted req out)"

section \<open>Facts\<close>

lemma make_Router_gre: "rt_gre (make_Router ts lat) = NewGRE1001 (rt_usl (make_Router ts lat))"
  by (simp add: make_Router_def Let_def)

lemma make_Router_usl [simp]:
  "rt_usl (make_Router ts lat) = \<lparr>ug_Tenants = ts, ug_Lattice = lat, ug_GovernanceEnforced = True\<rparr>"
  by (simp add: make_Router_def Let_def)

section \<open>Properties\<close>

text \<open>
  The hash of an execution result does not depend on the order in which the result's map is
  iterated, and is always 64 characters long.
\<close>

lemma HashResult_deterministic:
  assumes "distinct (map fst kvs)" and "mset kvs = mset kvs'"
  shows "HashResult (Some kvs) = HashResult (Some kvs') \<and> length (HashResult (Some kvs)) = 64"
proof -
  let ?t = "map (\<lambda>(k, v). (k, json_text v))"
  have "distinct (map fst (?t kvs))" using assms(1) by (simp add: case_prod_beta comp_def)
  moreover have "mset (?t kvs) = mset (?t kvs')" using assms(2) by simp
  ultimately have "sort_keys (?t kvs) = sort_keys (?t kvs')" by (rule sort_keys_unique)
  then show ?thesis by (simp add: HashResult_def length_sha256_hex)
qed

text \<open>
  A product that does not fit 64 bits wraps around to a negative number: the duration of \<open>ms\<close>
  milliseconds for the settings beyond the largest exact one, up to the next wrap.
\<close>

lemma sint_wraps: "2 ^ 63 \<le> k \<Longrightarrow> k < 2 ^ 64 \<Longrightarrow> sint (word_of_int k :: 64 word) = k - 2 ^ 64"
proof -
  assume k: "(2::int) ^ 63 \<le> k" "k < 2 ^ 64"
  have "(word_of_int k :: 64 word) = word_of_int (k - 2 ^ 64)"
    by (rule word_of_int_eq_iff [THEN iffD2]) (simp add: take_bit_eq_mod mod_eq_dvd_iff)
  then have "sint (word_of_int k :: 64 word) = sint (word_of_int (k - 2 ^ 64) :: 64 word)" by (rule arg_cong)
  also have "\<dots> = k - 2 ^ 64" by (rule UnixNano_exact [unfolded UnixNano_def]) (use k in simp_all)
  finally show ?thesis .
qed

text \<open>
  C39: the provider deadline is the configured number of milliseconds when that number is positive and
  its nanoseconds fit a 64-bit duration, and 2.5 seconds for a number that is not positive.  A larger
  setting, up to twice as much, wraps to a negative duration: the timer fires at once, and every
  provider that takes any time at all is denied with a timeout.
\<close>

theorem providerTimeout_exact:
  assumes "strconv_Atoi (getenv ''VOSS_PROVIDER_TIMEOUT'') = Some ms" and "ms \<le> 18446744073709"
  shows "if ms \<le> 0 then providerTimeout getenv = 2500000000
    else if ms \<le> 9223372036854 then providerTimeout getenv = ms * 1000000
    else providerTimeout getenv < 0 \<and> \<not> select_result (Some (Suc d)) (providerTimeout getenv) pick"
proof -
  have "getenv ''VOSS_PROVIDER_TIMEOUT'' \<noteq> []" using assms(1) by (auto simp: strconv_Atoi_def Let_def)
  moreover have "sint (word_of_int (ms * 1000000) :: 64 word) = ms * 1000000" if "0 < ms" "ms \<le> 9223372036854"
    using that UnixNano_exact [of "ms * 1000000"] by (simp add: UnixNano_def)
  moreover have "sint (word_of_int (ms * 1000000) :: 64 word) < 0" if "9223372036854 < ms"
    using that assms(2) sint_wraps [of "ms * 1000000"] by simp
  ultimately show ?thesis using assms(1) by (simp add: providerTimeout_def ProviderTimeout_def select_result_def Let_def)
qed

theorem providerTimeout_exact_witness:
  "providerTimeout (\<lambda>_. ''750'') = 750000000 \<and> providerTimeout (\<lambda>_. ''9223372036855'') < 0"
proof
  have "strconv_Atoi ''750'' = Some 750" by (simp add: strconv_Atoi_def atoi_digits_def Let_def)
  from providerTimeout_exact [of "\<lambda>_. ''750''", OF this] show "providerTimeout (\<lambda>_. ''750'') = 750000000" by simp
  have "strconv_Atoi ''9223372036855'' = Some 9223372036855" by (simp add: strconv_Atoi_def atoi_digits_def Let_def)
  from providerTimeout_exact [of "\<lambda>_. ''9223372036855''", OF this] show "providerTimeout (\<lambda>_. ''9223372036855'') < 0" by simp
qed

end
