(* ===== verification/OperatorAuth.thy ===== *)
theory OperatorAuth
  imports VossTypes
begin

text \<open>
  Operator authentication (\<open>auth.go\<close>): a shared bearer token, failing closed when no token is set.
\<close>

section \<open>Definitions\<close>

record OperatorAuth =
  oa_token :: string

definition NewOperatorAuth :: "string \<Rightarrow> OperatorAuth" where
  "NewOperatorAuth token = \<lparr>oa_token = token\<rparr>"

definition Authorized :: "OperatorAuth \<Rightarrow> string \<Rightarrow> bool" where
  "Authorized a header =
     (if oa_token a = [] then False
      else let (v, ok) = strings_CutPrefix header ''Bearer '' in
        if \<not> ok then False
        else if subtle_ConstantTimeCompare v (oa_token a) \<noteq> 1 then False
        else True)"

section \<open>Facts\<close>

lemma Authorized_iff_header:
  "Authorized a header \<longleftrightarrow> oa_token a \<noteq> [] \<and> header = ''Bearer '' @ oa_token a"
proof
  assume auth: "Authorized a header"
  then have "snd (strings_CutPrefix header ''Bearer '')"
    and tok: "fst (strings_CutPrefix header ''Bearer '') = oa_token a" "oa_token a \<noteq> []"
    by (auto simp: Authorized_def split: if_splits prod.splits)
  from strings_CutPrefix_fst [OF this(1)] tok
  show "oa_token a \<noteq> [] \<and> header = ''Bearer '' @ oa_token a" by simp
next
  assume "oa_token a \<noteq> [] \<and> header = ''Bearer '' @ oa_token a"
  then show "Authorized a header"
    using strings_CutPrefix_append [of "''Bearer ''" "oa_token a"] by (simp add: Authorized_def)
qed

section \<open>Properties\<close>

text \<open>
  A header is authorized exactly when it is the configured token after the scheme
  \<open>Bearer\<close>; without a token nothing is.
\<close>

lemma Authorized_exact:
  "Authorized (NewOperatorAuth token) header \<longleftrightarrow> token \<noteq> [] \<and> header = ''Bearer '' @ token"
  by (simp add: Authorized_iff_header NewOperatorAuth_def)

end
