(* ===== verification/Server.thy ===== *)
theory Server
  imports Router OperatorAuth
begin

text \<open>
  The HTTP handlers of \<open>server.go\<close>.  A request carries its method, path, \<open>Authorization\<close> header and
  the outcome of reading and decoding its body (an error while reading, an error while decoding, or
  the decoded value); how it comes out of the bytes is in \<open>RequestCodec\<close> and \<open>Wire\<close>.  A response is a status
  code and a structured body.
\<close>

section \<open>Requests and responses\<close>

datatype 'a body = ReadError | Malformed string | Decoded 'a

record 'a HTTPRequest =
  hr_Method :: string
  hr_Path :: string
  hr_Authorization :: string
  hr_Body :: "'a body"

datatype ResponseBody =
    BError string
  | BText string
  | BRedirect string
  | BRoute AdmissionDecision LedgerEntry CapabilityRequest
  | BOperator string string
  | BLedger "LedgerEntry list"
  | BVerify bool nat
  | BWorkflow string AdmissionDecision ExecutionResult LedgerEntry "GoError option"
  | BDecision AdmissionDecision
  | BStages bool "StageRecord list"
  | BEntry LedgerEntry
  | BChainInvalid string nat
  | BScore int string string

record Response =
  rp_Status :: nat
  rp_Body :: ResponseBody

definition respond :: "nat \<Rightarrow> ResponseBody \<Rightarrow> Response go" where
  "respond status b = Ret \<lparr>rp_Status = status, rp_Body = b\<rparr>"

definition StatusOK :: nat where "StatusOK = 200"
definition StatusMovedPermanently :: nat where "StatusMovedPermanently = 301"
definition StatusBadRequest :: nat where "StatusBadRequest = 400"
definition StatusUnauthorized :: nat where "StatusUnauthorized = 401"
definition StatusForbidden :: nat where "StatusForbidden = 403"
definition StatusNotFound :: nat where "StatusNotFound = 404"
definition StatusMethodNotAllowed :: nat where "StatusMethodNotAllowed = 405"
definition StatusConflict :: nat where "StatusConflict = 409"
definition StatusInternalServerError :: nat where "StatusInternalServerError = 500"

section \<open>The server\<close>

record Server =
  sv_router :: Router
  sv_auth :: OperatorAuth

definition NewServer :: "Router \<Rightarrow> Server" where
  "NewServer r = \<lparr>sv_router = r, sv_auth = NewOperatorAuth []\<rparr>"

definition WithAuth :: "Server \<Rightarrow> string \<Rightarrow> Server" where
  "WithAuth s token = s\<lparr>sv_auth := NewOperatorAuth token\<rparr>"

definition route_status :: "AdmissionOutcome \<Rightarrow> GoError option \<Rightarrow> nat" where
  "route_status out err =
     (if err = Some ErrInterrupted \<or> err = Some ErrTerminated then StatusConflict
      else if ad_Result (ao_Decision out) = Deny \<or> ad_Result (ao_Decision out) = Quarantine then StatusForbidden
      else StatusOK)"

definition RouteHandler :: "Server \<Rightarrow> CapabilityRequest HTTPRequest \<Rightarrow> Response go" where
  "RouteHandler s r =
     (if hr_Method r \<noteq> ''POST'' then respond StatusMethodNotAllowed (BError ''method not allowed'')
      else case hr_Body r of
        ReadError \<Rightarrow> respond StatusBadRequest (BError ''read error'')
      | Malformed err \<Rightarrow> respond StatusBadRequest (BError (''malformed request: '' @ err))
      | Decoded req \<Rightarrow>
          bindP (Router_Admit (sv_router s) req) (\<lambda>(out, err).
            respond (route_status out err) (BRoute (ao_Decision out) (ao_Entry out) req)))"

record operatorRequest =
  or_IntentID :: string
  or_OperatorID :: string
  or_Directive :: string

definition operatorLedger :: "operatorRequest \<Rightarrow> string \<Rightarrow> string \<Rightarrow> LedgerEntry go" where
  "operatorLedger ir reason ruleRef =
     bindP time_Now (\<lambda>now.
       WriteDecision (zero_CapabilityRequest\<lparr>rq_IntentID := or_IntentID ir, rq_TenantID := ''operator'',
                        rq_RequestID := ''operator''\<rparr>)
         False Deny reason ruleRef (''op-'' @ int_dec (UnixNano now))
         [stage_record ''operator_corrigibility'' False reason ruleRef])"

text \<open>\<open>authOperator\<close> answers 401 itself; here it says whether the request may go on.\<close>

definition authOperator :: "Server \<Rightarrow> 'a HTTPRequest \<Rightarrow> bool" where
  [simp]: "authOperator s r = Authorized (sv_auth s) (hr_Authorization r)"

text \<open>The common frame of the three operator handlers: method, authorization, decoding, required fields.\<close>

definition operator_frame ::
  "Server \<Rightarrow> operatorRequest HTTPRequest \<Rightarrow> (operatorRequest \<Rightarrow> bool) \<Rightarrow> string
     \<Rightarrow> (operatorRequest \<Rightarrow> Response go) \<Rightarrow> Response go" where
  "operator_frame s r filled missing act =
     (if hr_Method r \<noteq> ''POST'' then respond StatusMethodNotAllowed (BError ''method not allowed'')
      else if \<not> authOperator s r
        then respond StatusUnauthorized (BError ''unauthorized operator'')
      else case hr_Body r of
        Decoded ir \<Rightarrow> if filled ir then act ir else respond StatusBadRequest (BError missing)
      | _ \<Rightarrow> respond StatusBadRequest (BError missing))"

definition InterruptHandler :: "Server \<Rightarrow> operatorRequest HTTPRequest \<Rightarrow> Response go" where
  "InterruptHandler s r =
     operator_frame s r (\<lambda>ir. or_IntentID ir \<noteq> [] \<and> or_OperatorID ir \<noteq> [])
       ''intent_id and operator_id required''
       (\<lambda>ir. seqP (override (Interrupt (or_IntentID ir)))
             (seqP (exec_Forcibly (or_IntentID ir) ExecHalted)
             (seqP (operatorLedger ir ''operator interrupt'' Lambda6)
             (respond StatusOK (BOperator ''interrupted'' (or_IntentID ir))))))"

definition CorrectHandler :: "Server \<Rightarrow> operatorRequest HTTPRequest \<Rightarrow> Response go" where
  "CorrectHandler s r =
     operator_frame s r (\<lambda>cr. or_IntentID cr \<noteq> [] \<and> or_OperatorID cr \<noteq> [] \<and> or_Directive cr \<noteq> [])
       ''intent_id, operator_id and directive required''
       (\<lambda>cr. seqP (override (Correct (or_IntentID cr) (or_Directive cr)))
             (seqP (exec_Forcibly (or_IntentID cr) ExecHalted)
             (seqP (operatorLedger cr (''operator correction: '' @ or_Directive cr) Lambda6)
             (respond StatusOK (BOperator ''corrected'' (or_IntentID cr))))))"

definition TerminateHandler :: "Server \<Rightarrow> operatorRequest HTTPRequest \<Rightarrow> Response go" where
  "TerminateHandler s r =
     operator_frame s r (\<lambda>tr. or_IntentID tr \<noteq> [] \<and> or_OperatorID tr \<noteq> [])
       ''intent_id and operator_id required''
       (\<lambda>tr. seqP (override (Terminate (or_IntentID tr)))
             (seqP (exec_Forcibly (or_IntentID tr) ExecTerminated)
             (seqP (operatorLedger tr ''operator termination'' Lambda6)
             (respond StatusOK (BOperator ''terminated'' (or_IntentID tr))))))"

definition LedgerHandler :: "Response go" where
  "LedgerHandler = bindP ledger_Export (\<lambda>es. respond StatusOK (BLedger es))"

definition VerifyHandler :: "Response go" where
  "VerifyHandler = bindP ledger_Verify (\<lambda>(ok, breaks). respond StatusOK (BVerify ok breaks))"

section \<open>Facts\<close>

text \<open>What the operator frame lets through.\<close>

definition operator_accepts :: "Server \<Rightarrow> operatorRequest HTTPRequest \<Rightarrow> operatorRequest \<Rightarrow> bool" where
  "operator_accepts s r ir \<longleftrightarrow>
     hr_Method r = ''POST'' \<and> Authorized (sv_auth s) (hr_Authorization r) \<and> hr_Body r = Decoded ir"

lemma operator_frame_cases:
  "(\<exists>ir. operator_accepts s r ir \<and> filled ir \<and> operator_frame s r filled missing act = act ir) \<or>
   ((\<nexists>ir. operator_accepts s r ir \<and> filled ir) \<and>
    (\<exists>status b. operator_frame s r filled missing act = respond status (BError b)
       \<and> status \<in> {StatusMethodNotAllowed, StatusUnauthorized, StatusBadRequest}))"
  by (cases "hr_Body r") (auto simp: operator_frame_def operator_accepts_def)

lemma run_respond [run_simps]: "run (respond st b) w = (\<lparr>rp_Status = st, rp_Body = b\<rparr>, w)"
  by (simp add: respond_def)

lemma quiet_respond [quiet_intros]: "quiet (respond st b)"
  unfolding respond_def by (rule quiet_Ret)

lemma keeps_respond [keeps_intros]: "keeps P (respond st b)"
  by (simp add: respond_def)

section \<open>Properties\<close>

text \<open>
  What an accepted operator call does: it records the override, forces the execution state, appends
  one denial for the intent under Lambda.6 with the given reason and an identifier from the clock, and
  answers 200 with the given status text; providers, metrics aside, are untouched.
\<close>

definition took_effect ::
  "(InterruptStore \<Rightarrow> InterruptStore) \<Rightarrow> ExecState \<Rightarrow> string \<Rightarrow> string \<Rightarrow> string \<Rightarrow> world \<Rightarrow> Response \<times> world \<Rightarrow> bool" where
  "took_effect f s i reason status w res \<longleftrightarrow>
     fst res = \<lparr>rp_Status = StatusOK, rp_Body = BOperator status i\<rparr> \<and> w_interrupts (snd res) = f (w_interrupts w)
     \<and> w_exec (snd res) = Forcibly i s (w_exec w) \<and> w_calls (snd res) = w_calls w
     \<and> (\<exists>t now issued. w_ledger (snd res) = snd (Append t (decision_entry now
          (zero_CapabilityRequest\<lparr>rq_IntentID := i, rq_TenantID := ''operator'', rq_RequestID := ''operator''\<rparr>)
          False Deny reason Lambda6 (''op-'' @ int_dec (UnixNano issued))
          (Some [stage_record ''operator_corrigibility'' False reason Lambda6])) (w_ledger w)))"

lemma operator_frame_accepted:
  "operator_accepts s r ir \<Longrightarrow> operator_frame s r filled missing act =
     (if filled ir then act ir else respond StatusBadRequest (BError missing))"
  by (simp add: operator_frame_def operator_accepts_def)

lemma took_effect_override:
  "took_effect f s (or_IntentID ir) reason status w
     (run (seqP (override f) (seqP (exec_Forcibly (or_IntentID ir) s)
        (seqP (operatorLedger ir reason Lambda6) (respond StatusOK (BOperator status (or_IntentID ir)))))) w)"
  by (auto simp: took_effect_def override_def exec_Forcibly_def operatorLedger_def WriteDecision_def time_Now_def
      ledger_Append_def run_simps tick_def Let_def case_prod_beta)

text \<open>
  C8: an authorized operator call that names an intent and an operator takes effect, directive or not, at
  \<open>/interrupt\<close>, which interrupts and halts the intent, and at \<open>/terminate\<close>, which terminates it; at \<open>/correct\<close>,
  which records the directive and halts the intent, it takes effect exactly with a directive and is answered
  400 without one, and nothing happens.  Each effect comes with one ledger entry under Lambda.6.
\<close>

theorem operator_call_takes_effect:
  assumes "operator_accepts s r ir" and "or_IntentID ir \<noteq> []" and "or_OperatorID ir \<noteq> []"
  defines "i \<equiv> or_IntentID ir"
  shows "took_effect (Interrupt i) ExecHalted i ''operator interrupt'' ''interrupted'' w (run (InterruptHandler s r) w)
    \<and> took_effect (Terminate i) ExecTerminated i ''operator termination'' ''terminated'' w (run (TerminateHandler s r) w)
    \<and> (if or_Directive ir \<noteq> []
       then took_effect (Correct i (or_Directive ir)) ExecHalted i (''operator correction: '' @ or_Directive ir) ''corrected'' w
              (run (CorrectHandler s r) w)
       else run (CorrectHandler s r) w =
              (\<lparr>rp_Status = StatusBadRequest, rp_Body = BError ''intent_id, operator_id and directive required''\<rparr>, w))"
  using assms(2,3)
  by (simp add: i_def InterruptHandler_def CorrectHandler_def TerminateHandler_def operator_frame_accepted [OF assms(1)]
      took_effect_override run_respond)

definition token_server :: Server where
  "token_server = WithAuth (NewServer (make_Router [] [])) ''token''"

definition operator_post :: "string \<Rightarrow> operatorRequest HTTPRequest" where
  "operator_post auth =
     \<lparr>hr_Method = ''POST'', hr_Path = ''/interrupt'', hr_Authorization = auth,
      hr_Body = Decoded \<lparr>or_IntentID = ''i'', or_OperatorID = ''o'', or_Directive = []\<rparr>\<rparr>"

theorem operator_call_takes_effect_witness:
  "\<forall>w. took_effect (Interrupt ''i'') ExecHalted ''i'' ''operator interrupt'' ''interrupted'' w
       (run (InterruptHandler token_server (operator_post ''Bearer token'')) w)
     \<and> rp_Status (fst (run (CorrectHandler token_server (operator_post ''Bearer token'')) w)) = StatusBadRequest"
proof
  fix w :: world
  have "operator_accepts token_server (operator_post ''Bearer token'') \<lparr>or_IntentID = ''i'', or_OperatorID = ''o'', or_Directive = []\<rparr>"
    by (simp add: operator_accepts_def token_server_def operator_post_def WithAuth_def NewOperatorAuth_def Authorized_def
        strings_CutPrefix_def)
  from operator_call_takes_effect [OF this, of w]
  show "took_effect (Interrupt ''i'') ExecHalted ''i'' ''operator interrupt'' ''interrupted'' w
       (run (InterruptHandler token_server (operator_post ''Bearer token'')) w)
     \<and> rp_Status (fst (run (CorrectHandler token_server (operator_post ''Bearer token'')) w)) = StatusBadRequest"
    by simp
qed

text \<open>
  Without the operator token a call of the operator endpoints changes nothing at all, and is
  answered 401 (405 if it is not a POST).
\<close>

lemma unauthorized_operator_no_effect:
  assumes "\<not> Authorized (sv_auth s) (hr_Authorization r)"
    and "h \<in> {InterruptHandler s r, CorrectHandler s r, TerminateHandler s r}"
  shows "snd (run h w) = w \<and> rp_Status (fst (run h w)) = (if hr_Method r = ''POST'' then StatusUnauthorized else StatusMethodNotAllowed)"
  using assms
  by (auto simp: InterruptHandler_def CorrectHandler_def TerminateHandler_def operator_frame_def run_simps)

text \<open>
  The terminal state of a terminated intent does not last: an interrupt after a termination leaves
  the intent recorded as terminated in the override store, and its execution state back at \<open>HALTED\<close>.
\<close>

lemma terminated_reverts_to_halted:
  assumes "operator_accepts s r ir" and "or_IntentID ir \<noteq> []" and "or_OperatorID ir \<noteq> []"
  shows "let w1 = snd (run (TerminateHandler s r) w); w2 = snd (run (InterruptHandler s r) w1); i = or_IntentID ir in
    Current (w_exec w1) i = ExecTerminated \<and> IsTerminated (w_interrupts w2) i \<and> Current (w_exec w2) i = ExecHalted"
proof -
  have "took_effect (Terminate (or_IntentID ir)) ExecTerminated (or_IntentID ir) ''operator termination'' ''terminated'' v
      (run (TerminateHandler s r) v)"
    and "took_effect (Interrupt (or_IntentID ir)) ExecHalted (or_IntentID ir) ''operator interrupt'' ''interrupted'' v
      (run (InterruptHandler s r) v)" for v
    using assms(2,3)
    by (simp_all add: TerminateHandler_def InterruptHandler_def operator_frame_accepted [OF assms(1)] took_effect_override)
  then show ?thesis by (simp add: took_effect_def Let_def)
qed

end
