(* ===== verification/Workflows.thy ===== *)
theory Workflows
  imports Server
begin

text \<open>
  The four governed workflows of \<open>workflows.go\<close> and the \<open>/workflow\<close> endpoint of \<open>modes.go\<close>.
  \<open>WorkflowService.Run\<close> binds the workflow's capability onto the request and goes through
  \<open>GovernAndExecute\<close>.
\<close>

section \<open>Definitions\<close>

type_synonym WorkflowID = string

record WorkflowSpec =
  wf_ID :: WorkflowID
  wf_CapabilityClass :: CapabilityClass
  wf_AllowedLanes :: "MLCALane list"
  wf_Steps :: "string list"

definition WorkflowGovernedIntake :: WorkflowID where
  "WorkflowGovernedIntake = ''governed-intake''"
definition WorkflowOTEMExecution :: WorkflowID where
  "WorkflowOTEMExecution = ''otem-execution''"
definition WorkflowExternalSuggestion :: WorkflowID where
  "WorkflowExternalSuggestion = ''external-suggestion-admission''"
definition WorkflowGovernedTrainingEval :: WorkflowID where
  "WorkflowGovernedTrainingEval = ''governed-training-eval''"

fun lanes_contain :: "MLCALane list \<Rightarrow> MLCALane \<Rightarrow> bool" where
  "lanes_contain [] lane = False"
| "lanes_contain (l # ls) lane = (if l = lane then True else lanes_contain ls lane)"

definition WorkflowSpec_Allows :: "WorkflowSpec \<Rightarrow> MLCALane \<Rightarrow> bool" where
  "WorkflowSpec_Allows w lane = lanes_contain (wf_AllowedLanes w) lane"

definition capability :: "string \<Rightarrow> string \<Rightarrow> string \<Rightarrow> string \<Rightarrow> CapabilityClass" where
  "capability cls scope action risk = \<lparr>cc_Class = cls, cc_Scope = scope, cc_Action = action, cc_Risk = risk\<rparr>"

definition intake_spec :: WorkflowSpec where
  "intake_spec =
     \<lparr>wf_ID = WorkflowGovernedIntake,
      wf_CapabilityClass = capability ''intake'' ''unstructured'' ''ingest'' ''low'',
      wf_AllowedLanes = [LaneSafe, LaneNormal, LaneExpress],
      wf_Steps = [''receive'', ''classify'', ''ledger'']\<rparr>"

definition otem_spec :: WorkflowSpec where
  "otem_spec =
     \<lparr>wf_ID = WorkflowOTEMExecution,
      wf_CapabilityClass = capability ''execution'' ''otem'' ''execute'' ''medium'',
      wf_AllowedLanes = [LaneNormal, LaneExpress],
      wf_Steps = [''proposal'', ''approval'', ''preview'', ''verify'', ''apply'', ''ledger'']\<rparr>"

definition suggestion_spec :: WorkflowSpec where
  "suggestion_spec =
     \<lparr>wf_ID = WorkflowExternalSuggestion,
      wf_CapabilityClass = capability ''admission'' ''external'' ''attach'' ''low'',
      wf_AllowedLanes = [LaneSafe, LaneNormal],
      wf_Steps = [''ingest'', ''sanitize'', ''admit_as_evidence'', ''ledger'']\<rparr>"

definition training_spec :: WorkflowSpec where
  "training_spec =
     \<lparr>wf_ID = WorkflowGovernedTrainingEval,
      wf_CapabilityClass = capability ''training'' ''eval'' ''run'' ''low'',
      wf_AllowedLanes = [LaneSafe],
      wf_Steps = [''plan'', ''data_gate'', ''train'', ''eval'', ''ledger'']\<rparr>"

record WorkflowService =
  ws_router :: Router
  ws_specs :: "WorkflowID \<rightharpoonup> WorkflowSpec"
  ws_bubbles :: "string list"

definition NewWorkflowService :: "Router \<Rightarrow> WorkflowService" where
  "NewWorkflowService r =
     \<lparr>ws_router = r,
      ws_specs = [WorkflowGovernedIntake \<mapsto> intake_spec, WorkflowOTEMExecution \<mapsto> otem_spec,
                  WorkflowExternalSuggestion \<mapsto> suggestion_spec, WorkflowGovernedTrainingEval \<mapsto> training_spec],
      ws_bubbles = []\<rparr>"

definition Spec :: "WorkflowService \<Rightarrow> WorkflowID \<Rightarrow> WorkflowSpec option" where
  "Spec ws wid = ws_specs ws wid"

definition Workflow_Run ::
  "WorkflowService \<Rightarrow> WorkflowID \<Rightarrow> CapabilityRequest \<Rightarrow> (AdmissionOutcome \<times> ExecutionResult \<times> GoError option) go" where
  "Workflow_Run ws wid req =
     (case ws_specs ws wid of
        None \<Rightarrow> Ret (zero_AdmissionOutcome, zero_ExecutionResult, Some (ErrUnknownWorkflow wid))
      | Some spec \<Rightarrow>
          if \<not> WorkflowSpec_Allows spec (rq_MLCALane req)
          then Ret (zero_AdmissionOutcome, zero_ExecutionResult, Some (ErrLaneNotAllowed wid (rq_MLCALane req)))
          else GovernAndExecute (ws_router ws) (req\<lparr>rq_CapabilityClass := wf_CapabilityClass spec\<rparr>))"

definition workflow_status :: "AdmissionOutcome \<Rightarrow> GoError option \<Rightarrow> nat" where
  "workflow_status out err =
     (if err = Some ErrInterrupted \<or> err = Some ErrTerminated then StatusConflict
      else if ad_Result (ao_Decision out) = Deny \<or> ad_Result (ao_Decision out) = Quarantine then StatusForbidden
      else StatusOK)"

definition workflowHandler :: "WorkflowService \<Rightarrow> (WorkflowID \<times> CapabilityRequest) HTTPRequest \<Rightarrow> Response go" where
  "workflowHandler ws r =
     (if hr_Method r \<noteq> ''POST'' then respond StatusMethodNotAllowed (BError ''method not allowed'')
      else if hr_Path r \<noteq> ''/workflow'' then respond StatusBadRequest (BError ''400'')
      else case hr_Body r of
        ReadError \<Rightarrow> respond StatusBadRequest (BError ''read error'')
      | Malformed err \<Rightarrow> respond StatusBadRequest (BError (''malformed request: '' @ err))
      | Decoded (wid, req) \<Rightarrow>
          bindP (Workflow_Run ws wid req) (\<lambda>(out, exec, err).
            respond (workflow_status out err) (BWorkflow wid (ao_Decision out) exec (ao_Entry out) err)))"

section \<open>Facts\<close>

lemma lanes_contain_iff [simp]: "lanes_contain ls lane \<longleftrightarrow> lane \<in> set ls"
  by (induction ls) auto

lemma workflow_ids_distinct [simp]:
  "WorkflowGovernedIntake \<noteq> WorkflowOTEMExecution" "WorkflowGovernedIntake \<noteq> WorkflowExternalSuggestion"
  "WorkflowGovernedIntake \<noteq> WorkflowGovernedTrainingEval" "WorkflowOTEMExecution \<noteq> WorkflowExternalSuggestion"
  "WorkflowOTEMExecution \<noteq> WorkflowGovernedTrainingEval" "WorkflowExternalSuggestion \<noteq> WorkflowGovernedTrainingEval"
  by (simp_all add: WorkflowGovernedIntake_def WorkflowOTEMExecution_def WorkflowExternalSuggestion_def
      WorkflowGovernedTrainingEval_def)

lemma workflow_spec_cases:
  assumes "ws_specs (NewWorkflowService r) wid = Some spec"
  obtains "spec = intake_spec" | "spec = otem_spec" | "spec = suggestion_spec" | "spec = training_spec"
  using assms by (auto simp: NewWorkflowService_def split: if_splits)

text \<open>No workflow asks for a low-risk \<open>execute\<close>: the only action and risk a built lattice ever grants.\<close>

lemma workflow_capability_not_execute_low:
  assumes "ws_specs (NewWorkflowService r) wid = Some spec"
  shows "\<not> (cc_Action (wf_CapabilityClass spec) = ''execute'' \<and> cc_Risk (wf_CapabilityClass spec) = ''low'')"
  using assms
  by (rule workflow_spec_cases)
    (simp_all add: intake_spec_def otem_spec_def suggestion_spec_def training_spec_def capability_def)

section \<open>Properties\<close>

text \<open>
  C40: a workflow request for an unknown workflow, or in a lane the workflow does not allow, reaches
  neither the router nor a provider: nothing changes.  The refusal is nevertheless answered with
  status 200; only the error field of the body tells it from an admitted request.
\<close>

theorem refused_workflow_answers_ok:
  assumes "case Spec (NewWorkflowService r) wid of None \<Rightarrow> True | Some spec \<Rightarrow> rq_MLCALane req \<notin> set (wf_AllowedLanes spec)"
    and "hr_Method h = ''POST''" and "hr_Path h = ''/workflow''" and "hr_Body h = Decoded (wid, req)"
  shows "\<exists>err. run (workflowHandler (NewWorkflowService r) h) w =
    (\<lparr>rp_Status = StatusOK, rp_Body = BWorkflow wid zero_AdmissionDecision zero_ExecutionResult zero_LedgerEntry (Some err)\<rparr>, w)"
  using assms
  by (auto simp: workflowHandler_def Workflow_Run_def Spec_def WorkflowSpec_Allows_def workflow_status_def
      zero_AdmissionOutcome_def zero_AdmissionDecision_def run_simps split: option.splits)

theorem refused_workflow_answers_ok_witness:
  "\<forall>w0. \<exists>err. run (workflowHandler (NewWorkflowService (make_Router [] []))
       \<lparr>hr_Method = ''POST'', hr_Path = ''/workflow'', hr_Authorization = [],
        hr_Body = Decoded (''no-such-workflow'', zero_CapabilityRequest)\<rparr>) w0 =
     (\<lparr>rp_Status = StatusOK, rp_Body = BWorkflow ''no-such-workflow'' zero_AdmissionDecision zero_ExecutionResult
         zero_LedgerEntry (Some err)\<rparr>, w0)"
  by (intro allI refused_workflow_answers_ok [where req = zero_CapabilityRequest])
    (simp_all add: Spec_def NewWorkflowService_def WorkflowGovernedIntake_def WorkflowOTEMExecution_def
      WorkflowExternalSuggestion_def WorkflowGovernedTrainingEval_def)

end
