(* ===== verification/GoJson.thy ===== *)
theory GoJson
  imports GoEncoding
begin

text \<open>
  Reading JSON back: what \<open>encoding/json\<close> does in \<open>json.Unmarshal\<close> up to the assignment to a Go value,
  and the indented form that \<open>json.MarshalIndent(v, "", "  ")\<close> writes.

  \<open>lex\<close> cuts a text into tokens, \<open>parse_value\<close> and \<open>parse_after\<close> are the scanner's state machine with
  its stack of open arrays and objects (at most \<open>maxNestingDepth\<close> of them), \<open>unquote\<close> is
  \<open>unquoteBytes\<close>.  A string in a parsed value keeps the raw text between its quotes: most readers
  unquote it, \<open>Time.UnmarshalJSON\<close> does not.

  The predicate \<open>renders\<close> is the specification of the lexer: a text is some layout of a sequence of
  tokens.  Both printers produce such layouts, so a printed value is read back from either
  (\<open>parse_text\<close>, \<open>parse_indent\<close>).
\<close>

section \<open>Tokens\<close>

datatype tok =
    TLBrace | TRBrace | TLBrack | TRBrack | TComma | TColon
  | TNull | TBool bool | TNum string | TStr string

definition is_space :: "char \<Rightarrow> bool" where
  "is_space c \<longleftrightarrow> c = CHR '' '' \<or> c = CHR 0x09 \<or> c = CHR 0x0A \<or> c = CHR 0x0D"

definition is_digit :: "char \<Rightarrow> bool" where
  "is_digit c \<longleftrightarrow> 48 \<le> (of_char c :: nat) \<and> (of_char c :: nat) \<le> 57"

definition is_hex :: "char \<Rightarrow> bool" where
  "is_hex c \<longleftrightarrow> is_digit c \<or> 97 \<le> (of_char c :: nat) \<and> (of_char c :: nat) \<le> 102
     \<or> 65 \<le> (of_char c :: nat) \<and> (of_char c :: nat) \<le> 70"

definition is_numchar :: "char \<Rightarrow> bool" where
  "is_numchar c \<longleftrightarrow> is_digit c \<or> c = CHR ''-'' \<or> c = CHR ''+'' \<or> c = CHR ''.'' \<or> c = CHR ''e'' \<or> c = CHR ''E''"

text \<open>The grammar of a number: sign, integer part without leading zeros, fraction, exponent.\<close>

definition digits_then :: "(string \<Rightarrow> bool) \<Rightarrow> string \<Rightarrow> bool" where
  "digits_then rest s \<longleftrightarrow> s \<noteq> [] \<and> is_digit (hd s) \<and> rest (dropWhile is_digit s)"

fun valid_exponent :: "string \<Rightarrow> bool" where
  "valid_exponent [] = True"
| "valid_exponent (c # s) =
     ((c = CHR ''e'' \<or> c = CHR ''E'') \<and>
      digits_then (\<lambda>r. r = []) (case s of [] \<Rightarrow> [] | d # s' \<Rightarrow> if d = CHR ''+'' \<or> d = CHR ''-'' then s' else s))"

fun valid_fraction :: "string \<Rightarrow> bool" where
  "valid_fraction (c # s) = (if c = CHR ''.'' then digits_then valid_exponent s else valid_exponent (c # s))"
| "valid_fraction [] = True"

fun valid_unsigned :: "string \<Rightarrow> bool" where
  "valid_unsigned [] = False"
| "valid_unsigned (c # s) =
     (if c = CHR ''0'' then valid_fraction s else digits_then valid_fraction (c # s))"

fun valid_number :: "string \<Rightarrow> bool" where
  "valid_number (c # s) = (if c = CHR ''-'' then valid_unsigned s else valid_unsigned (c # s))"
| "valid_number [] = False"

text \<open>The text of a string up to its closing quote, kept raw, and what follows.\<close>

definition is_escape :: "char \<Rightarrow> bool" where
  "is_escape c \<longleftrightarrow> c \<in> set [CHR ''b'', CHR ''f'', CHR ''n'', CHR ''r'', CHR ''t'', CHR 0x5C, CHR ''/'', CHR 0x22]"

definition prepend :: "string \<Rightarrow> (string \<times> string) option \<Rightarrow> (string \<times> string) option" where
  "prepend p r = map_option (apfst (append p)) r"

fun scan_string :: "string \<Rightarrow> (string \<times> string) option" where
  "scan_string [] = None"
| "scan_string (c # cs) =
     (if c = CHR 0x22 then Some ([], cs)
      else if c = CHR 0x5C then
        (case cs of
           [] \<Rightarrow> None
         | e # cs' \<Rightarrow>
             if is_escape e then prepend [c, e] (scan_string cs')
             else if e = CHR ''u'' then
               (case cs' of
                  h1 # h2 # h3 # h4 # cs'' \<Rightarrow>
                    if is_hex h1 \<and> is_hex h2 \<and> is_hex h3 \<and> is_hex h4
                    then prepend [c, e, h1, h2, h3, h4] (scan_string cs'') else None
                | _ \<Rightarrow> None)
             else None)
      else if (of_char c :: nat) < 32 then None
      else prepend [c] (scan_string cs))"

lemma prepend_Some: "prepend p r = Some (s, rest) \<Longrightarrow> \<exists>s'. r = Some (s', rest)"
  by (cases r) (auto simp: prepend_def)

lemma scan_string_shorter: "scan_string s = Some (raw, rest) \<Longrightarrow> length rest < length s"
  by (induction s arbitrary: raw rule: scan_string.induct)
    (fastforce split: if_splits list.splits dest!: prepend_Some)+

text \<open>Punctuation and the three literals: the token and the text it is written with.\<close>

definition fixed_tokens :: "(string \<times> tok) list" where
  "fixed_tokens =
     [([CHR 0x7B], TLBrace), ([CHR 0x7D], TRBrace), (''['', TLBrack), ('']'', TRBrack), ('','', TComma),
      ('':'', TColon), (''null'', TNull), (''true'', TBool True), (''false'', TBool False)]"

fun first_prefix :: "(string \<times> 'a) list \<Rightarrow> string \<Rightarrow> ('a \<times> string) option" where
  "first_prefix [] s = None"
| "first_prefix ((p, a) # ps) s =
     (if take (length p) s = p then Some (a, drop (length p) s) else first_prefix ps s)"

lemma first_prefix_shorter:
  "first_prefix ps s = Some (a, r) \<Longrightarrow> \<forall>(p, b)\<in>set ps. p \<noteq> [] \<Longrightarrow> s \<noteq> [] \<Longrightarrow> length r < length s"
  by (induction ps s rule: first_prefix.induct) (auto split: if_splits)

definition consT :: "tok \<Rightarrow> tok list option \<Rightarrow> tok list option" where
  "consT t r = map_option (Cons t) r"

function lex :: "string \<Rightarrow> tok list option" where
  "lex [] = Some []"
| "lex (c # cs) =
     (if is_space c then lex cs
      else if c = CHR 0x22 then
        (case scan_string cs of None \<Rightarrow> None | Some (raw, rest) \<Rightarrow> consT (TStr raw) (lex rest))
      else if c = CHR ''-'' \<or> is_digit c then
        (let n = takeWhile is_numchar (c # cs) in
         if valid_number n then consT (TNum n) (lex (dropWhile is_numchar cs)) else None)
      else case first_prefix fixed_tokens (c # cs) of
             None \<Rightarrow> None | Some (t, rest) \<Rightarrow> consT t (lex rest))"
  by pat_completeness auto
termination
proof (relation "measure length", goal_cases)
  case (3 c cs raw_rest raw rest)
  then show ?case using scan_string_shorter [of cs raw rest] by simp
next
  case (4 c cs n)
  then show ?case using length_dropWhile_le [of is_numchar cs] by simp
next
  case (5 c cs t_rest t rest)
  then show ?case using first_prefix_shorter [of fixed_tokens "c # cs" t rest] by (simp add: fixed_tokens_def)
qed auto

declare lex.simps(2) [simp del]

section \<open>Values\<close>

datatype jdata =
    DNull
  | DBool bool
  | DNum string
  | DStr string
  | DArr "jdata list"
  | DObj "(string \<times> jdata) list"

text \<open>
  The open arrays and objects around the value being read (the latest first), and the states of the
  scanner: \<open>stateBeginValue\<close>, \<open>stateBeginValueOrEmpty\<close>, \<open>stateBeginString\<close>,
  \<open>stateBeginStringOrEmpty\<close>, the wait for a colon, and \<open>stateEndValue\<close> with the value read.
\<close>

datatype frame = FArr "jdata list" | FObj "(string \<times> jdata) list" string

datatype mode =
    BeginValue | BeginValueOrEmpty | BeginString | BeginStringOrEmpty | WantColon | EndValue jdata

type_synonym scanner = "mode \<times> frame list"

definition maxNestingDepth :: nat where
  "maxNestingDepth = 10000"

definition push_frame :: "mode \<Rightarrow> frame \<Rightarrow> frame list \<Rightarrow> scanner option" where
  "push_frame m f st = (if length st < maxNestingDepth then Some (m, f # st) else None)"

fun begin_value :: "frame list \<Rightarrow> tok \<Rightarrow> scanner option" where
  "begin_value st TNull = Some (EndValue DNull, st)"
| "begin_value st (TBool b) = Some (EndValue (DBool b), st)"
| "begin_value st (TNum n) = Some (EndValue (DNum n), st)"
| "begin_value st (TStr s) = Some (EndValue (DStr s), st)"
| "begin_value st TLBrack = push_frame BeginValueOrEmpty (FArr []) st"
| "begin_value st TLBrace = push_frame BeginStringOrEmpty (FObj [] []) st"
| "begin_value st _ = None"

fun begin_string :: "frame list \<Rightarrow> tok \<Rightarrow> scanner option" where
  "begin_string (FObj kvs _ # st) (TStr k) = Some (WantColon, FObj kvs k # st)"
| "begin_string _ _ = None"

fun end_value :: "jdata \<Rightarrow> frame list \<Rightarrow> tok \<Rightarrow> scanner option" where
  "end_value v (FArr vs # st) t =
     (if t = TComma then Some (BeginValue, FArr (v # vs) # st)
      else if t = TRBrack then Some (EndValue (DArr (rev (v # vs))), st)
      else None)"
| "end_value v (FObj kvs k # st) t =
     (if t = TComma then Some (BeginString, FObj ((k, v) # kvs) [] # st)
      else if t = TRBrace then Some (EndValue (DObj (rev ((k, v) # kvs))), st)
      else None)"
| "end_value v [] t = None"

fun parse_step :: "scanner \<Rightarrow> tok \<Rightarrow> scanner option" where
  "parse_step (BeginValue, st) t = begin_value st t"
| "parse_step (BeginValueOrEmpty, st) t =
     (if t = TRBrack then Some (EndValue (DArr []), tl st) else begin_value st t)"
| "parse_step (BeginString, st) t = begin_string st t"
| "parse_step (BeginStringOrEmpty, st) t =
     (if t = TRBrace then Some (EndValue (DObj []), tl st) else begin_string st t)"
| "parse_step (WantColon, st) t = (if t = TColon then Some (BeginValue, st) else None)"
| "parse_step (EndValue v, st) t = end_value v st t"

fun parse_run :: "scanner \<Rightarrow> tok list \<Rightarrow> scanner option" where
  "parse_run s [] = Some s"
| "parse_run s (t # ts) = (case parse_step s t of None \<Rightarrow> None | Some s' \<Rightarrow> parse_run s' ts)"

definition parsed_value :: "scanner \<Rightarrow> jdata option" where
  "parsed_value s = (case s of (EndValue v, []) \<Rightarrow> Some v | _ \<Rightarrow> None)"

definition json_parse :: "string \<Rightarrow> jdata option" where
  "json_parse s = Option.bind (lex s) (\<lambda>ts. Option.bind (parse_run (BeginValue, []) ts) parsed_value)"

section \<open>Unquoting\<close>

definition hex_value :: "char \<Rightarrow> nat" where
  "hex_value c = (let n = (of_char c :: nat) in
     if n \<le> 57 then n - 48 else if n \<le> 70 then n - 55 else n - 87)"

definition utf8_EncodeRune :: "nat \<Rightarrow> string" where
  "utf8_EncodeRune r =
     (if r < 128 then [char_of r]
      else if r < 2048 then [char_of (192 + r div 64), char_of (128 + r mod 64)]
      else if r < 65536 then [char_of (224 + r div 4096), char_of (128 + r div 64 mod 64), char_of (128 + r mod 64)]
      else [char_of (240 + r div 262144), char_of (128 + r div 4096 mod 64),
            char_of (128 + r div 64 mod 64), char_of (128 + r mod 64)])"

definition replacement :: string where
  "replacement = utf8_EncodeRune 65533"

text \<open>\<open>getu4\<close>: the code unit of a \<open>\u\<close> escape at the start of the text.\<close>

fun getu4 :: "string \<Rightarrow> nat option" where
  "getu4 (a # u # h1 # h2 # h3 # h4 # _) =
     (if a = CHR 0x5C \<and> u = CHR ''u'' \<and> is_hex h1 \<and> is_hex h2 \<and> is_hex h3 \<and> is_hex h4
      then Some (((hex_value h1 * 16 + hex_value h2) * 16 + hex_value h3) * 16 + hex_value h4)
      else None)"
| "getu4 _ = None"

text \<open>The rune of a \<open>\u\<close> escape and whether the escape after it is its second half.\<close>

definition utf16_rune :: "nat \<Rightarrow> nat option \<Rightarrow> nat \<times> bool" where
  "utf16_rune rr next =
     (if rr < 55296 \<or> 57343 < rr then (rr, False)
      else case next of
             None \<Rightarrow> (65533, False)
           | Some rr1 \<Rightarrow>
               if rr < 56320 \<and> 56320 \<le> rr1 \<and> rr1 < 57344
               then (65536 + (rr - 55296) * 1024 + (rr1 - 56320), True) else (65533, False))"

definition escape_value :: "char \<Rightarrow> char" where
  "escape_value e =
     (if e = CHR ''b'' then CHR 0x08 else if e = CHR ''f'' then CHR 0x0C else if e = CHR ''n'' then CHR 0x0A
      else if e = CHR ''r'' then CHR 0x0D else if e = CHR ''t'' then CHR 0x09 else e)"

text \<open>\<open>unquoteBytes\<close> on the raw text of a string the scanner has accepted.\<close>

function unquote :: "string \<Rightarrow> string" where
  "unquote [] = []"
| "unquote (c # cs) =
     (if c = CHR 0x5C then
        (case cs of
           [] \<Rightarrow> []
         | e # cs' \<Rightarrow>
             if e = CHR ''u'' then
               (case getu4 (c # cs) of
                  None \<Rightarrow> []
                | Some rr \<Rightarrow>
                    (case utf16_rune rr (getu4 (drop 4 cs')) of
                       (r, paired) \<Rightarrow> utf8_EncodeRune r @ unquote (drop (if paired then 10 else 4) cs')))
             else if is_escape e then escape_value e # unquote cs' else [])
      else if (of_char c :: nat) < 128 then c # unquote cs
      else let n = rune_size (bytes_of (c # cs)) in
           if n = 0 then replacement @ unquote cs
           else take n (c # cs) @ unquote (drop (n - 1) cs))"
  by pat_completeness auto
termination
  by (relation "measure length") auto

declare unquote.simps(2) [simp del]

section \<open>The indented printer\<close>

definition newline :: "nat \<Rightarrow> string" where
  "newline depth = CHR 0x0A # replicate (2 * depth) CHR '' ''"

fun json_items :: "nat \<Rightarrow> string list \<Rightarrow> string" where
  "json_items depth [] = []"
| "json_items depth [x] = newline depth @ x"
| "json_items depth (x # y # ys) = newline depth @ x @ CHR '','' # json_items depth (y # ys)"

definition json_block :: "nat \<Rightarrow> char \<Rightarrow> char \<Rightarrow> string list \<Rightarrow> string" where
  "json_block depth l r xs =
     (if xs = [] then [l, r] else l # json_items (Suc depth) xs @ newline depth @ [r])"

fun json_indent :: "nat \<Rightarrow> json \<Rightarrow> string" where
  "json_indent d JNull = ''null''"
| "json_indent d (JBool b) = (if b then ''true'' else ''false'')"
| "json_indent d (JNum s) = s"
| "json_indent d (JStr s) = json_quote s"
| "json_indent d (JArr xs) = json_block d CHR ''['' CHR '']'' (map (json_indent (Suc d)) xs)"
| "json_indent d (JObj kvs) =
     json_block d CHR 0x7B CHR 0x7D (map (\<lambda>(k, v). json_quote k @ '': '' @ json_indent (Suc d) v) kvs)"
| "json_indent d (JMap kvs) =
     json_block d CHR 0x7B CHR 0x7D
       (map (\<lambda>(k, t). json_quote k @ '': '' @ t) (sort_keys (map (\<lambda>(k, v). (k, json_indent (Suc d) v)) kvs)))"

section \<open>What a text renders\<close>

definition delimits :: "string \<Rightarrow> bool" where
  "delimits s \<longleftrightarrow> s = [] \<or> \<not> is_numchar (hd s)"

definition scannable :: "string \<Rightarrow> bool" where
  "scannable raw \<longleftrightarrow> (\<forall>s. scan_string (raw @ CHR 0x22 # s) = Some (raw, s))"

inductive renders :: "tok list \<Rightarrow> string \<Rightarrow> bool" where
  r_end: "renders [] []"
| r_space: "is_space c \<Longrightarrow> renders ts s \<Longrightarrow> renders ts (c # s)"
| r_fixed: "(p, t) \<in> set fixed_tokens \<Longrightarrow> renders ts s \<Longrightarrow> renders (t # ts) (p @ s)"
| r_str: "scannable raw \<Longrightarrow> renders ts s \<Longrightarrow> renders (TStr raw # ts) (CHR 0x22 # raw @ CHR 0x22 # s)"
| r_num: "valid_number n \<Longrightarrow> list_all is_numchar n \<Longrightarrow> delimits s \<Longrightarrow> renders ts s \<Longrightarrow> renders (TNum n # ts) (n @ s)"

lemma valid_number_start: "valid_number n \<Longrightarrow> \<exists>c m. n = c # m \<and> (c = CHR ''-'' \<or> is_digit c)"
  by (cases n; cases "tl n") (auto simp: digits_then_def is_digit_def split: if_splits)

lemma takeWhile_delimits:
  assumes "list_all is_numchar n" and "delimits s"
  shows "takeWhile is_numchar (n @ s) = n" "dropWhile is_numchar (n @ s) = s"
  using assms by (cases s; auto simp: delimits_def list_all_iff)+

lemma lex_num:
  assumes "valid_number n" and "list_all is_numchar n" and "delimits s"
  shows "lex (n @ s) = consT (TNum n) (lex s)"
proof -
  obtain c m where n: "n = c # m" and c: "c = CHR ''-'' \<or> is_digit c"
    using valid_number_start [OF assms(1)] by blast
  have "\<not> is_space c" "c \<noteq> CHR 0x22" using c by (auto simp: is_space_def is_digit_def)
  moreover have "dropWhile is_numchar (m @ s) = s"
    using takeWhile_delimits(2) [of m s] assms(2,3) n by simp
  ultimately show ?thesis
    using assms(1) c takeWhile_delimits(1) [OF assms(2,3)] n
    by (simp add: lex.simps(2) Let_def del: valid_number.simps)
qed

lemma lex_fixed: "(p, t) \<in> set fixed_tokens \<Longrightarrow> lex (p @ s) = consT t (lex s)"
  unfolding fixed_tokens_def by (auto simp: lex.simps(2) is_space_def is_digit_def fixed_tokens_def)

theorem renders_lex: "renders ts s \<Longrightarrow> lex s = Some ts"
proof (induction rule: renders.induct)
  case (r_str raw ts s)
  then show ?case by (simp add: lex.simps(2) is_space_def scannable_def consT_def)
qed (simp_all add: lex.simps(2) lex_fixed lex_num consT_def)

section \<open>Both printers render the tokens of the value\<close>

fun tok_commas :: "tok list list \<Rightarrow> tok list" where
  "tok_commas [] = []"
| "tok_commas [x] = x"
| "tok_commas (x # y # ys) = x @ TComma # tok_commas (y # ys)"

definition tok_field :: "string \<times> tok list \<Rightarrow> tok list" where
  "tok_field kt = TStr (json_chars (fst kt)) # TColon # snd kt"

fun json_tokens :: "json \<Rightarrow> tok list" where
  "json_tokens JNull = [TNull]"
| "json_tokens (JBool b) = [TBool b]"
| "json_tokens (JNum s) = [TNum s]"
| "json_tokens (JStr s) = [TStr (json_chars s)]"
| "json_tokens (JArr xs) = TLBrack # tok_commas (map json_tokens xs) @ [TRBrack]"
| "json_tokens (JObj kvs) = TLBrace # tok_commas (map tok_field (map (\<lambda>(k, v). (k, json_tokens v)) kvs)) @ [TRBrace]"
| "json_tokens (JMap kvs) =
     TLBrace # tok_commas (map tok_field (sort_keys (map (\<lambda>(k, v). (k, json_tokens v)) kvs))) @ [TRBrace]"

fun json_numbers :: "json \<Rightarrow> bool" where
  "json_numbers (JNum s) \<longleftrightarrow> valid_number s \<and> list_all is_numchar s"
| "json_numbers (JArr xs) \<longleftrightarrow> (\<forall>x\<in>set xs. json_numbers x)"
| "json_numbers (JObj kvs) \<longleftrightarrow> (\<forall>kv\<in>set kvs. json_numbers (snd kv))"
| "json_numbers (JMap kvs) \<longleftrightarrow> (\<forall>kv\<in>set kvs. json_numbers (snd kv))"
| "json_numbers _ \<longleftrightarrow> True"

definition prints :: "tok list \<Rightarrow> string \<Rightarrow> bool" where
  "prints tk tx \<longleftrightarrow> (\<forall>ts s. renders ts s \<longrightarrow> delimits s \<longrightarrow> renders (tk @ ts) (tx @ s))"

named_theorems prints_intros \<open>texts that render given tokens before any continuation\<close>

subsection \<open>Strings\<close>

definition passes :: "string \<Rightarrow> bool" where
  "passes p \<longleftrightarrow> (\<forall>r. scan_string (p @ r) = prepend p (scan_string r))"

lemma prepend_simps [simp]:
  "prepend [] r = r" "prepend p (prepend q r) = prepend (p @ q) r" "prepend p (Some (q, s)) = Some (p @ q, s)"
  by (cases r; auto simp: prepend_def)+

lemma passes_Nil: "passes []"
  by (simp add: passes_def)

lemma passes_append: "passes p \<Longrightarrow> passes q \<Longrightarrow> passes (p @ q)"
  by (simp add: passes_def)

lemma passes_Cons: "c \<noteq> CHR 0x22 \<Longrightarrow> c \<noteq> CHR 0x5C \<Longrightarrow> 32 \<le> (of_char c :: nat) \<Longrightarrow> passes p \<Longrightarrow> passes (c # p)"
  by (simp add: passes_def)

lemma passes_high: "\<forall>c\<in>set p. 128 \<le> (of_char c :: nat) \<Longrightarrow> passes p"
  by (induction p) (auto simp: passes_Nil intro!: passes_Cons)

lemma passes_escape: "is_escape e \<Longrightarrow> passes [CHR 0x5C, e]"
  by (simp add: passes_def)

lemma passes_escape_u:
  "is_hex h1 \<Longrightarrow> is_hex h2 \<Longrightarrow> is_hex h3 \<Longrightarrow> is_hex h4 \<Longrightarrow> passes (json_escape_u [h1, h2, h3, h4])"
  by (simp add: passes_def json_escape_u_def is_escape_def)

lemma of_char_char_of [simp]: "n < 256 \<Longrightarrow> (of_char (char_of n) :: nat) = n"
  by simp

lemma is_hex_digit: "is_hex (hex_digit n)"
  by (auto simp: is_hex_def is_digit_def hex_digit_def Let_def)

lemma of_char_quotes: "(of_char c :: nat) = 34 \<longleftrightarrow> c = CHR 0x22" "(of_char c :: nat) = 92 \<longleftrightarrow> c = CHR 0x5C"
  using of_char_eq_iff [of c "CHR 0x22", where 'a = nat] of_char_eq_iff [of c "CHR 0x5C", where 'a = nat] by simp_all

lemma passes_json_escape_ascii: "(of_char c :: nat) < 128 \<Longrightarrow> passes (json_escape_ascii c)"
  unfolding json_escape_ascii_def Let_def
  by (auto simp: is_escape_def of_char_quotes intro!: passes_escape passes_escape_u is_hex_digit passes_Cons passes_Nil)
    (auto simp: is_hex_def is_digit_def)

lemma is_cont_high: "is_cont b \<Longrightarrow> 128 \<le> b"
  by (simp add: is_cont_def)

lemma rune_size_high: "\<forall>b\<in>set (take (rune_size bs) bs). 128 \<le> b"
  by (cases bs rule: rune_size.cases) (auto dest: is_cont_high split: list.splits)

lemma rune_size_take: "rune_size bs \<noteq> 0 \<Longrightarrow> rune_size (take (rune_size bs) bs @ xs) = rune_size bs"
  by (cases bs rule: rune_size.cases) (auto split: list.splits if_splits)

lemma rune_size_append: "rune_size bs \<noteq> 0 \<Longrightarrow> rune_size (bs @ xs) = rune_size bs"
  by (cases bs rule: rune_size.cases) (auto split: list.splits if_splits)

lemma rune_size_length: "rune_size bs \<le> length bs"
  by (cases bs rule: rune_size.cases) (auto split: list.splits)

lemma passes_rune: "passes (take (rune_size (bytes_of s)) s)"
proof (rule passes_high, rule ballI)
  fix c assume "c \<in> set (take (rune_size (bytes_of s)) s)"
  then have "of_char c \<in> set (take (rune_size (bytes_of s)) (bytes_of s))"
    by (simp add: bytes_of_def take_map)
  then show "128 \<le> (of_char c :: nat)" using rune_size_high [of "bytes_of s"] by blast
qed

lemma passes_json_chars: "passes (json_chars s)"
proof (induction s rule: json_chars.induct)
  case (2 c cs)
  have u: "passes (json_escape_u ''fffd'')" "passes (json_escape_u ''2028'')" "passes (json_escape_u ''2029'')"
    by (auto intro!: passes_escape_u simp: is_hex_def is_digit_def)
  show ?case
    using 2 by (auto simp: Let_def simp del: take_Suc_Cons intro!: passes_append u passes_json_escape_ascii passes_rune)
qed (simp add: passes_Nil)

lemma scannable_json_chars: "scannable (json_chars s)"
  using passes_json_chars [of s] by (simp add: passes_def scannable_def)

subsection \<open>Layouts\<close>

lemma delimits_simps [simp]: "delimits []" "delimits (c # s) \<longleftrightarrow> \<not> is_numchar c"
  by (simp_all add: delimits_def)

lemma renders_spaces: "list_all is_space ws \<Longrightarrow> renders ts s \<Longrightarrow> renders ts (ws @ s)"
  by (induction ws) (auto intro: renders.r_space)

lemma renders_newline: "renders ts s \<Longrightarrow> renders ts (newline d @ s)"
  by (rule renders_spaces) (auto simp: newline_def is_space_def list_all_iff)

lemma renders_punctuation:
  "renders ts s \<Longrightarrow> renders (TComma # ts) (CHR '','' # s)" "renders ts s \<Longrightarrow> renders (TColon # ts) (CHR '':'' # s)"
  "renders ts s \<Longrightarrow> renders (TLBrack # ts) (CHR ''['' # s)" "renders ts s \<Longrightarrow> renders (TRBrack # ts) (CHR '']'' # s)"
  "renders ts s \<Longrightarrow> renders (TLBrace # ts) (CHR 0x7B # s)" "renders ts s \<Longrightarrow> renders (TRBrace # ts) (CHR 0x7D # s)"
  using renders.r_fixed [of "'',''" TComma] renders.r_fixed [of "'':''" TColon]
    renders.r_fixed [of "''[''" TLBrack] renders.r_fixed [of "'']''" TRBrack]
    renders.r_fixed [of "[CHR 0x7B]" TLBrace] renders.r_fixed [of "[CHR 0x7D]" TRBrace]
  by (simp_all add: fixed_tokens_def)

lemma numchar_punctuation [simp]:
  "\<not> is_numchar CHR '',''" "\<not> is_numchar CHR '']''" "\<not> is_numchar CHR 0x7D" "\<not> is_numchar CHR 0x0A"
  by (simp_all add: is_numchar_def is_digit_def)

lemma prints_literal: "prints [TNull] ''null''" "prints [TBool b] (if b then ''true'' else ''false'')"
  using renders.r_fixed [of "''null''" TNull] renders.r_fixed [of "''true''" "TBool True"]
    renders.r_fixed [of "''false''" "TBool False"]
  by (simp_all add: prints_def fixed_tokens_def)

lemma prints_num: "valid_number n \<Longrightarrow> list_all is_numchar n \<Longrightarrow> prints [TNum n] n"
  by (simp add: prints_def renders.r_num)

lemma renders_quote: "renders ts s \<Longrightarrow> renders (TStr (json_chars k) # ts) (json_quote k @ s)"
  using renders.r_str [OF scannable_json_chars] by (simp add: json_quote_def)

lemma prints_quote: "prints [TStr (json_chars k)] (json_quote k)"
  by (simp add: prints_def renders_quote)

lemma prints_field:
  assumes "prints tk tx"
  shows "prints (tok_field (k, tk)) (json_quote k @ CHR '':'' # tx)"
    and "prints (tok_field (k, tk)) (json_quote k @ CHR '':'' # CHR '' '' # tx)"
  using assms by (auto simp: prints_def tok_field_def is_space_def
      intro!: renders_quote renders_punctuation renders.r_space)

lemma prints_commas: "list_all2 prints tks txs \<Longrightarrow> prints (tok_commas tks) (json_commas txs)"
proof (induction tks arbitrary: txs rule: tok_commas.induct)
  case (3 x y ys)
  then obtain x' y' ys' where txs: "txs = x' # y' # ys'" by (auto simp: list_all2_Cons1)
  then show ?case using 3 by (simp add: prints_def renders_punctuation)
qed (auto simp: prints_def list_all2_Cons1)

lemma prints_items:
  "list_all2 prints tks txs \<Longrightarrow> prints (tok_commas tks) (json_items d txs)"
proof (induction tks arbitrary: txs rule: tok_commas.induct)
  case (3 x y ys)
  then obtain x' y' ys' where txs: "txs = x' # y' # ys'" by (auto simp: list_all2_Cons1)
  then show ?case using 3 by (simp add: prints_def renders_punctuation renders_newline)
qed (auto simp: prints_def list_all2_Cons1 renders_newline)

lemma prints_brackets:
  assumes "list_all2 prints tks txs"
  shows "prints (TLBrack # tok_commas tks @ [TRBrack]) (CHR ''['' # json_commas txs @ '']'')"
    and "prints (TLBrace # tok_commas tks @ [TRBrace]) (CHR 0x7B # json_commas txs @ [CHR 0x7D])"
  using prints_commas [OF assms] by (simp_all add: prints_def renders_punctuation)

lemma delimits_newline: "delimits (newline d @ s)"
  by (simp add: newline_def)

lemma prints_blocks:
  assumes "list_all2 prints tks txs"
  shows "prints (TLBrack # tok_commas tks @ [TRBrack]) (json_block d CHR ''['' CHR '']'' txs)"
    and "prints (TLBrace # tok_commas tks @ [TRBrace]) (json_block d CHR 0x7B CHR 0x7D txs)"
  using prints_items [OF assms, of "Suc d"] assms
  by (cases "txs = []"; simp add: prints_def json_block_def list_all2_Nil2
      renders_punctuation renders_newline delimits_newline)+

lemma list_all2_map_set: "(\<And>x. x \<in> set xs \<Longrightarrow> R (f x) (g x)) \<Longrightarrow> list_all2 R (map f xs) (map g xs)"
  by (simp add: list.rel_map list_all2_same)

lemma sort_keys_map: "sort_keys (map (\<lambda>(k, v). (k, f v)) kvs) = map (\<lambda>(k, v). (k, f v)) (sort_keys kvs)"
proof -
  have ins: "insort_key fst (k, f v) (map (\<lambda>(k, v). (k, f v)) xs) = map (\<lambda>(k, v). (k, f v)) (insort_key fst (k, v) xs)" for k v xs
    by (induction xs) auto
  show ?thesis by (induction kvs) (auto simp: sort_keys_def ins)
qed

lemma set_sort_keys [simp]: "set (sort_keys kvs) = set kvs"
  by (simp add: sort_keys_def)

theorem prints_json_text: "json_numbers v \<Longrightarrow> prints (json_tokens v) (json_text v)"
proof (induction v)
  case (JArr xs)
  then show ?case by (auto intro!: prints_brackets list_all2_map_set)
next
  case (JObj kvs)
  then show ?case
    by (force simp: json_fields_def case_prod_beta comp_def intro!: prints_brackets list_all2_map_set prints_field(1))
next
  case (JMap kvs)
  then show ?case
    by (force simp: json_fields_def case_prod_beta comp_def sort_keys_map
        intro!: prints_brackets list_all2_map_set prints_field(1))
qed (simp_all add: prints_literal prints_num prints_quote)

theorem prints_json_indent: "json_numbers v \<Longrightarrow> prints (json_tokens v) (json_indent d v)"
proof (induction v arbitrary: d)
  case (JArr xs)
  then show ?case by (auto intro!: prints_blocks list_all2_map_set)
next
  case (JObj kvs)
  then show ?case
    by (force simp: case_prod_beta comp_def intro!: prints_blocks list_all2_map_set prints_field(2))
next
  case (JMap kvs)
  then show ?case
    by (force simp: case_prod_beta comp_def sort_keys_map
        intro!: prints_blocks list_all2_map_set prints_field(2))
qed (simp_all add: prints_literal prints_num prints_quote)

section \<open>The parser reads the tokens of a value\<close>

fun raw_tree :: "json \<Rightarrow> jdata" where
  "raw_tree JNull = DNull"
| "raw_tree (JBool b) = DBool b"
| "raw_tree (JNum s) = DNum s"
| "raw_tree (JStr s) = DStr (json_chars s)"
| "raw_tree (JArr xs) = DArr (map raw_tree xs)"
| "raw_tree (JObj kvs) = DObj (map (\<lambda>(k, v). (json_chars k, raw_tree v)) kvs)"
| "raw_tree (JMap kvs) = DObj (map (\<lambda>(k, v). (json_chars k, v)) (sort_keys (map (\<lambda>(k, v). (k, raw_tree v)) kvs)))"

text \<open>The value nests at most \<open>n\<close> arrays and objects.\<close>

fun nests :: "nat \<Rightarrow> json \<Rightarrow> bool" where
  "nests n (JArr xs) \<longleftrightarrow> (case n of 0 \<Rightarrow> False | Suc m \<Rightarrow> \<forall>x\<in>set xs. nests m x)"
| "nests n (JObj kvs) \<longleftrightarrow> (case n of 0 \<Rightarrow> False | Suc m \<Rightarrow> \<forall>kv\<in>set kvs. nests m (snd kv))"
| "nests n (JMap kvs) \<longleftrightarrow> (case n of 0 \<Rightarrow> False | Suc m \<Rightarrow> \<forall>kv\<in>set kvs. nests m (snd kv))"
| "nests n _ \<longleftrightarrow> True"

definition reads :: "nat \<Rightarrow> tok list \<Rightarrow> jdata \<Rightarrow> bool" where
  "reads n tk v \<longleftrightarrow>
     (\<forall>m st ts. (m = BeginValue \<or> m = BeginValueOrEmpty) \<longrightarrow> length st + n \<le> maxNestingDepth \<longrightarrow>
        parse_run (m, st) (tk @ ts) = parse_run (EndValue v, st) ts)"

lemma readsD:
  "reads n tk v \<Longrightarrow> length st + n \<le> maxNestingDepth \<Longrightarrow> parse_run (BeginValue, st) (tk @ ts) = parse_run (EndValue v, st) ts"
  "reads n tk v \<Longrightarrow> length st + n \<le> maxNestingDepth \<Longrightarrow> parse_run (BeginValueOrEmpty, st) (tk @ ts) = parse_run (EndValue v, st) ts"
  by (simp_all add: reads_def)

lemma reads_atom:
  "reads n [TNull] DNull" "reads n [TBool b] (DBool b)" "reads n [TNum s] (DNum s)" "reads n [TStr s] (DStr s)"
  by (auto simp: reads_def)

text \<open>Where a first element or a further one may stand, the elements up to the closing bracket are read.\<close>

lemma reads_elements:
  assumes "list_all2 (reads n) tks vs" and "tks \<noteq> []" and "Suc (length st) + n \<le> maxNestingDepth"
    and "m = BeginValue \<or> m = BeginValueOrEmpty"
  shows "parse_run (m, FArr acc # st) (tok_commas tks @ TRBrack # ts) =
    parse_run (EndValue (DArr (rev acc @ vs)), st) ts"
  using assms
proof (induction tks arbitrary: vs m acc rule: tok_commas.induct)
  case (2 x)
  then obtain v where "vs = [v]" "reads n x v" by (auto simp: list_all2_Cons1)
  with 2 show ?case by (auto simp: readsD)
next
  case (3 x y ys)
  then obtain v vs' where vs: "vs = v # vs'" "reads n x v" "list_all2 (reads n) (y # ys) vs'"
    by (auto simp: list_all2_Cons1)
  have "parse_run (m, FArr acc # st) (tok_commas (x # y # ys) @ TRBrack # ts) =
      parse_run (BeginValue, FArr (v # acc) # st) (tok_commas (y # ys) @ TRBrack # ts)"
    using vs 3(4,5) by (auto simp: readsD)
  with "3.IH" [OF vs(3), of BeginValue "v # acc"] 3(4) vs(1) show ?case by simp
qed simp

lemma reads_array:
  assumes "list_all2 (reads n) tks vs"
  shows "reads (Suc n) (TLBrack # tok_commas tks @ [TRBrack]) (DArr vs)"
proof (cases "tks = []")
  case True
  with assms show ?thesis by (auto simp: reads_def push_frame_def)
next
  case False
  then show ?thesis
    using reads_elements [OF assms False, where m = BeginValueOrEmpty and acc = "[]"]
    by (auto simp: reads_def push_frame_def)
qed

lemma reads_members:
  assumes "list_all2 (rel_prod (=) (reads n)) kts kvs" and "kts \<noteq> []" and "Suc (length st) + n \<le> maxNestingDepth"
    and "m = BeginString \<or> m = BeginStringOrEmpty"
  shows "parse_run (m, FObj acc k0 # st) (tok_commas (map tok_field kts) @ TRBrace # ts) =
    parse_run (EndValue (DObj (rev acc @ map (\<lambda>(k, v). (json_chars k, v)) kvs)), st) ts"
  using assms
proof (induction kts arbitrary: kvs m acc k0)
  case (Cons kt kts)
  obtain k tk where kt: "kt = (k, tk)" by (cases kt)
  from Cons.prems(1) obtain v kvs' where kvs: "kvs = (k, v) # kvs'" "reads n tk v" "list_all2 (rel_prod (=) (reads n)) kts kvs'"
    by (auto simp: list_all2_Cons1 kt)
  show ?case
  proof (cases kts)
    case Nil
    with Cons.prems kvs show ?thesis by (auto simp: kt tok_field_def readsD)
  next
    case (Cons kt' kts')
    have "parse_run (m, FObj acc k0 # st) (tok_commas (map tok_field (kt # kts)) @ TRBrace # ts) =
        parse_run (BeginString, FObj ((json_chars k, v) # acc) [] # st) (tok_commas (map tok_field kts) @ TRBrace # ts)"
      using kvs Cons.prems by (auto simp: kt Cons tok_field_def readsD)
    with Cons.IH [OF kvs(3), of BeginString "(json_chars k, v) # acc" "[]"] Cons.prems kvs(1) Cons show ?thesis by simp
  qed
qed simp

lemma reads_object:
  assumes "list_all2 (rel_prod (=) (reads n)) kts kvs"
  shows "reads (Suc n) (TLBrace # tok_commas (map tok_field kts) @ [TRBrace]) (DObj (map (\<lambda>(k, v). (json_chars k, v)) kvs))"
proof (cases "kts = []")
  case True
  with assms show ?thesis by (auto simp: reads_def push_frame_def)
next
  case False
  then show ?thesis
    using reads_members [OF assms False, where m = BeginStringOrEmpty and acc = "[]" and ?k0.0 = "[]"]
    by (auto simp: reads_def push_frame_def)
qed

theorem reads_json: "nests n v \<Longrightarrow> reads n (json_tokens v) (raw_tree v)"
proof (induction v arbitrary: n)
  case (JArr xs)
  then show ?case by (cases n) (auto intro!: reads_array list_all2_map_set)
next
  case (JObj kvs)
  then obtain m where n: "n = Suc m" and kvs: "\<forall>kv\<in>set kvs. nests m (snd kv)" by (cases n) auto
  have "list_all2 (rel_prod (=) (reads m)) (map (\<lambda>(k, v). (k, json_tokens v)) kvs) (map (\<lambda>(k, v). (k, raw_tree v)) kvs)"
    using kvs JObj.IH by (force intro!: list_all2_map_set)
  from reads_object [OF this] show ?case by (simp add: n comp_def case_prod_unfold)
next
  case (JMap kvs)
  then obtain m where n: "n = Suc m" and kvs: "\<forall>kv\<in>set kvs. nests m (snd kv)" by (cases n) auto
  have "list_all2 (rel_prod (=) (reads m)) (map (\<lambda>(k, v). (k, json_tokens v)) (sort_keys kvs))
      (map (\<lambda>(k, v). (k, raw_tree v)) (sort_keys kvs))"
    using kvs JMap.IH by (force intro!: list_all2_map_set)
  from reads_object [OF this] show ?case by (simp add: n sort_keys_map)
qed (simp_all add: reads_atom)

lemma parse_renders:
  assumes "renders (json_tokens v) s" and "nests maxNestingDepth v"
  shows "json_parse s = Some (raw_tree v)"
  using reads_json [OF assms(2)] renders_lex [OF assms(1)] readsD(1) [of maxNestingDepth "json_tokens v" "raw_tree v" "[]" "[]"]
  by (simp add: json_parse_def parsed_value_def)

lemma prints_renders: "prints tk tx \<Longrightarrow> renders tk tx"
  unfolding prints_def using renders.r_end by (metis append_Nil2 delimits_simps(1))

theorem parse_text: "json_numbers v \<Longrightarrow> nests maxNestingDepth v \<Longrightarrow> json_parse (json_text v) = Some (raw_tree v)"
  by (intro parse_renders prints_renders prints_json_text)

theorem parse_indent: "json_numbers v \<Longrightarrow> nests maxNestingDepth v \<Longrightarrow> json_parse (json_indent d v) = Some (raw_tree v)"
  by (intro parse_renders prints_renders prints_json_indent)

section \<open>Strings survive quoting exactly when they are UTF-8\<close>

function utf8_valid :: "string \<Rightarrow> bool" where
  "utf8_valid [] = True"
| "utf8_valid (c # cs) =
     (if (of_char c :: nat) < 128 then utf8_valid cs
      else let n = rune_size (bytes_of (c # cs)) in n \<noteq> 0 \<and> utf8_valid (drop (n - 1) cs))"
  by pat_completeness auto
termination
  by (relation "measure length") auto

lemma hex_value_digit: "hex_value (hex_digit n) = n mod 16"
  by (auto simp: hex_value_def hex_digit_def Let_def)

lemma hex_zero: "is_hex CHR ''0''" "hex_value CHR ''0'' = 0"
  by (simp_all add: is_hex_def is_digit_def hex_value_def)

lemma unquote_escape_u:
  assumes "is_hex h1" "is_hex h2" "is_hex h3" "is_hex h4"
    and "r = ((hex_value h1 * 16 + hex_value h2) * 16 + hex_value h3) * 16 + hex_value h4" and "r < 55296"
  shows "unquote (json_escape_u [h1, h2, h3, h4] @ s) = utf8_EncodeRune r @ unquote s"
  using assms by (simp add: json_escape_u_def unquote.simps(2) utf16_rune_def)

lemma unquote_escape_ascii:
  assumes "(of_char c :: nat) < 128"
  shows "unquote (json_escape_ascii c @ s) = c # unquote s"
proof -
  let ?n = "of_char c :: nat"
  have u: "unquote (json_escape_u [CHR ''0'', CHR ''0'', hex_digit (?n div 16), hex_digit (?n mod 16)] @ s) = c # unquote s"
    using assms by (subst unquote_escape_u [where r = ?n])
      (auto simp: is_hex_digit hex_value_digit hex_zero utf8_EncodeRune_def)
  have "?n = 8 \<longleftrightarrow> c = CHR 0x08" "?n = 12 \<longleftrightarrow> c = CHR 0x0C" "?n = 10 \<longleftrightarrow> c = CHR 0x0A" "?n = 13 \<longleftrightarrow> c = CHR 0x0D" "?n = 9 \<longleftrightarrow> c = CHR 0x09"
    using of_char_eq_iff [of c "CHR 0x08", where 'a = nat] of_char_eq_iff [of c "CHR 0x0C", where 'a = nat]
      of_char_eq_iff [of c "CHR 0x0A", where 'a = nat] of_char_eq_iff [of c "CHR 0x0D", where 'a = nat]
      of_char_eq_iff [of c "CHR 0x09", where 'a = nat] by simp_all
  then show ?thesis
    using assms u unfolding json_escape_ascii_def Let_def
    by (auto simp: of_char_quotes unquote.simps(2) escape_value_def is_escape_def)
qed

lemma unquote_rune:
  assumes "128 \<le> (of_char c :: nat)" and "n = rune_size (bytes_of (c # cs))" and "n \<noteq> 0"
  shows "unquote (take n (c # cs) @ s) = take n (c # cs) @ unquote s"
proof -
  obtain k where k: "n = Suc k" using assms(3) by (cases n) auto
  have "bytes_of (take n (c # cs) @ s) = take n (bytes_of (c # cs)) @ bytes_of s"
    by (simp only: bytes_of_def take_map map_append)
  then have "rune_size (bytes_of (c # take k cs @ s)) = n"
    using rune_size_take [of "bytes_of (c # cs)"] assms(2,3) by (simp add: k)
  moreover have "length (take k cs) = k"
    using rune_size_length [of "bytes_of (c # cs)"] assms(2) by (simp add: k bytes_of_def)
  moreover have "c \<noteq> CHR 0x5C" using assms(1) by auto
  ultimately show ?thesis using assms(1) by (simp add: k unquote.simps(2) Let_def)
qed

lemma rune_size_separator:
  "rune_size (bytes_of (CHR 0xE2 # CHR 0x80 # CHR 0xA8 # cs)) = 3" "rune_size (bytes_of (CHR 0xE2 # CHR 0x80 # CHR 0xA9 # cs)) = 3"
  by (simp_all add: bytes_of_def is_cont_def)

lemma unquote_separator:
  "unquote (json_escape_u ''2028'' @ s) = CHR 0xE2 # CHR 0x80 # CHR 0xA8 # unquote s"
  "unquote (json_escape_u ''2029'' @ s) = CHR 0xE2 # CHR 0x80 # CHR 0xA9 # unquote s"
proof -
  have "char_of (226 :: nat) = CHR 0xE2" "char_of (128 :: nat) = CHR 0x80" "char_of (168 :: nat) = CHR 0xA8" "char_of (169 :: nat) = CHR 0xA9"
    using char_of_char [of "CHR 0xE2", where 'a = nat] char_of_char [of "CHR 0x80", where 'a = nat]
      char_of_char [of "CHR 0xA8", where 'a = nat] char_of_char [of "CHR 0xA9", where 'a = nat] by simp_all
  then show "unquote (json_escape_u ''2028'' @ s) = CHR 0xE2 # CHR 0x80 # CHR 0xA8 # unquote s"
    "unquote (json_escape_u ''2029'' @ s) = CHR 0xE2 # CHR 0x80 # CHR 0xA9 # unquote s"
    by (simp_all add: unquote_escape_u is_hex_def is_digit_def hex_value_def utf8_EncodeRune_def)
qed

theorem unquote_json_chars: "utf8_valid s \<Longrightarrow> unquote (json_chars s) = s"
proof (induction s rule: json_chars.induct)
  case (2 c cs)
  show ?case
  proof (cases "(of_char c :: nat) < 128")
    case True
    with 2 show ?thesis by (simp add: unquote_escape_ascii)
  next
    case False
    define n where "n = rune_size (bytes_of (c # cs))"
    have n: "n \<noteq> 0" and valid: "utf8_valid (drop (n - 1) cs)"
      using "2.prems" False by (auto simp: n_def Let_def)
    have whole: "take n (c # cs) @ drop (n - 1) cs = c # cs"
      using n by (cases n) simp_all
    consider (ls) rest where "c # cs = CHR 0xE2 # CHR 0x80 # CHR 0xA8 # rest"
      | (ps) rest where "c # cs = CHR 0xE2 # CHR 0x80 # CHR 0xA9 # rest"
      | (other) "take 3 (c # cs) \<noteq> [CHR 0xE2, CHR 0x80, CHR 0xA8]" "take 3 (c # cs) \<noteq> [CHR 0xE2, CHR 0x80, CHR 0xA9]"
      by (metis append_take_drop_id append_Cons append_Nil)
    then show ?thesis
    proof cases
      case other
      then show ?thesis
        using "2.IH"(5) [OF False n_def] n valid False unquote_rune [OF _ n_def n] whole
        by (auto simp: Let_def n_def [symmetric])
    qed (use "2.IH" n valid False unquote_separator rune_size_separator in \<open>auto simp: n_def Let_def\<close>)
  qed
qed simp

text \<open>Whatever the scanner accepts, the unquoted text is UTF-8.\<close>

lemma utf8_valid_append: "utf8_valid p \<Longrightarrow> utf8_valid q \<Longrightarrow> utf8_valid (p @ q)"
proof (induction p rule: utf8_valid.induct)
  case (2 c cs)
  show ?case
  proof (cases "(of_char c :: nat) < 128")
    case False
    define n where "n = rune_size (bytes_of (c # cs))"
    have n: "n \<noteq> 0" "utf8_valid (drop (n - 1) cs)" "n \<le> Suc (length cs)"
      using "2.prems" False rune_size_length [of "bytes_of (c # cs)"] by (auto simp: n_def Let_def bytes_of_def)
    have "rune_size (bytes_of (c # cs @ q)) = n"
      using rune_size_append [of "bytes_of (c # cs)" "bytes_of q"] n(1) by (simp add: bytes_of_def n_def)
    then show ?thesis using False n "2.IH"(2) [OF False n_def] "2.prems"(2) by (simp add: Let_def)
  qed (use 2 in simp)
qed simp

lemma utf8_valid_take: "rune_size (bytes_of s) = n \<Longrightarrow> n \<noteq> 0 \<Longrightarrow> utf8_valid (take n s)"
proof (cases s)
  case (Cons c cs)
  assume n: "rune_size (bytes_of s) = n" "n \<noteq> 0"
  obtain k where k: "n = Suc k" using n(2) by (cases n) auto
  have "bytes_of (c # take k cs) = take n (bytes_of s) @ []" by (simp add: Cons k bytes_of_def take_map)
  then have "rune_size (bytes_of (c # take k cs)) = n" using rune_size_take [of "bytes_of s" "[]"] n by simp
  moreover have "128 \<le> (of_char c :: nat)" using rune_size_high [of "bytes_of s"] n by (simp add: Cons k bytes_of_def)
  ultimately show ?thesis by (simp add: Cons k)
qed (simp add: bytes_of_def)

lemma of_char_cont: "k < 64 \<Longrightarrow> (of_char (char_of (128 + k) :: char) :: nat) = 128 + k" "k < 64 \<Longrightarrow> is_cont (128 + k)"
  by (simp_all add: is_cont_def)

lemma base64_digits:
  fixes r :: nat
  obtains w x y z where "r = ((w * 64 + x) * 64 + y) * 64 + z" "x < 64" "y < 64" "z < 64"
    "r mod 64 = z" "r div 64 = (w * 64 + x) * 64 + y" "r div 64 mod 64 = y" "r div 4096 = w * 64 + x"
    "r div 4096 mod 64 = x" "r div 262144 = w"
proof -
  have e: "r div 4096 = r div 64 div 64" "r div 262144 = r div 64 div 64 div 64"
    by (simp_all add: div_mult2_eq [symmetric])
  have "r = (r div 64) * 64 + r mod 64" "r div 64 = (r div 64 div 64) * 64 + r div 64 mod 64"
    "r div 64 div 64 = (r div 64 div 64 div 64) * 64 + r div 64 div 64 mod 64" by simp_all
  then show ?thesis
    using that [of "r div 64 div 64 div 64" "r div 64 div 64 mod 64" "r div 64 mod 64" "r mod 64"]
    unfolding e by (metis mod_less_divisor zero_less_numeral)
qed

lemma utf8_valid_rune:
  assumes "r < 55296 \<or> 57343 < r \<and> r < 1114112"
  shows "utf8_valid (utf8_EncodeRune r)"
proof -
  obtain w x y z where d: "r = ((w * 64 + x) * 64 + y) * 64 + z" and lt: "x < 64" "y < 64" "z < 64"
    and e: "r mod 64 = z" "r div 64 = (w * 64 + x) * 64 + y" "r div 64 mod 64 = y" "r div 4096 = w * 64 + x"
      "r div 4096 mod 64 = x" "r div 262144 = w"
    by (rule base64_digits)
  have m: "((w * 64 + x) * 64 + y) mod 64 = y" "(w * 64 + x) mod 64 = x"
    using lt by (simp_all only: mod_mult_self3 mod_less)
  note c = of_char_cont [OF lt(1)] of_char_cont [OF lt(2)] of_char_cont [OF lt(3)]
  consider "r < 128" | "128 \<le> r" "r < 2048" | "2048 \<le> r" "r < 65536" | "65536 \<le> r" "r < 1114112"
    using assms by linarith
  then show ?thesis
  proof cases
    case 2
    then have "w < 1" "x < 1" "y < 32" unfolding d by simp_all
    moreover have "2 \<le> y" using 2(1) lt calculation unfolding d by simp
    ultimately show ?thesis using 2 c lt by (simp add: utf8_EncodeRune_def bytes_of_def e)
  next
    case 3
    then have "w < 1" "x < 16" unfolding d by simp_all
    moreover have "32 \<le> y" if "x = 0" using 3 lt that \<open>w < 1\<close> unfolding d by simp
    moreover have "y \<le> 31" if "x = 13" using assms 3 lt that \<open>w < 1\<close> unfolding d by simp
    ultimately show ?thesis using 3 c lt by (simp add: utf8_EncodeRune_def bytes_of_def e)
  next
    case 4
    then have "w \<le> 4" unfolding d by simp
    moreover have "16 \<le> x" if "w = 0" using 4 lt that unfolding d by simp
    moreover have "x \<le> 15" if "w = 4" using 4 lt that unfolding d by simp
    ultimately show ?thesis using 4 c unfolding utf8_EncodeRune_def e m by (simp add: bytes_of_def)
  qed (simp add: utf8_EncodeRune_def)
qed

lemma getu4_bound: "getu4 s = Some rr \<Longrightarrow> rr < 65536"
proof -
  have h: "hex_value c < 16" if "is_hex c" for c
    using that by (auto simp: is_hex_def is_digit_def hex_value_def Let_def)
  show "getu4 s = Some rr \<Longrightarrow> rr < 65536"
  proof (cases s rule: getu4.cases)
    case (1 a u h1 h2 h3 h4 rest)
    assume "getu4 s = Some rr"
    then have rr: "rr = ((hex_value h1 * 16 + hex_value h2) * 16 + hex_value h3) * 16 + hex_value h4"
      and "is_hex h1" "is_hex h2" "is_hex h3" "is_hex h4" by (auto simp: 1 split: if_splits)
    then show ?thesis using h [of h1] h [of h2] h [of h3] h [of h4] by simp
  qed simp_all
qed

lemma utf8_valid_utf16:
  assumes "rr < 65536"
  shows "utf8_valid (utf8_EncodeRune (fst (utf16_rune rr next)))"
  using assms by (intro utf8_valid_rune) (auto simp: utf16_rune_def split: option.splits)

theorem utf8_valid_unquote: "utf8_valid (unquote s)"
proof (induction s rule: unquote.induct)
  case (2 c cs)
  have esc_value: "(of_char (escape_value e) :: nat) < 128" if "is_escape e" for e
    using that unfolding is_escape_def by (simp, elim disjE) (simp_all add: escape_value_def)
  have rep: "utf8_valid replacement" unfolding replacement_def by (rule utf8_valid_rune) simp
  consider (esc_u) cs' where "c = CHR 0x5C" "cs = CHR ''u'' # cs'" | (esc) "c = CHR 0x5C" "\<nexists>cs'. cs = CHR ''u'' # cs'"
    | (ascii) "c \<noteq> CHR 0x5C" "(of_char c :: nat) < 128" | (high) "c \<noteq> CHR 0x5C" "\<not> (of_char c :: nat) < 128"
    by blast
  then show ?case
  proof cases
    case esc_u
    show ?thesis
    proof (cases "getu4 (c # cs)")
      case (Some rr)
      obtain r paired where r: "utf16_rune rr (getu4 (drop 4 cs')) = (r, paired)" by force
      have "utf8_valid (utf8_EncodeRune r)" using utf8_valid_utf16 [OF getu4_bound [OF Some]] r by (metis fst_conv)
      moreover have "utf8_valid (unquote (drop (if paired then 10 else 4) cs'))"
        by (rule 2(1) [OF esc_u(1,2) refl Some r [symmetric]])
      ultimately show ?thesis using esc_u Some r by (simp add: unquote.simps(2) utf8_valid_append)
    qed (use esc_u in \<open>simp add: unquote.simps(2)\<close>)
  next
    case esc
    then show ?thesis using 2(2) by (cases cs) (auto simp: unquote.simps(2) esc_value)
  next
    case ascii
    then show ?thesis using 2(3) by (simp add: unquote.simps(2))
  next
    case high
    then show ?thesis using 2(4,5) rep by (auto simp: unquote.simps(2) Let_def intro!: utf8_valid_append utf8_valid_take)
  qed
qed simp

end
