(* ===== verification/GoTime.thy ===== *)
theory GoTime
  imports GoJson "HOL-Library.Monad_Syntax"
begin

text \<open>
  \<open>Time.UnmarshalJSON\<close>: reading back the RFC 3339 form of a time.  The parser is the one of
  \<open>time.Parse\<close> with the layout \<open>time.RFC3339\<close>, which \<open>UnmarshalJSON\<close> falls back to (an hour of one
  digit, a decimal comma and an offset of 24 hours are accepted); a time is the instant it names, so
  the offset is not kept.

  The facts show that the civil calendar of \<open>civil_from_days\<close> is correct (\<open>civil_correct\<close>: valid month,
  valid day of that month, and the day number is recovered) and that a formatted time is read back
  (\<open>parse_rfc3339_nano\<close>).
\<close>

section \<open>The civil calendar\<close>

definition leap_year :: "int \<Rightarrow> bool" where
  "leap_year y \<longleftrightarrow> y mod 4 = 0 \<and> (y mod 100 \<noteq> 0 \<or> y mod 400 = 0)"

definition daysIn :: "int \<Rightarrow> int \<Rightarrow> int" where
  "daysIn m y = (if m = 2 then (if leap_year y then 29 else 28)
                 else if m = 4 \<or> m = 6 \<or> m = 9 \<or> m = 11 then 30 else 31)"

definition days_from_civil :: "int \<Rightarrow> int \<Rightarrow> int \<Rightarrow> int" where
  "days_from_civil y m d =
     (let y' = (if m \<le> 2 then y - 1 else y);
          era = y' div 400;
          yoe = y' mod 400;
          mp = (if 2 < m then m - 3 else m + 9);
          doy = (153 * mp + 2) div 5 + d - 1;
          doe = 365 * yoe + yoe div 4 - yoe div 100 + doy
      in era * 146097 + doe - 719468)"

section \<open>The parser\<close>

definition digit_value :: "char \<Rightarrow> nat" where
  "digit_value c = of_char c - 48"

definition atoi :: "string \<Rightarrow> nat" where
  "atoi s = foldl (\<lambda>a c. 10 * a + digit_value c) 0 s"

text \<open>\<open>getnum\<close>: two digits, or one digit where \<open>fixed\<close> does not forbid it.\<close>

fun getnum :: "bool \<Rightarrow> string \<Rightarrow> (nat \<times> string) option" where
  "getnum fixed [] = None"
| "getnum fixed (a # s) =
     (if \<not> is_digit a then None
      else case s of
             [] \<Rightarrow> if fixed then None else Some (digit_value a, [])
           | b # s' \<Rightarrow>
               if is_digit b then Some (10 * digit_value a + digit_value b, s')
               else if fixed then None else Some (digit_value a, s))"

definition get_year :: "string \<Rightarrow> (nat \<times> string) option" where
  "get_year s = (if 4 \<le> length s \<and> list_all is_digit (take 4 s) then Some (atoi (take 4 s), drop 4 s) else None)"

fun skip :: "char \<Rightarrow> string \<Rightarrow> string option" where
  "skip c [] = None"
| "skip c (x # s) = (if x = c then Some s else None)"

definition guard :: "bool \<Rightarrow> unit option" where
  "guard b = (if b then Some () else None)"

text \<open>The optional fraction of a second, in nanoseconds; digits beyond the ninth are dropped.\<close>

definition parseNanoseconds :: "string \<Rightarrow> nat" where
  "parseNanoseconds ds = atoi (take 9 ds) * 10 ^ (9 - length (take 9 ds))"

fun get_fraction :: "string \<Rightarrow> nat \<times> string" where
  "get_fraction (c # d # s) =
     (if (c = CHR ''.'' \<or> c = CHR '','') \<and> is_digit d
      then (parseNanoseconds (d # takeWhile is_digit s), dropWhile is_digit s)
      else (0, c # d # s))"
| "get_fraction s = (0, s)"

text \<open>The offset from UTC in seconds, which must end the text.\<close>

definition get_offset :: "string \<Rightarrow> int option" where
  "get_offset s =
     (if s = ''Z'' then Some 0
      else if length s = 6 \<and> s ! 3 = CHR '':'' then
        do { (hr, _) \<leftarrow> getnum True (take 2 (drop 1 s));
             (mm, _) \<leftarrow> getnum True (take 2 (drop 4 s));
             guard (hr \<le> 24 \<and> mm \<le> 60);
             if s ! 0 = CHR ''+'' then Some (int (hr * 60 + mm) * 60)
             else if s ! 0 = CHR ''-'' then Some (- (int (hr * 60 + mm) * 60))
             else None }
      else None)"

definition parse_rfc3339 :: "string \<Rightarrow> Time option" where
  "parse_rfc3339 s0 =
     do { (y, s1) \<leftarrow> get_year s0; s2 \<leftarrow> skip CHR ''-'' s1;
          (m, s3) \<leftarrow> getnum True s2; guard (1 \<le> m \<and> m \<le> 12); s4 \<leftarrow> skip CHR ''-'' s3;
          (d, s5) \<leftarrow> getnum True s4; s6 \<leftarrow> skip CHR ''T'' s5;
          (h, s7) \<leftarrow> getnum False s6; guard (h < 24); s8 \<leftarrow> skip CHR '':'' s7;
          (mi, s9) \<leftarrow> getnum True s8; guard (mi < 60); s10 \<leftarrow> skip CHR '':'' s9;
          (sec, s11) \<leftarrow> getnum True s10; guard (sec < 60);
          (let (ns, s12) = get_fraction s11 in
           do { off \<leftarrow> get_offset s12;
                guard (1 \<le> d \<and> int d \<le> daysIn (int m) (int y));
                Some ((days_from_civil (int y) (int m) (int d) * 86400 + int ((h * 60 + mi) * 60 + sec) - off) * 1000000000
                      + int ns) }) }"

section \<open>The calendar is correct\<close>

text \<open>
  A day of the 400-year era in centuries, four-year cycles, years and days; the last day of a leap
  year is the 366th.
\<close>

definition era_day :: "int \<Rightarrow> int \<Rightarrow> int \<Rightarrow> int \<Rightarrow> bool" where
  "era_day c q r k \<longleftrightarrow> 0 \<le> c \<and> c \<le> 3 \<and> 0 \<le> q \<and> q \<le> 24 \<and> 0 \<le> r \<and> r \<le> 3 \<and> 0 \<le> k \<and> k \<le> 365
     \<and> (k = 365 \<longrightarrow> r = 3 \<and> (q = 24 \<longrightarrow> c = 3))"

lemma era_day_exists:
  assumes "0 \<le> doe" and "doe < 146097"
  obtains c q r k where "era_day c q r k" "doe = 36524 * c + 1461 * q + 365 * r + k"
proof -
  define c where "c = min 3 (doe div 36524)"
  define d1 where "d1 = doe - 36524 * c"
  have c: "0 \<le> c" "c \<le> 3" "0 \<le> d1" "d1 \<le> 36524" "d1 = 36524 \<longrightarrow> c = 3"
    using assms unfolding c_def d1_def by (auto simp: min_def)
  define q where "q = d1 div 1461"
  define d2 where "d2 = d1 mod 1461"
  have q: "0 \<le> q" "q \<le> 24" "0 \<le> d2" "d2 \<le> 1460" "d1 = 1461 * q + d2"
    using c by (auto simp: q_def d2_def)
  define r where "r = min 3 (d2 div 365)"
  define k where "k = d2 - 365 * r"
  have r: "0 \<le> r" "r \<le> 3" "0 \<le> k" "k \<le> 365" "k = 365 \<longrightarrow> r = 3"
    using q unfolding k_def r_def by (auto simp: min_def)
  have "q = 24 \<longrightarrow> c = 3" if "k = 365"
    using that r q c by (auto simp: k_def)
  with c q r have "era_day c q r k" by (simp add: era_day_def)
  moreover have "doe = 36524 * c + 1461 * q + 365 * r + k" using q(5) by (simp add: d1_def k_def)
  ultimately show ?thesis by (rule that)
qed

lemma div_eqI: "b * q \<le> a \<Longrightarrow> a < b * (q + 1) \<Longrightarrow> 0 < b \<Longrightarrow> a div b = q" for a b q :: int
  by (rule int_div_pos_eq [where r = "a - b * q"]) (simp_all add: algebra_simps)

lemma era_year:
  assumes "era_day c q r k" and "doe = 36524 * c + 1461 * q + 365 * r + k"
  shows "(doe - doe div 1460 + doe div 36524 - doe div 146096) div 365 = 100 * c + 4 * q + r"
proof -
  note b = assms(1) [unfolded era_day_def]
  show ?thesis
  proof (cases "c = 3 \<and> q = 24 \<and> r = 3 \<and> k = 365")
    case True
    then show ?thesis using assms(2) by simp
  next
    case False
    have "doe < 146096" using b False assms(2) by linarith
    then have d0: "doe div 146096 = 0" using b assms(2) by simp
    have d1: "doe div 36524 = c" using b False assms(2) by (intro div_eqI) auto
    have "doe div 1460 = 25 * c + q \<or> doe div 1460 = 25 * c + q + 1 \<and> 269 \<le> k"
    proof (cases "24 * c + q + 365 * r + k < 1460")
      case True
      then have "doe div 1460 = 25 * c + q" using b assms(2) by (intro div_eqI) auto
      then show ?thesis ..
    next
      case ge: False
      then have "doe div 1460 = 25 * c + q + 1" using b assms(2) by (intro div_eqI) auto
      then show ?thesis using ge b by auto
    qed
    moreover have "k = 365 \<Longrightarrow> doe div 1460 \<noteq> 25 * c + q"
      using b assms(2) by (auto dest!: sym [of "doe div 1460"])
    ultimately show ?thesis unfolding d0 d1 using b assms(2) by (intro div_eqI) auto
  qed
qed

text \<open>The month (counted from March) and the day of a day of the year.\<close>

lemma month_day:
  fixes k :: int
  assumes "0 \<le> k" and "k \<le> 365" and "mp = (5 * k + 2) div 153" and "d = k - (153 * mp + 2) div 5 + 1"
    and "m = (if mp < 10 then mp + 3 else mp - 9)"
  shows "0 \<le> mp" and "mp \<le> 11" and "1 \<le> d" and "d \<le> (if m = 2 then (if k = 365 then 29 else 28)
     else if m = 4 \<or> m = 6 \<or> m = 9 \<or> m = 11 then 30 else 31)"
proof -
  show mp: "0 \<le> mp" "mp \<le> 11" using assms(1-3) by auto
  have lo: "153 * mp \<le> 5 * k + 2" and hi: "5 * k + 2 < 153 * mp + 153"
    using assms(3) by auto
  have "mp \<in> set [0..11]" using mp by simp
  then have "mp = 0 \<or> mp = 1 \<or> mp = 2 \<or> mp = 3 \<or> mp = 4 \<or> mp = 5 \<or> mp = 6 \<or> mp = 7 \<or> mp = 8 \<or> mp = 9 \<or> mp = 10 \<or> mp = 11"
    by (simp add: upto_rec_numeral upto.simps)
  then have "1 \<le> d \<and> d \<le> (if m = 2 then (if k = 365 then 29 else 28)
     else if m = 4 \<or> m = 6 \<or> m = 9 \<or> m = 11 then 30 else 31)"
    using lo hi assms(2,4,5) by (elim disjE) simp_all
  then show "1 \<le> d" "d \<le> (if m = 2 then (if k = 365 then 29 else 28)
     else if m = 4 \<or> m = 6 \<or> m = 9 \<or> m = 11 then 30 else 31)" by blast+
qed

lemma era_leap:
  assumes "era_day c q r 365" and "y = 100 * c + 4 * q + r + era * 400 + 1"
  shows "leap_year y"
proof -
  have "r = 3" "q = 24 \<longrightarrow> c = 3" "0 \<le> q" "q \<le> 24" "0 \<le> c" "c \<le> 3" using assms(1) by (auto simp: era_day_def)
  then have y: "y = 4 * (25 * c + q + 1 + 100 * era)" and y': "y = 100 * (c + 4 * era) + 4 * (q + 1)" using assms(2) by simp_all
  have "y mod 4 = 0" unfolding y by simp
  moreover have "y mod 400 = 0" if "q = 24" using that \<open>q = 24 \<longrightarrow> c = 3\<close> unfolding y by simp
  moreover have "y mod 100 = 4 * (q + 1)" if "q \<noteq> 24"
    using that \<open>0 \<le> q\<close> \<open>q \<le> 24\<close> unfolding y' by (subst mod_mult_self4) simp
  ultimately show ?thesis using \<open>0 \<le> q\<close> unfolding leap_year_def by (cases "q = 24") simp_all
qed

theorem civil_correct:
  assumes "civil_from_days z = (y, m, d)"
  shows "1 \<le> m \<and> m \<le> 12 \<and> 1 \<le> d \<and> d \<le> daysIn m y \<and> days_from_civil y m d = z"
proof -
  define era doe where "era = (z + 719468) div 146097" and "doe = (z + 719468) mod 146097"
  have "0 \<le> doe" "doe < 146097" by (simp_all add: doe_def)
  then obtain c q r k where b: "era_day c q r k" and doe: "doe = 36524 * c + 1461 * q + 365 * r + k"
    by (rule era_day_exists)
  define yoe where "yoe = 100 * c + 4 * q + r"
  have yoe: "(doe - doe div 1460 + doe div 36524 - doe div 146096) div 365 = yoe"
    using era_year [OF b doe] by (simp add: yoe_def)
  have parts: "yoe div 4 = 25 * c + q" "yoe div 100 = c" "0 \<le> yoe" "yoe < 400"
    using b unfolding era_day_def yoe_def by (auto intro!: div_eqI)
  have k: "doe - (365 * yoe + yoe div 4 - yoe div 100) = k"
    unfolding parts(1,2) by (simp add: doe yoe_def)
  define mp where "mp = (5 * k + 2) div 153"
  have k_range: "0 \<le> k" "k \<le> 365" using b by (auto simp: era_day_def)
  have civil: "m = (if mp < 10 then mp + 3 else mp - 9)" "d = k - (153 * mp + 2) div 5 + 1"
    "y = yoe + era * 400 + (if m \<le> 2 then 1 else 0)"
    using assms unfolding civil_from_days_def Let_def era_def [symmetric] doe_def [symmetric] yoe k mp_def [symmetric]
    by auto
  note month = month_day [OF k_range mp_def civil(2) civil(1)]
  have "leap_year y" if "k = 365" "m = 2"
    using era_leap [of c q r y era] b that civil(3) by (simp add: yoe_def)
  then have "d \<le> daysIn m y" using month(4) unfolding daysIn_def by (auto split: if_splits)
  moreover have "(if m \<le> 2 then y - 1 else y) = yoe + era * 400" using civil(3) by simp
  then have "(if m \<le> 2 then y - 1 else y) div 400 = era" "(if m \<le> 2 then y - 1 else y) mod 400 = yoe"
    using parts by simp_all
  moreover have "(if 2 < m then m - 3 else m + 9) = mp" using civil(1) month(1,2) by auto
  moreover have "1 \<le> m" "m \<le> 12" using civil(1) month(1,2) by auto
  moreover have "era * 146097 + doe = z + 719468" by (simp add: era_def doe_def)
  ultimately show ?thesis using k civil(2) month(3) unfolding days_from_civil_def Let_def by simp
qed

section \<open>A formatted time is read back\<close>

lemma is_digit_dec [simp]: "is_digit (dec_digit n)"
  by (simp add: is_digit_def dec_digit_def)

lemma digit_value_dec [simp]: "digit_value (dec_digit n) = n mod 10"
  by (simp add: digit_value_def dec_digit_def)

lemma length_pad_dec [simp]: "length (pad_dec k n) = k"
  by (induction k arbitrary: n) auto

lemma digits_pad_dec: "list_all is_digit (pad_dec k n)"
  by (induction k arbitrary: n) auto

lemma atoi_snoc: "atoi (s @ [c]) = 10 * atoi s + digit_value c"
  by (simp add: atoi_def)

lemma atoi_pad_dec: "atoi (pad_dec k n) = n mod 10 ^ k"
proof (induction k arbitrary: n)
  case (Suc k)
  have "n mod (10 * 10 ^ k) = 10 * (n div 10 mod 10 ^ k) + n mod 10" by (simp add: mod_mult2_eq)
  with Suc show ?case by (simp add: atoi_snoc)
qed (simp add: atoi_def)

lemma pad_dec_two: "pad_dec 2 n = [dec_digit (n div 10), dec_digit n]"
  by (simp add: numeral_2_eq_2)

lemma getnum_pad: "n < 100 \<Longrightarrow> getnum fixed (pad_dec 2 n @ s) = Some (n, s)"
  by (simp add: pad_dec_two)

lemma get_year_pad: "y < 10000 \<Longrightarrow> get_year (pad_dec 4 y @ s) = Some (y, s)"
  using digits_pad_dec [of 4 y] atoi_pad_dec [of 4 y] by (simp add: get_year_def)

lemma drop_zeros_replicate: "s = drop_zeros s @ replicate (length s - length (drop_zeros s)) CHR ''0''"
proof -
  let ?z = "takeWhile (\<lambda>c. c = CHR ''0'') (rev s)"
  have s: "s = drop_zeros s @ rev ?z"
    unfolding drop_zeros_def by (metis rev_append rev_rev_ident takeWhile_dropWhile_id)
  moreover have "rev ?z = replicate (length ?z) CHR ''0''"
    using replicate_length_same [of "rev ?z" "CHR ''0''"] set_takeWhileD [of _ "\<lambda>c. c = CHR ''0''" "rev s"] by fastforce
  moreover have "length s - length (drop_zeros s) = length ?z" using arg_cong [OF s, of length] by simp
  ultimately show ?thesis by metis
qed

lemma atoi_zeros: "atoi (s @ replicate k CHR ''0'') = atoi s * 10 ^ k"
proof (induction k)
  case (Suc k)
  have "s @ replicate (Suc k) CHR ''0'' = (s @ replicate k CHR ''0'') @ [CHR ''0'']"
    by (simp add: replicate_append_same)
  then show ?case using Suc by (simp only: atoi_snoc) (simp add: digit_value_def)
qed simp

lemma get_fraction_pad:
  fixes n :: nat
  assumes "n < 1000000000"
  defines "f \<equiv> drop_zeros (pad_dec 9 n)"
  shows "get_fraction ((if f = [] then [] else CHR ''.'' # f) @ ''Z'') = (n, ''Z'')"
proof -
  have split: "pad_dec 9 n = f @ replicate (9 - length f) CHR ''0''"
    using drop_zeros_replicate [of "pad_dec 9 n"] by (simp add: f_def)
  then have le: "length f \<le> 9" by (metis length_append length_pad_dec le_add1)
  have digits: "list_all is_digit f"
    using digits_pad_dec [of 9 n] unfolding split by simp
  have "atoi (pad_dec 9 n) = n" using assms(1) by (simp add: atoi_pad_dec)
  then have val: "atoi f * 10 ^ (9 - length f) = n" using split atoi_zeros [of f "9 - length f"] by simp
  show ?thesis
  proof (cases f)
    case Nil
    then show ?thesis using val by (simp add: atoi_def)
  next
    case (Cons d ds)
    have "takeWhile is_digit (ds @ ''Z'') = ds" "dropWhile is_digit (ds @ ''Z'') = ''Z''"
      using digits Cons by (auto simp: list_all_iff is_digit_def)
    then show ?thesis
      using digits le val by (simp add: Cons parseNanoseconds_def)
  qed
qed

theorem parse_rfc3339_nano:
  assumes "rfc3339_nano t = Some s"
  shows "parse_rfc3339 s = Some t"
proof -
  define secs nanos where "secs = t div 1000000000" and "nanos = t mod 1000000000"
  obtain y m d where civil: "civil_from_days (secs div 86400) = (y, m, d)" by (cases "civil_from_days (secs div 86400)")
  define sod where "sod = secs mod 86400"
  define h mi sec where "h = nat (sod div 3600)" and "mi = nat (sod div 60 mod 60)" and "sec = nat (sod mod 60)"
  have sod: "0 \<le> sod" "sod < 86400" by (simp_all add: sod_def)
  then have hms: "h < 24" "mi < 60" "sec < 60"
    by (auto simp: h_def mi_def sec_def nat_less_iff)
  have "sod div 3600 = sod div 60 div 60" by (simp add: div_mult2_eq [symmetric])
  then have "(sod div 3600 * 60 + sod div 60 mod 60) * 60 + sod mod 60 = sod" by simp
  then have hms_sod: "int ((h * 60 + mi) * 60 + sec) = sod"
    using pos_imp_zdiv_nonneg_iff [of 3600 sod] sod by (simp add: h_def mi_def sec_def)
  have y: "0 \<le> y" "y \<le> 9999" and s: "s = pad_dec 4 (nat y) @ ''-'' @ pad_dec 2 (nat m) @ ''-'' @ pad_dec 2 (nat d) @ ''T''
           @ pad_dec 2 h @ '':'' @ pad_dec 2 mi @ '':'' @ pad_dec 2 sec
           @ (if drop_zeros (pad_dec 9 (nat nanos)) = [] then [] else CHR ''.'' # drop_zeros (pad_dec 9 (nat nanos))) @ ''Z''"
    using assms unfolding rfc3339_nano_def Let_def secs_def [symmetric] nanos_def [symmetric] civil sod_def [symmetric]
      h_def [symmetric] mi_def [symmetric] sec_def [symmetric]
    by (auto split: if_splits)
  have cal: "1 \<le> m" "m \<le> 12" "1 \<le> d" "d \<le> daysIn m y" "days_from_civil y m d = secs div 86400"
    using civil_correct [OF civil] by auto
  have "d \<le> 31" using cal(4) by (auto simp: daysIn_def split: if_splits)
  have nm: "Suc 0 \<le> nat m" "nat m \<le> 12" "Suc 0 \<le> nat d" using cal by linarith+
  have n: "nat nanos < 1000000000" "0 \<le> nanos" by (simp_all add: nanos_def nat_less_iff)
  have t: "t = (secs div 86400 * 86400 + sod) * 1000000000 + nanos" by (simp add: secs_def nanos_def sod_def)
  have z: "get_offset ''Z'' = Some 0" by (simp add: get_offset_def)
  show ?thesis
    unfolding s parse_rfc3339_def
    using y cal nm hms hms_sod n t \<open>d \<le> 31\<close> get_fraction_pad [OF n(1)] z
    by (simp add: get_year_pad getnum_pad guard_def del: pad_dec.simps getnum.simps)
qed

end
