(* ===== verification/GoAssign.thy ===== *)
theory GoAssign
  imports GoTime
begin

text \<open>
  Assigning parsed JSON to Go values, as \<open>encoding/json\<close> does: a key is matched exactly or up to letter
  case, an unknown key is skipped (or refused where the decoder disallows it), \<open>null\<close> changes nothing
  (and empties a slice), a key that comes again overwrites, and a value of the wrong kind is an
  error.  A struct is decoded on top of what the variable holds, the elements of an array on top of
  the elements a former occurrence of the key has left.

  The locale \<open>codec\<close> is the contract of a decoder for the JSON form of a type; the \<open>inv\<close> lemmas carry a
  property of the fields through a decoder.
\<close>

section \<open>Assigning JSON to Go values\<close>

fun dec_string :: "jdata \<Rightarrow> string \<Rightarrow> string option" where
  "dec_string DNull old = Some old"
| "dec_string (DStr raw) old = Some (unquote raw)"
| "dec_string _ old = None"

fun dec_bool :: "jdata \<Rightarrow> bool \<Rightarrow> bool option" where
  "dec_bool DNull old = Some old"
| "dec_bool (DBool b) old = Some b"
| "dec_bool _ old = None"

fun dec_uint64 :: "jdata \<Rightarrow> 64 word \<Rightarrow> 64 word option" where
  "dec_uint64 DNull old = Some old"
| "dec_uint64 (DNum s) old =
     (if list_all is_digit s \<and> atoi s < 2 ^ 64 then Some (word_of_nat (atoi s)) else None)"
| "dec_uint64 _ old = None"

fun dec_time :: "jdata \<Rightarrow> Time \<Rightarrow> Time option" where
  "dec_time DNull old = Some old"
| "dec_time (DStr raw) old = parse_rfc3339 raw"
| "dec_time _ old = None"

text \<open>
  \<open>foldName\<close>, up to the letters outside ASCII: the ASCII letters are raised, and of the letters beyond
  ASCII the two that fold to an ASCII letter (U+017F, bytes C5 BF, and U+212A, bytes E2 84 AA).
\<close>

definition ascii_upper :: "char \<Rightarrow> char" where
  "ascii_upper c = (let n = (of_char c :: nat) in if 97 \<le> n \<and> n \<le> 122 then char_of (n - 32) else c)"

fun fold_name :: "string \<Rightarrow> string" where
  "fold_name [] = []"
| "fold_name (a # s) =
     (if a = CHR 0xC5 \<and> take 1 s = [CHR 0xBF] then CHR ''S'' # fold_name (drop 1 s)
      else if a = CHR 0xE2 \<and> take 2 s = [CHR 0x84, CHR 0xAA] then CHR ''K'' # fold_name (drop 2 s)
      else ascii_upper a # fold_name s)"

type_synonym 'r setter = "jdata \<Rightarrow> 'r \<Rightarrow> 'r option"

definition find_field :: "(string \<times> 'f) list \<Rightarrow> string \<Rightarrow> 'f option" where
  "find_field fs key =
     (case map_of fs key of
        Some f \<Rightarrow> Some f
      | None \<Rightarrow> map_of (map (apfst fold_name) fs) (fold_name key))"

text \<open>The value of a member may be a parsed value or the text of one.\<close>

fun dec_members ::
  "bool \<Rightarrow> (string \<times> ('v \<Rightarrow> 'r \<Rightarrow> 'r option)) list \<Rightarrow> (string \<times> 'v) list \<Rightarrow> 'r \<Rightarrow> 'r option" where
  "dec_members strict fs [] r = Some r"
| "dec_members strict fs ((raw, v) # kvs) r =
     (case find_field fs (unquote raw) of
        None \<Rightarrow> if strict then None else dec_members strict fs kvs r
      | Some f \<Rightarrow> Option.bind (f v r) (dec_members strict fs kvs))"

fun dec_struct :: "bool \<Rightarrow> (string \<times> 'r setter) list \<Rightarrow> 'r setter" where
  "dec_struct strict fs DNull r = Some r"
| "dec_struct strict fs (DObj kvs) r = dec_members strict fs kvs r"
| "dec_struct strict fs _ r = None"

fun dec_elements :: "'r setter \<Rightarrow> 'r \<Rightarrow> jdata list \<Rightarrow> 'r list \<Rightarrow> 'r list option" where
  "dec_elements dec zero [] olds = Some []"
| "dec_elements dec zero (v # vs) olds =
     Option.bind (dec v (case olds of [] \<Rightarrow> zero | r # _ \<Rightarrow> r)) (\<lambda>x.
       map_option (Cons x) (dec_elements dec zero vs (tl olds)))"

text \<open>
  A slice: \<open>None\<close> is the nil slice.  The elements that a shorter occurrence of the key has cut off stay in
  the array behind a Go slice, and a third occurrence would be decoded on top of them; here they are
  gone.
\<close>

fun dec_slice :: "'r setter \<Rightarrow> 'r \<Rightarrow> jdata \<Rightarrow> 'r list option \<Rightarrow> 'r list option option" where
  "dec_slice dec zero DNull old = Some None"
| "dec_slice dec zero (DArr vs) old =
     map_option Some (dec_elements dec zero vs (case old of None \<Rightarrow> [] | Some rs \<Rightarrow> rs))"
| "dec_slice dec zero _ old = None"

definition field ::
  "('v \<Rightarrow> 'a \<Rightarrow> 'a option) \<Rightarrow> ('r \<Rightarrow> 'a) \<Rightarrow> ('a \<Rightarrow> 'r \<Rightarrow> 'r) \<Rightarrow> 'v \<Rightarrow> 'r \<Rightarrow> 'r option" where
  "field dec get put v r = map_option (\<lambda>x. put x r) (dec v (get r))"

section \<open>Facts\<close>

declare json_chars.simps(2) [simp del]

lemma dec_members_Cons:
  "utf8_valid k \<Longrightarrow> map_of fs k = Some f \<Longrightarrow>
     dec_members strict fs ((json_chars k, v) # kvs) r = Option.bind (f v r) (dec_members strict fs kvs)"
  by (simp add: unquote_json_chars find_field_def)

lemma dec_string_chars: "utf8_valid s \<Longrightarrow> dec_string (DStr (json_chars s)) old = Some s"
  by (simp add: unquote_json_chars)

lemma nests_mono: "nests n v \<Longrightarrow> n \<le> m \<Longrightarrow> nests m v"
proof (induction v arbitrary: n m)
  case (JArr xs)
  from JArr.prems obtain n' m' where nm: "n = Suc n'" "m = Suc m'" "n' \<le> m'" by (cases n; cases m) auto
  have "nests m' x" if "x \<in> set xs" for x
    by (rule JArr.IH [OF that, of n' m']) (use that JArr.prems nm in auto)
  with nm show ?case by simp
next
  case (JObj kvs)
  from JObj.prems obtain n' m' where nm: "n = Suc n'" "m = Suc m'" "n' \<le> m'" by (cases n; cases m) auto
  have "nests m' (snd kv)" if "kv \<in> set kvs" for kv
    by (rule JObj.IH [OF that, of "snd kv" n' m']) (use that JObj.prems nm in \<open>auto simp: snds.simps\<close>)
  with nm show ?case by simp
next
  case (JMap kvs)
  from JMap.prems obtain n' m' where nm: "n = Suc n'" "m = Suc m'" "n' \<le> m'" by (cases n; cases m) auto
  have "nests m' (snd kv)" if "kv \<in> set kvs" for kv
    by (rule JMap.IH [OF that, of "snd kv" n' m']) (use that JMap.prems nm in \<open>auto simp: snds.simps\<close>)
  with nm show ?case by simp
qed simp_all

subsection \<open>The index\<close>

lemma digits_nat_dec: "list_all is_digit (nat_dec n)"
  by (induction n rule: nat_dec.induct) (subst nat_dec.simps, simp)

lemma atoi_nat_dec: "atoi (nat_dec n) = n"
proof (induction n rule: nat_dec.induct)
  case (1 n)
  then show ?case by (subst nat_dec.simps) (simp add: atoi_snoc atoi_def [of "[_]"])
qed

lemma hd_nat_dec: "n \<noteq> 0 \<Longrightarrow> hd (nat_dec n) \<noteq> CHR ''0''"
proof (induction n rule: nat_dec.induct)
  case (1 n)
  have "dec_digit n \<noteq> CHR ''0''" if "n < 10"
  proof
    assume "dec_digit n = CHR ''0''"
    then have "digit_value (dec_digit n) = digit_value CHR ''0''" by simp
    then show False using that \<open>n \<noteq> 0\<close> by (simp add: digit_value_def [of "CHR ''0''"])
  qed
  then show ?case using 1 by (subst nat_dec.simps) (auto simp: hd_append)
qed

lemma valid_number_nat_dec: "valid_number (nat_dec n) \<and> list_all is_numchar (nat_dec n)"
proof
  show "list_all is_numchar (nat_dec n)"
    using digits_nat_dec [of n] by (auto simp: list_all_iff is_numchar_def)
  obtain c s where cs: "nat_dec n = c # s" by (cases "nat_dec n") auto
  have d: "is_digit c" "\<forall>x\<in>set s. is_digit x" using digits_nat_dec [of n] by (auto simp: cs list_all_iff)
  then have nil: "dropWhile is_digit (c # s) = []" by simp
  have minus: "c \<noteq> CHR ''-''" using d(1) by (auto simp: is_digit_def)
  show "valid_number (nat_dec n)"
  proof (cases "n = 0")
    case True
    have "nat_dec 0 = ''0''" using char_of_char [of "CHR ''0''", where 'a = nat] by (simp add: nat_dec.simps dec_digit_def)
    with True show ?thesis by simp
  next
    case False
    then have "c \<noteq> CHR ''0''" using hd_nat_dec [of n] by (simp add: cs)
    then show ?thesis using minus d(1) unfolding cs by (simp add: digits_then_def nil del: dropWhile.simps)
  qed
qed

lemma dec_uint64_nat_dec: "dec_uint64 (DNum (nat_dec (unat i))) old = Some i"
  using digits_nat_dec [of "unat i"] unsigned_less [of i] by (simp add: atoi_nat_dec)

subsection \<open>The contract of a codec\<close>

locale codec =
  fixes enc :: "'a \<Rightarrow> json" and dec :: "'a setter" and zero :: 'a and ok :: "'a \<Rightarrow> bool" and depth :: nat
  assumes dec_enc: "ok x \<Longrightarrow> dec (raw_tree (enc x)) zero = Some x"
    and enc_numbers: "ok x \<Longrightarrow> json_numbers (enc x)"
    and enc_nests: "ok x \<Longrightarrow> nests depth (enc x)"
begin

lemma dec_elements_enc: "list_all ok xs \<Longrightarrow> dec_elements dec zero (map (raw_tree \<circ> enc) xs) [] = Some xs"
  by (induction xs) (simp_all add: dec_enc)

lemma dec_slice_enc: "list_all ok xs \<Longrightarrow> dec_slice dec zero (raw_tree (JArr (map enc xs))) None = Some (Some xs)"
  using dec_elements_enc [of xs] by simp

lemma array_numbers: "list_all ok xs \<Longrightarrow> json_numbers (JArr (map enc xs))"
  by (auto simp: list_all_iff enc_numbers)

lemma array_nests: "list_all ok xs \<Longrightarrow> nests (Suc depth) (JArr (map enc xs))"
  by (auto simp: list_all_iff enc_nests)

lemma read_indent:
  assumes "list_all ok xs" and "Suc depth \<le> maxNestingDepth"
  shows "Option.bind (json_parse (json_indent 0 (JArr (map enc xs)))) (\<lambda>v. dec_slice dec zero v None) = Some (Some xs)"
  using parse_indent [OF array_numbers [OF assms(1)] nests_mono [OF array_nests [OF assms(1)] assms(2)]]
    dec_slice_enc [OF assms(1)] by (simp only: Option.bind.simps)

lemma read_text:
  assumes "ok x" and "depth \<le> maxNestingDepth"
  shows "Option.bind (json_parse (json_text (enc x))) (\<lambda>v. dec v zero) = Some x"
  using parse_text [OF enc_numbers [OF assms(1)] nests_mono [OF enc_nests [OF assms(1)] assms(2)]] dec_enc [OF assms(1)]
  by (simp only: Option.bind.simps)

lemma text_inj:
  assumes "ok x" and "ok y" and "depth \<le> maxNestingDepth" and "json_text (enc x) = json_text (enc y)"
  shows "x = y"
  using read_text [OF assms(1,3)] read_text [OF assms(2,3)] unfolding assms(4) by (metis option.inject)

end

subsection \<open>What a decoder preserves\<close>

lemma find_field_set: "find_field fs k = Some f \<Longrightarrow> f \<in> snd ` set fs"
  by (auto simp: find_field_def dest!: map_of_SomeD split: option.splits) (force simp: image_iff)+

lemma dec_members_inv:
  assumes "\<forall>f\<in>snd ` set fs. \<forall>v r r'. P r \<longrightarrow> f v r = Some r' \<longrightarrow> P r'"
  shows "dec_members strict fs kvs r = Some r' \<Longrightarrow> P r \<Longrightarrow> P r'"
  using assms
proof (induction strict fs kvs r rule: dec_members.induct)
  case (2 strict fs raw v kvs r)
  show ?case
  proof (cases "find_field fs (unquote raw)")
    case None
    with 2 show ?thesis by (auto split: if_splits)
  next
    case (Some f)
    with "2.prems"(1) obtain r'' where r'': "f v r = Some r''" "dec_members strict fs kvs r'' = Some r'"
      by (auto simp: bind_eq_Some_conv)
    then have "P r''" using "2.prems"(2,3) find_field_set [OF Some] by blast
    with "2.IH"(2) [OF Some r''] "2.prems"(3) show ?thesis by blast
  qed
qed simp

lemma dec_struct_inv:
  assumes "\<forall>f\<in>snd ` set fs. \<forall>v r r'. P r \<longrightarrow> f v r = Some r' \<longrightarrow> P r'"
  shows "dec_struct strict fs v r = Some r' \<Longrightarrow> P r \<Longrightarrow> P r'"
  by (cases v) (auto intro: dec_members_inv [OF assms])

lemma dec_elements_inv:
  assumes "\<And>v r r'. P r \<Longrightarrow> dec v r = Some r' \<Longrightarrow> P r'" and "P zero"
  shows "dec_elements dec zero vs olds = Some rs \<Longrightarrow> list_all P olds \<Longrightarrow> list_all P rs"
proof (induction vs arbitrary: rs olds)
  case (Cons v vs)
  then obtain x xs where x: "dec v (case olds of [] \<Rightarrow> zero | r # _ \<Rightarrow> r) = Some x"
    and xs: "dec_elements dec zero vs (tl olds) = Some xs" "rs = x # xs"
    by (auto simp: bind_eq_Some_conv)
  have "P (case olds of [] \<Rightarrow> zero | r # _ \<Rightarrow> r)" using Cons.prems(2) assms(2) by (cases olds) auto
  with x assms(1) have "P x" by blast
  moreover have "list_all P xs" using Cons.IH [OF xs(1)] Cons.prems(2) by (cases olds) auto
  ultimately show ?case by (simp add: xs(2))
qed simp

lemma dec_string_utf8: "dec_string v old = Some s \<Longrightarrow> utf8_valid old \<Longrightarrow> utf8_valid s"
  by (cases v) (auto simp: utf8_valid_unquote)

lemma field_inv:
  assumes "\<And>v x x'. dec v x = Some x' \<Longrightarrow> Q x \<Longrightarrow> Q x'" and "\<And>r. P r \<Longrightarrow> Q (get r)" and "\<And>r x. P r \<Longrightarrow> Q x \<Longrightarrow> P (put x r)"
  shows "\<forall>v r r'. P r \<longrightarrow> field dec get put v r = Some r' \<longrightarrow> P r'"
proof (intro allI impI)
  fix v r r'
  assume "P r" and "field dec get put v r = Some r'"
  then obtain x where x: "dec v (get r) = Some x" "r' = put x r" by (auto simp: field_def)
  show "P r'" unfolding x(2) by (rule assms(3) [OF \<open>P r\<close> assms(1) [OF x(1) assms(2) [OF \<open>P r\<close>]]])
qed

lemmas string_field_inv = field_inv [where Q = utf8_valid, OF dec_string_utf8]
lemmas field_sets = list.set image_insert image_empty snd_conv ball_simps

end
