(* ===== verification/LedgerCodec.thy ===== *)
theory LedgerCodec
  imports LedgerChain GoAssign
begin

text \<open>
  The file form of a ledger: \<open>json.MarshalIndent(entries, "", "  ")\<close> and \<open>json.Unmarshal\<close> into a
  \<open>[]LedgerEntry\<close>.

  The contract \<open>codec\<close> is interpreted on the capability, the stage record and the ledger entry, and gives
  the round trip of a whole export.
\<close>

section \<open>The types of the ledger\<close>

definition capability_fields :: "(string \<times> CapabilityClass setter) list" where
  "capability_fields =
     [(''class'', field dec_string cc_Class (\<lambda>x r. r\<lparr>cc_Class := x\<rparr>)),
      (''scope'', field dec_string cc_Scope (\<lambda>x r. r\<lparr>cc_Scope := x\<rparr>)),
      (''action'', field dec_string cc_Action (\<lambda>x r. r\<lparr>cc_Action := x\<rparr>)),
      (''risk'', field dec_string cc_Risk (\<lambda>x r. r\<lparr>cc_Risk := x\<rparr>))]"

definition stage_fields :: "(string \<times> StageRecord setter) list" where
  "stage_fields =
     [(''stage'', field dec_string sr_Stage (\<lambda>x r. r\<lparr>sr_Stage := x\<rparr>)),
      (''passed'', field dec_bool sr_Passed (\<lambda>x r. r\<lparr>sr_Passed := x\<rparr>)),
      (''reason'', field dec_string sr_Reason (\<lambda>x r. r\<lparr>sr_Reason := x\<rparr>)),
      (''rule_ref'', field dec_string sr_RuleRef (\<lambda>x r. r\<lparr>sr_RuleRef := x\<rparr>))]"

definition zero_StageRecord :: StageRecord where
  "zero_StageRecord = \<lparr>sr_Stage = [], sr_Passed = False, sr_Reason = [], sr_RuleRef = []\<rparr>"

definition entry_fields :: "bool \<Rightarrow> (string \<times> LedgerEntry setter) list" where
  "entry_fields strict =
     [(''index'', field dec_uint64 le_Index (\<lambda>x r. r\<lparr>le_Index := x\<rparr>)),
      (''timestamp'', field dec_time le_Timestamp (\<lambda>x r. r\<lparr>le_Timestamp := x\<rparr>)),
      (''request_id'', field dec_string le_RequestID (\<lambda>x r. r\<lparr>le_RequestID := x\<rparr>)),
      (''intent_id'', field dec_string le_IntentID (\<lambda>x r. r\<lparr>le_IntentID := x\<rparr>)),
      (''tenant_id'', field dec_string le_TenantID (\<lambda>x r. r\<lparr>le_TenantID := x\<rparr>)),
      (''mlca_lane'', field dec_string le_MLCALane (\<lambda>x r. r\<lparr>le_MLCALane := x\<rparr>)),
      (''capability'', field (dec_struct strict capability_fields) le_Capability (\<lambda>x r. r\<lparr>le_Capability := x\<rparr>)),
      (''provider'', field dec_string le_Provider (\<lambda>x r. r\<lparr>le_Provider := x\<rparr>)),
      (''admitted'', field dec_bool le_Admitted (\<lambda>x r. r\<lparr>le_Admitted := x\<rparr>)),
      (''result'', field dec_string le_Result (\<lambda>x r. r\<lparr>le_Result := x\<rparr>)),
      (''reason'', field dec_string le_Reason (\<lambda>x r. r\<lparr>le_Reason := x\<rparr>)),
      (''rule_ref'', field dec_string le_RuleRef (\<lambda>x r. r\<lparr>le_RuleRef := x\<rparr>)),
      (''decision_id'', field dec_string le_DecisionID (\<lambda>x r. r\<lparr>le_DecisionID := x\<rparr>)),
      (''stage_log'', field (dec_slice (dec_struct strict stage_fields) zero_StageRecord) le_StageLog
                        (\<lambda>x r. r\<lparr>le_StageLog := x\<rparr>)),
      (''prev_hash'', field dec_string le_PrevHash (\<lambda>x r. r\<lparr>le_PrevHash := x\<rparr>)),
      (''hash'', field dec_string le_Hash (\<lambda>x r. r\<lparr>le_Hash := x\<rparr>)),
      (''replay_id'', field dec_string le_ReplayID (\<lambda>x r. r\<lparr>le_ReplayID := x\<rparr>)),
      (''execution_hash'', field dec_string le_ExecutionHash (\<lambda>x r. r\<lparr>le_ExecutionHash := x\<rparr>))]"

definition dec_entry :: "bool \<Rightarrow> LedgerEntry setter" where
  "dec_entry strict = dec_struct strict (entry_fields strict)"

text \<open>\<open>var entries []LedgerEntry; json.Unmarshal(data, &entries)\<close>: \<open>None\<close> is the error.\<close>

definition Unmarshal_entries :: "string \<Rightarrow> LedgerEntry list option" where
  "Unmarshal_entries data =
     do { v \<leftarrow> json_parse data;
          es \<leftarrow> dec_slice (dec_entry False) zero_LedgerEntry v None;
          Some (case es of None \<Rightarrow> [] | Some es' \<Rightarrow> es') }"

text \<open>\<open>json.MarshalIndent(entries, "", "  ")\<close>: fails if a time cannot be formatted.\<close>

definition entry_value :: "LedgerEntry \<Rightarrow> json option" where
  "entry_value e = map_option (\<lambda>ts. entry_json ts e) (rfc3339_nano (le_Timestamp e))"

definition MarshalIndent_entries :: "LedgerEntry list \<Rightarrow> string option" where
  "MarshalIndent_entries es = map_option (\<lambda>vs. json_indent 0 (JArr vs)) (those (map entry_value es))"

section \<open>Facts\<close>

declare json_chars.simps(2) [simp del]

subsection \<open>The three types\<close>

definition capability_utf8 :: "CapabilityClass \<Rightarrow> bool" where
  "capability_utf8 c \<longleftrightarrow> list_all utf8_valid [cc_Class c, cc_Scope c, cc_Action c, cc_Risk c]"

definition stage_utf8 :: "StageRecord \<Rightarrow> bool" where
  "stage_utf8 s \<longleftrightarrow> list_all utf8_valid [sr_Stage s, sr_Reason s, sr_RuleRef s]"

definition entry_utf8 :: "LedgerEntry \<Rightarrow> bool" where
  "entry_utf8 e \<longleftrightarrow>
     list_all utf8_valid [le_RequestID e, le_IntentID e, le_TenantID e, le_MLCALane e, le_Provider e, le_Result e,
       le_Reason e, le_RuleRef e, le_DecisionID e, le_PrevHash e, le_Hash e, le_ReplayID e, le_ExecutionHash e]
     \<and> capability_utf8 (le_Capability e)
     \<and> (case le_StageLog e of None \<Rightarrow> True | Some ss \<Rightarrow> list_all stage_utf8 ss)"

interpretation capability_codec: codec capability_json "dec_struct strict capability_fields" zero_CapabilityClass capability_utf8 1 for strict
proof
  fix c
  assume "capability_utf8 c"
  then show "dec_struct strict capability_fields (raw_tree (capability_json c)) zero_CapabilityClass = Some c"
    by (cases c) (simp add: capability_utf8_def capability_json_def capability_fields_def dec_members_Cons unquote_json_chars
        field_def zero_CapabilityClass_def del: dec_members.simps(2))
qed (simp_all add: capability_json_def)

interpretation stage_codec: codec stage_json "dec_struct strict stage_fields" zero_StageRecord stage_utf8 1 for strict
proof
  fix s
  assume "stage_utf8 s"
  then show "dec_struct strict stage_fields (raw_tree (stage_json s)) zero_StageRecord = Some s"
    by (cases s) (simp add: stage_utf8_def stage_json_def stage_fields_def dec_members_Cons unquote_json_chars
        field_def zero_StageRecord_def del: dec_members.simps(2))
qed (simp_all add: stage_json_def)

text \<open>A formatted time needs no escape, so its raw text is the text itself.\<close>

definition plain :: "char \<Rightarrow> bool" where
  "plain c \<longleftrightarrow> is_digit c \<or> c \<in> set ''-:T.Z''"

lemma json_chars_plain: "list_all plain s \<Longrightarrow> json_chars s = s"
proof (induction s)
  case (Cons c s)
  have "48 \<le> (of_char c :: nat) \<and> (of_char c :: nat) \<le> 58 \<or> c \<in> set ''-T.Z''"
    using Cons.prems by (auto simp: plain_def is_digit_def)
  then have "json_escape_ascii c = [c] \<and> (of_char c :: nat) < 128"
    by (auto simp: json_escape_ascii_def Let_def)
  with Cons show ?case by (simp add: json_chars.simps(2))
qed simp

lemma plain_rfc3339: "rfc3339_nano t = Some s \<Longrightarrow> list_all plain s"
proof -
  have p: "list_all plain (pad_dec k n)" for k n
    using digits_pad_dec [of k n] by (auto simp: list_all_iff plain_def)
  have z: "list_all plain (drop_zeros (pad_dec k n))" for k n
    using p [of k n] by (subst (asm) drop_zeros_replicate) simp
  show "rfc3339_nano t = Some s \<Longrightarrow> list_all plain s"
    unfolding rfc3339_nano_def Let_def
    by (auto simp del: pad_dec.simps simp: p z plain_def split: if_splits prod.splits)
qed

lemma dec_time_rfc3339: "rfc3339_nano t = Some ts \<Longrightarrow> dec_time (DStr (json_chars ts)) old = Some t"
  by (simp add: json_chars_plain [OF plain_rfc3339] parse_rfc3339_nano)

definition entry_enc :: "LedgerEntry \<Rightarrow> json" where
  "entry_enc e = entry_json (the (rfc3339_nano (le_Timestamp e))) e"

definition entry_ok :: "LedgerEntry \<Rightarrow> bool" where
  "entry_ok e \<longleftrightarrow> entry_utf8 e \<and> rfc3339_nano (le_Timestamp e) \<noteq> None"

lemma dec_stage_log:
  "(case ss0 of None \<Rightarrow> True | Some ss \<Rightarrow> list_all stage_utf8 ss) \<Longrightarrow>
     dec_slice (dec_struct strict stage_fields) zero_StageRecord
       (raw_tree (case ss0 of None \<Rightarrow> JNull | Some ss \<Rightarrow> JArr (map stage_json ss))) None = Some ss0"
  using stage_codec.dec_slice_enc [of "the ss0" strict] by (cases ss0) (simp_all del: dec_slice.simps(2) raw_tree.simps(5))

lemma dec_omitempty:
  assumes "utf8_valid k" and "map_of fs k = Some (field dec_string get put)" and "utf8_valid v"
    and "put [] r = r"
  shows "dec_members strict fs (map (\<lambda>(k, v). (json_chars k, raw_tree v)) (omitempty k v) @ kvs) r =
    dec_members strict fs kvs (put v r)"
  using assms by (simp add: omitempty_def dec_members_Cons field_def unquote_json_chars del: dec_members.simps(2))

lemma dec_entry_enc:
  assumes "entry_ok e"
  shows "dec_entry strict (raw_tree (entry_enc e)) zero_LedgerEntry = Some e"
proof -
  obtain ts where ts: "rfc3339_nano (le_Timestamp e) = Some ts" using assms by (auto simp: entry_ok_def)
  note utf8 = assms [unfolded entry_ok_def entry_utf8_def]
  have cap: "dec_struct strict capability_fields (raw_tree (capability_json (le_Capability e))) zero_CapabilityClass = Some (le_Capability e)"
    using utf8 by (intro capability_codec.dec_enc) simp
  have stages: "dec_slice (dec_struct strict stage_fields) zero_StageRecord
       (raw_tree (case le_StageLog e of None \<Rightarrow> JNull | Some ss \<Rightarrow> JArr (map stage_json ss))) None = Some (le_StageLog e)"
    using utf8 by (intro dec_stage_log) simp
  have top: "dec_entry strict (raw_tree (JObj kvs)) r =
      dec_members strict (entry_fields strict) (map (\<lambda>(k, v). (json_chars k, raw_tree v)) kvs) r" for kvs r
    by (simp add: dec_entry_def)
  show ?thesis
    using utf8 unfolding entry_enc_def ts entry_json_def zero_LedgerEntry_def top
    by (simp add: entry_fields_def dec_members_Cons dec_omitempty dec_omitempty [where kvs = "[]", simplified] field_def
        unquote_json_chars cap stages dec_uint64_nat_dec dec_time_rfc3339 [OF ts]
        del: dec_members.simps(2) dec_time.simps dec_uint64.simps dec_slice.simps dec_struct.simps)
qed

interpretation entry_codec: codec entry_enc "dec_entry strict" zero_LedgerEntry entry_ok 3 for strict
proof
  fix e
  assume e: "entry_ok e"
  show "dec_entry strict (raw_tree (entry_enc e)) zero_LedgerEntry = Some e" by (rule dec_entry_enc [OF e])
  have omit: "\<forall>kv\<in>set (omitempty k v). json_numbers (snd kv) \<and> nests n (snd kv)" for k v n by (simp add: omitempty_def)
  have "nests 1 (capability_json (le_Capability e))" "json_numbers (capability_json (le_Capability e))"
    using e capability_codec.enc_nests capability_codec.enc_numbers by (simp_all add: entry_ok_def entry_utf8_def)
  moreover have "nests 2 (case le_StageLog e of None \<Rightarrow> JNull | Some ss \<Rightarrow> JArr (map stage_json ss))"
    "json_numbers (case le_StageLog e of None \<Rightarrow> JNull | Some ss \<Rightarrow> JArr (map stage_json ss))"
    using stage_codec.array_nests stage_codec.array_numbers e
    by (auto simp: entry_ok_def entry_utf8_def numeral_2_eq_2 split: option.splits)
  ultimately show "json_numbers (entry_enc e)" and "nests 3 (entry_enc e)"
    using omit valid_number_nat_dec nests_mono [of 1 "capability_json (le_Capability e)" 2]
    by (auto simp: entry_enc_def entry_json_def numeral_3_eq_3 numeral_2_eq_2)
qed

lemma those_map: "those (map f xs) = (if list_all (\<lambda>x. f x \<noteq> None) xs then Some (map (the \<circ> f) xs) else None)"
  by (induction xs) (auto split: option.splits)

lemma MarshalIndent_entries_eq:
  "MarshalIndent_entries es =
     (if list_all (\<lambda>e. rfc3339_nano (le_Timestamp e) \<noteq> None) es then Some (json_indent 0 (JArr (map entry_enc es))) else None)"
proof -
  have some: "entry_value e = None \<longleftrightarrow> rfc3339_nano (le_Timestamp e) = None" for e by (simp add: entry_value_def)
  have the: "the (entry_value e) = entry_enc e" if "rfc3339_nano (le_Timestamp e) \<noteq> None" for e
    using that by (auto simp: entry_value_def entry_enc_def)
  have "map (the \<circ> entry_value) es = map entry_enc es" if "list_all (\<lambda>e. rfc3339_nano (le_Timestamp e) \<noteq> None) es"
    using that the by (auto simp: list_all_iff)
  then show ?thesis by (simp add: MarshalIndent_entries_def those_map some del: json_indent.simps map_eq_conv not_None_eq)
qed

lemma Unmarshal_MarshalIndent:
  assumes "MarshalIndent_entries es = Some data" and "list_all entry_utf8 es"
  shows "Unmarshal_entries data = Some es"
proof -
  have ok: "list_all entry_ok es" and data: "data = json_indent 0 (JArr (map entry_enc es))"
    using assms by (auto simp: MarshalIndent_entries_eq entry_ok_def list_all_iff split: if_splits simp del: json_indent.simps)
  have "Option.bind (json_parse data) (\<lambda>v. dec_slice (dec_entry False) zero_LedgerEntry v None) = Some (Some es)"
    unfolding data by (rule entry_codec.read_indent [OF ok]) (simp add: maxNestingDepth_def)
  then show ?thesis by (auto simp: Unmarshal_entries_def bind_eq_Some_conv)
qed

text \<open>Whatever a file holds, the strings read from it are UTF-8.\<close>

lemma capability_fields_utf8: "dec_struct strict capability_fields v c = Some c' \<Longrightarrow> capability_utf8 c \<Longrightarrow> capability_utf8 c'"
proof (rule dec_struct_inv [where P = capability_utf8 and fs = capability_fields])
  show "\<forall>f\<in>snd ` set capability_fields. \<forall>v r r'. capability_utf8 r \<longrightarrow> f v r = Some r' \<longrightarrow> capability_utf8 r'"
    unfolding capability_fields_def field_sets
    by (intro conjI TrueI string_field_inv) (simp_all add: capability_utf8_def)
qed

lemma stage_fields_utf8: "dec_struct strict stage_fields v s = Some s' \<Longrightarrow> stage_utf8 s \<Longrightarrow> stage_utf8 s'"
proof (rule dec_struct_inv [where P = stage_utf8 and fs = stage_fields])
  show "\<forall>f\<in>snd ` set stage_fields. \<forall>v r r'. stage_utf8 r \<longrightarrow> f v r = Some r' \<longrightarrow> stage_utf8 r'"
    unfolding stage_fields_def field_sets
    by (intro conjI TrueI string_field_inv field_inv [where dec = dec_bool and Q = "\<lambda>_. True"]) (simp_all add: stage_utf8_def)
qed

lemma stage_log_utf8:
  assumes "dec_slice (dec_struct strict stage_fields) zero_StageRecord v old = Some new"
    and "case old of None \<Rightarrow> True | Some ss \<Rightarrow> list_all stage_utf8 ss"
  shows "case new of None \<Rightarrow> True | Some ss \<Rightarrow> list_all stage_utf8 ss"
proof (cases v)
  case (DArr vs)
  have zero: "stage_utf8 zero_StageRecord" by (simp add: stage_utf8_def zero_StageRecord_def)
  from DArr assms(1) obtain ss where ss: "new = Some ss"
    and dec: "dec_elements (dec_struct strict stage_fields) zero_StageRecord vs (case old of None \<Rightarrow> [] | Some rs \<Rightarrow> rs) = Some ss"
    by auto
  have "list_all stage_utf8 (case old of None \<Rightarrow> [] | Some rs \<Rightarrow> rs)" using assms(2) by (cases old) auto
  then have "list_all stage_utf8 ss" using dec_elements_inv [where P = stage_utf8, OF _ zero dec] stage_fields_utf8 by blast
  with ss show ?thesis by simp
qed (use assms in auto)

lemma dec_entry_utf8: "dec_entry strict v e = Some e' \<Longrightarrow> entry_utf8 e \<Longrightarrow> entry_utf8 e'"
  unfolding dec_entry_def
proof (rule dec_struct_inv [where P = entry_utf8 and fs = "entry_fields strict"])
  show "\<forall>f\<in>snd ` set (entry_fields strict). \<forall>v r r'. entry_utf8 r \<longrightarrow> f v r = Some r' \<longrightarrow> entry_utf8 r'"
    unfolding entry_fields_def field_sets
    by (intro conjI TrueI string_field_inv field_inv [where dec = dec_bool and Q = "\<lambda>_. True"]
        field_inv [where dec = dec_uint64 and Q = "\<lambda>_. True"] field_inv [where dec = dec_time and Q = "\<lambda>_. True"]
        field_inv [where Q = capability_utf8, OF capability_fields_utf8] field_inv [OF stage_log_utf8])
      (simp_all add: entry_utf8_def)
qed

lemma Unmarshal_utf8: "Unmarshal_entries data = Some es \<Longrightarrow> list_all entry_utf8 es"
proof -
  have zero: "entry_utf8 zero_LedgerEntry"
    by (simp add: entry_utf8_def zero_LedgerEntry_def capability_utf8_def zero_CapabilityClass_def)
  assume "Unmarshal_entries data = Some es"
  then obtain v r where "dec_slice (dec_entry False) zero_LedgerEntry v None = Some r" and es: "es = (case r of None \<Rightarrow> [] | Some es' \<Rightarrow> es')"
    by (auto simp: Unmarshal_entries_def bind_eq_Some_conv)
  then show ?thesis
    using dec_elements_inv [where P = entry_utf8 and dec = "dec_entry False" and zero = zero_LedgerEntry and olds = "[]", OF dec_entry_utf8 zero]
    by (cases v) auto
qed

subsection \<open>The hash input determines the entry\<close>

lemma marshal_entry_inj:
  assumes "entry_ok e" and "entry_ok e'" and "marshal_entry e = marshal_entry e'"
  shows "e = e'"
proof -
  have "marshal_entry x = json_text (entry_enc x)" if "entry_ok x" for x
    using that by (auto simp: marshal_entry_def entry_enc_def entry_ok_def)
  from this [OF assms(1)] this [OF assms(2)] assms(3)
  have "json_text (entry_enc e) = json_text (entry_enc e')" by (simp only:)
  then show ?thesis
    by (rule entry_codec.text_inj [OF assms(1,2), rotated]) (simp add: maxNestingDepth_def)
qed

lemma hex_digit_inj: "a < 16 \<Longrightarrow> b < 16 \<Longrightarrow> hex_digit a = hex_digit b \<Longrightarrow> a = b"
  by (metis hex_value_digit mod_less)

lemma hex_EncodeToString_inj: "hex_EncodeToString xs = hex_EncodeToString ys \<Longrightarrow> xs = ys"
proof (induction xs arbitrary: ys)
  case Nil
  then show ?case by (cases ys) auto
next
  case (Cons x xs)
  then obtain y ys' where ys: "ys = y # ys'" by (cases ys) auto
  have b: "unat z div 16 < 16" for z :: byte using unsigned_less [of z] by (simp add: div_less_iff_less_mult)
  have "unat x div 16 = unat y div 16" "unat x mod 16 = unat y mod 16"
    using Cons.prems ys b hex_digit_inj [of "unat x div 16" "unat y div 16"] hex_digit_inj [of "unat x mod 16" "unat y mod 16"] by auto
  then have "unat x = unat y" by (metis mult_div_mod_eq)
  then show ?case using Cons ys by (simp add: word_unat_eq_iff)
qed

lemma map_byte_of_char_inj: "map byte_of_char xs = map byte_of_char ys \<Longrightarrow> xs = ys"
proof (rule map_inj_on [of byte_of_char])
  have "unat (byte_of_char c) = of_char c" for c
    by (simp add: byte_of_char_def unat_of_nat)
  then show "inj_on byte_of_char (set xs \<union> set ys)" by (metis inj_onI of_char_eq_iff)
qed

section \<open>Properties\<close>

text \<open>
  C25: the hash of an entry is computed from a text that determines everything in the entry but its two
  hash fields: entries (with UTF-8 strings and times that can be formatted) that differ elsewhere are
  hashed from different texts, so they have the same hash only if SHA-256 collides on those texts.
\<close>

theorem hash_binds_content:
  assumes "entry_ok (e :: LedgerEntry)" and "entry_ok (e' :: LedgerEntry)"
    and "e\<lparr>le_Hash := [], le_PrevHash := []\<rparr> \<noteq> e'\<lparr>le_Hash := [], le_PrevHash := []\<rparr>"
  shows "let m = map byte_of_char (marshal_entry (e\<lparr>le_Hash := [], le_PrevHash := []\<rparr>));
             m' = map byte_of_char (marshal_entry (e'\<lparr>le_Hash := [], le_PrevHash := []\<rparr>))
         in m \<noteq> m' \<and> (hashEntry e = hashEntry e' \<longleftrightarrow> sha256_Sum256 m = sha256_Sum256 m')"
proof -
  have ok: "entry_ok (x\<lparr>le_Hash := [], le_PrevHash := []\<rparr>)" if "entry_ok x" for x :: LedgerEntry
    using that by (simp add: entry_ok_def entry_utf8_def)
  have "marshal_entry (e\<lparr>le_Hash := [], le_PrevHash := []\<rparr>) \<noteq> marshal_entry (e'\<lparr>le_Hash := [], le_PrevHash := []\<rparr>)"
    using marshal_entry_inj [OF ok [OF assms(1)] ok [OF assms(2)]] assms(3) by blast
  then show ?thesis
    unfolding Let_def hashEntry_def sha256_hex_def using map_byte_of_char_inj hex_EncodeToString_inj by metis
qed

theorem hash_binds_content_witness:
  "marshal_entry (zero_LedgerEntry\<lparr>le_Timestamp := 0, le_Admitted := True\<rparr>) \<noteq> marshal_entry (zero_LedgerEntry\<lparr>le_Timestamp := 0\<rparr>)"
proof -
  have "rfc3339_nano 0 \<noteq> None" by code_simp
  then have "entry_ok (zero_LedgerEntry\<lparr>le_Timestamp := 0, le_Admitted := b\<rparr>)" for b
    by (simp add: entry_ok_def entry_utf8_def zero_LedgerEntry_def capability_utf8_def zero_CapabilityClass_def)
  from hash_binds_content [OF this [of True] this [of False]] show ?thesis
    by (auto simp: Let_def zero_LedgerEntry_def)
qed

end
