(* ===== verification/LedgerFile.thy ===== *)
theory LedgerFile
  imports Runtime LedgerCodec
begin

text \<open>
  Files: \<open>os.ReadFile\<close>, \<open>os.WriteFile\<close> and \<open>Ledger.ExportToFile\<close> of \<open>ledger.go\<close>.  A write is one action;
  it can fail before the file is opened or after some bytes (the file is truncated first).
\<close>

definition os_ReadFile :: "string \<Rightarrow> string option go" where
  "os_ReadFile path = gets (\<lambda>w. w_disk w path)"

text \<open>The result says whether the error is nil.\<close>

definition os_WriteFile :: "string \<Rightarrow> string \<Rightarrow> bool go" where
  "os_WriteFile path data =
     atomic (\<lambda>w. case w_write w (w_pos w) of
                   Written \<Rightarrow> (True, (tick w)\<lparr>w_disk := (w_disk w)(path \<mapsto> data)\<rparr>)
                 | NotOpened \<Rightarrow> (False, tick w)
                 | Partial n \<Rightarrow> (False, (tick w)\<lparr>w_disk := (w_disk w)(path \<mapsto> take n data)\<rparr>))"

datatype FileError = MarshalFailed | WriteFailed

definition ExportToFile :: "string \<Rightarrow> FileError option go" where
  "ExportToFile path =
     bindP ledger_Export (\<lambda>es.
       case MarshalIndent_entries es of
         None \<Rightarrow> Ret (Some MarshalFailed)
       | Some data \<Rightarrow> bindP (os_WriteFile path data) (\<lambda>ok. Ret (if ok then None else Some WriteFailed)))"

section \<open>Facts\<close>

lemma run_os_WriteFile:
  "run (os_WriteFile path data) w =
     (w_write w (w_pos w) = Written,
      (tick w)\<lparr>w_disk := (case w_write w (w_pos w) of
         Written \<Rightarrow> (w_disk w)(path \<mapsto> data) | NotOpened \<Rightarrow> w_disk w | Partial n \<Rightarrow> (w_disk w)(path \<mapsto> take n data))\<rparr>)"
  by (simp add: os_WriteFile_def run_simps tick_def split: WriteOutcome.splits)

section \<open>Properties\<close>

text \<open>
  An export that reports no error leaves a file from which another process reads back exactly the
  ledger's entries, and verifies them with the result the ledger's own verification gives; the ledger
  is not changed.  An export that reports an error changes no other file.
\<close>

lemma ExportToFile_faithful:
  assumes "list_all entry_utf8 (lg_entries (w_ledger w))"
  shows "let (err, w') = run (ExportToFile path) w in
    w_ledger w' = w_ledger w \<and> (\<forall>p. p = path \<or> w_disk w' p = w_disk w p) \<and>
    (if err = None
     then \<exists>data es. w_disk w' path = Some data \<and> Unmarshal_entries data = Some es
          \<and> es = Export (w_ledger w) \<and> VerifyExport es = Verify (w_ledger w)
     else err = Some (if MarshalIndent_entries (Export (w_ledger w)) = None then MarshalFailed else WriteFailed))"
proof (cases "MarshalIndent_entries (Export (w_ledger w))")
  case None
  then show ?thesis by (simp add: ExportToFile_def ledger_Export_def run_simps)
next
  case (Some data)
  have "Unmarshal_entries data = Some (Export (w_ledger w))"
    using Some assms by (intro Unmarshal_MarshalIndent) (simp_all add: Export_def)
  then show ?thesis
    using Some by (simp add: ExportToFile_def ledger_Export_def run_simps run_os_WriteFile tick_def Verify_VerifyExport
        split: WriteOutcome.splits)
qed

end
