(* ===== verification/Interleaving.thy ===== *)
theory Interleaving
  imports Prelude
begin

text \<open>
  Concurrent execution of programs: a pool of goroutines over one world.  A step either starts a new
  goroutine (a request arrives) or executes one atomic action of some goroutine; which one is not
  determined.  The goroutines come from a set of programs \<open>H\<close>.

  The locale \<open>pool_invariant\<close> is the interface between the programs and the pool: if every program of
  \<open>H\<close> keeps a predicate, so does every run of the pool, at every moment.
\<close>

section \<open>Definitions\<close>

type_synonym ('w, 'a) pool = "'w \<times> ('w, 'a) prog list"

inductive pool_step :: "('w, 'a) prog set \<Rightarrow> ('w, 'a) pool \<Rightarrow> ('w, 'a) pool \<Rightarrow> bool" for H where
  arrive: "p \<in> H \<Longrightarrow> pool_step H (w, ts) (w, ts @ [p])"
| execute: "i < length ts \<Longrightarrow> ts ! i = Act u k \<Longrightarrow> pool_step H (w, ts) (u w, ts[i := k w])"

inductive_simps pool_step_idle: "pool_step H (w, []) (w', ts')"

inductive pool_run :: "('w, 'a) prog set \<Rightarrow> ('w, 'a) pool \<Rightarrow> ('w, 'a) pool \<Rightarrow> bool" for H where
  start: "pool_run H s s"
| continue: "pool_run H s t \<Longrightarrow> pool_step H t v \<Longrightarrow> pool_run H s v"

text \<open>
  \<open>rg R Q p w\<close>: started in \<open>w\<close>, with other goroutines changing the world along \<open>R\<close> between its actions,
  every action of \<open>p\<close> moves along \<open>R\<close> too, and \<open>p\<close> returns only where \<open>Q\<close> holds of the value and of
  every world the others can reach from there.
\<close>

primrec rg :: "('w \<Rightarrow> 'w \<Rightarrow> bool) \<Rightarrow> ('a \<Rightarrow> 'w \<Rightarrow> bool) \<Rightarrow> ('w, 'a) prog \<Rightarrow> 'w \<Rightarrow> bool" where
  "rg R Q (Ret a) = (\<lambda>w. \<forall>w'. R w w' \<longrightarrow> Q a w')"
| "rg R Q (Act u k) = (\<lambda>w. \<forall>w'. R w w' \<longrightarrow> R w' (u w') \<and> rg R Q (k w') (u w'))"

section \<open>Facts\<close>

lemma pool_run_trans: "pool_run H t v \<Longrightarrow> pool_run H s t \<Longrightarrow> pool_run H s v"
  by (induction rule: pool_run.induct) (auto intro: pool_run.continue)

lemma pool_run_arrive: "p \<in> H \<Longrightarrow> pool_run H (w, ts) (w, ts @ [p])"
  by (blast intro: pool_run.intros pool_step.arrive)

lemma pool_run_mono: "pool_run H s t \<Longrightarrow> H \<subseteq> H' \<Longrightarrow> pool_run H' s t"
proof (induction rule: pool_run.induct)
  case (continue s t v)
  from continue.hyps(2) continue.prems have "pool_step H' t v" by (cases rule: pool_step.cases) (auto intro: pool_step.intros)
  with continue show ?case by (blast intro: pool_run.continue)
qed (rule pool_run.start)

text \<open>One goroutine run to its end without interruption is a run of the pool.\<close>

lemma pool_run_thread:
  "i < length ts \<Longrightarrow> ts ! i = p \<Longrightarrow> pool_run H (w, ts) (snd (run p w), ts[i := Ret (fst (run p w))])"
proof (induction p arbitrary: w ts)
  case (Ret a)
  then have "ts[i := Ret a] = ts" by (metis list_update_id)
  then show ?case by (simp add: pool_run.start)
next
  case (Act u k)
  have "pool_step H (w, ts) (u w, ts[i := k w])" using Act.prems by (rule pool_step.execute)
  then have one: "pool_run H (w, ts) (u w, ts[i := k w])" using pool_run.intros by blast
  have "pool_run H (u w, ts[i := k w]) (snd (run (k w) (u w)), (ts[i := k w])[i := Ret (fst (run (k w) (u w)))])"
    using Act.IH [of "k w" "ts[i := k w]" "u w"] Act.prems by simp
  with one show ?case by (auto intro: pool_run_trans)
qed

text \<open>A goroutine run up to the end of the first part of a composed program.\<close>

lemma pool_run_prefix:
  "i < length ts \<Longrightarrow> ts ! i = bindP p k \<Longrightarrow> pool_run H (w, ts) (snd (run p w), ts[i := k (fst (run p w))])"
proof (induction p arbitrary: w ts)
  case (Ret a)
  then have "ts[i := k a] = ts" by (metis bindP.simps(1) list_update_id)
  then show ?case by (simp add: pool_run.start)
next
  case (Act u f)
  have "pool_step H (w, ts) (u w, ts[i := bindP (f w) k])"
    using Act.prems by (auto intro: pool_step.execute)
  then have one: "pool_run H (w, ts) (u w, ts[i := bindP (f w) k])" using pool_run.intros by blast
  have "pool_run H (u w, ts[i := bindP (f w) k])
      (snd (run (f w) (u w)), (ts[i := bindP (f w) k])[i := k (fst (run (f w) (u w)))])"
    using Act.IH [of "f w" "ts[i := bindP (f w) k]" "u w"] Act.prems by simp
  with one show ?case by (auto intro: pool_run_trans)
qed

locale pool_invariant =
  fixes H :: "('w, 'a) prog set" and P :: "'w \<Rightarrow> bool"
  assumes handlers_keep: "p \<in> H \<Longrightarrow> keeps P p"
begin

lemma step_keeps:
  assumes "pool_step H (w, ts) (w', ts')" and "P w" and "\<forall>t\<in>set ts. keeps P t"
  shows "P w' \<and> (\<forall>t\<in>set ts'. keeps P t)"
  using assms(1)
proof (cases rule: pool_step.cases)
  case (arrive p)
  with assms(2,3) show ?thesis by (auto intro: handlers_keep)
next
  case (execute i u k)
  then have "keeps P (Act u k)" using assms(3) by (metis nth_mem)
  with assms(2) have "P (u w) \<and> keeps P (k w)" by simp
  with execute assms(3) show ?thesis by (auto dest: set_update_subset_insert [THEN subsetD])
qed

text \<open>The goroutines already under way may be at any point, as long as what is left of them keeps \<open>P\<close>.\<close>

lemma run_keeps:
  "pool_run H s t \<Longrightarrow> P (fst s) \<Longrightarrow> \<forall>p\<in>set (snd s). keeps P p \<Longrightarrow>
     P (fst t) \<and> (\<forall>p\<in>set (snd t). keeps P p)"
proof (induction rule: pool_run.induct)
  case (start s)
  then show ?case by simp
next
  case (continue s t v)
  then show ?case using step_keeps [of "fst t" "snd t" "fst v" "snd v"] by simp
qed

end

section \<open>Steps along a relation\<close>

text \<open>
  The second interface: a reflexive and transitive relation \<open>R\<close> that every action of every program
  follows whatever the others do, as long as they follow it too.
\<close>

locale pool_relation =
  fixes R :: "'w \<Rightarrow> 'w \<Rightarrow> bool"
  assumes R_refl: "R w w"
    and R_trans: "R u v \<Longrightarrow> R v w \<Longrightarrow> R u w"
begin

lemma rg_Ret: "(\<And>w'. R w w' \<Longrightarrow> Q a w') \<Longrightarrow> rg R Q (Ret a) w"
  by simp

lemma rg_rely: "rg R Q p w \<Longrightarrow> R w w' \<Longrightarrow> rg R Q p w'"
  by (cases p) (auto intro: R_trans)

lemma rg_bindP:
  "rg R Q p w \<Longrightarrow> (\<And>a w'. Q a w' \<Longrightarrow> rg R S (k a) w') \<Longrightarrow> rg R S (bindP p k) w"
  by (induction p arbitrary: w) (auto intro: R_refl)

lemma rg_seqP: "rg R (\<lambda>_. Q) p w \<Longrightarrow> (\<And>w'. Q w' \<Longrightarrow> rg R S q w') \<Longrightarrow> rg R S (seqP p q) w"
  unfolding seqP_def by (rule rg_bindP)

lemma rg_weaken: "rg R Q p w \<Longrightarrow> (\<And>a w. Q a w \<Longrightarrow> S a w) \<Longrightarrow> rg R S p w"
  by (induction p arbitrary: w) auto

lemma rg_modify: "(\<And>w'. R w w' \<Longrightarrow> R w' (u w') \<and> (\<forall>v. R (u w') v \<longrightarrow> Q () v)) \<Longrightarrow> rg R Q (modify u) w"
  by (simp add: modify_def)

lemma rg_atomic:
  "(\<And>w'. R w w' \<Longrightarrow> R w' (snd (f w')) \<and> (\<forall>v. R (snd (f w')) v \<longrightarrow> Q (fst (f w')) v)) \<Longrightarrow> rg R Q (atomic f) w"
  by (simp add: atomic_def)

lemma rg_gets: "(\<And>w' v. R w w' \<Longrightarrow> R w' v \<Longrightarrow> Q (f w') v) \<Longrightarrow> rg R Q (gets f) w"
  by (auto simp: gets_def intro: R_refl)

definition stable :: "('w \<Rightarrow> bool) \<Rightarrow> bool" where
  "stable S \<longleftrightarrow> (\<forall>w w'. S w \<longrightarrow> R w w' \<longrightarrow> S w')"

lemma rg_frame: "rg R Q p w \<Longrightarrow> stable S \<Longrightarrow> S w \<Longrightarrow> rg R (\<lambda>a w. Q a w \<and> S w) p w"
proof (induction p arbitrary: w)
  case (Ret a)
  then show ?case by (auto simp: stable_def)
next
  case (Act u k)
  have "rg R (\<lambda>a w. Q a w \<and> S w) (k w') (u w')" if "R w w'" for w'
  proof (rule Act.IH)
    show "rg R Q (k w') (u w')" and "stable S" using Act.prems that by auto
    show "S (u w')" using Act.prems that unfolding stable_def rg.simps by blast
  qed simp
  with Act.prems show ?case by simp
qed

definition follows :: "('w, 'a) prog \<Rightarrow> bool" where
  "follows p \<longleftrightarrow> (\<forall>w. rg R (\<lambda>_ _. True) p w)"

lemma follows_stable: "follows p \<Longrightarrow> stable S \<Longrightarrow> S w \<Longrightarrow> rg R (\<lambda>_. S) p w"
  using rg_frame [of "\<lambda>_ _. True" p w S] by (simp add: follows_def)

lemma follows_Ret: "follows (Ret a)"
  by (simp add: follows_def)

lemma follows_bindP: "follows p \<Longrightarrow> (\<And>a. follows (k a)) \<Longrightarrow> follows (bindP p k)"
  unfolding follows_def by (blast intro: rg_bindP)

lemma follows_seqP: "follows p \<Longrightarrow> follows q \<Longrightarrow> follows (seqP p q)"
  unfolding seqP_def by (rule follows_bindP)

lemma follows_gets: "follows (gets f)"
  by (simp add: follows_def rg_gets)

lemma follows_modify: "(\<And>w. R w (u w)) \<Longrightarrow> follows (modify u)"
  by (simp add: follows_def rg_modify)

lemma follows_atomic: "(\<And>w. R w (snd (f w))) \<Longrightarrow> follows (atomic f)"
  by (simp add: follows_def rg_atomic)

lemma step_follows:
  assumes "pool_step H (w, ts) (w', ts')" and "\<forall>p\<in>H. follows p" and "\<forall>t\<in>set ts. rg R (\<lambda>_ _. True) t w"
  shows "R w w' \<and> (\<forall>t\<in>set ts'. rg R (\<lambda>_ _. True) t w')"
  using assms(1)
proof (cases rule: pool_step.cases)
  case (arrive p)
  with assms(2,3) show ?thesis by (auto simp: follows_def intro: R_refl)
next
  case (execute i u k)
  then have "rg R (\<lambda>_ _. True) (Act u k) w" using assms(3) by (metis nth_mem)
  then have step: "R w (u w)" "rg R (\<lambda>_ _. True) (k w) (u w)" by (auto simp: R_refl)
  then have "\<forall>t\<in>set ts. rg R (\<lambda>_ _. True) t (u w)" using assms(3) rg_rely by blast
  with step execute show ?thesis by (auto dest: set_update_subset_insert [THEN subsetD])
qed

lemma run_follows:
  "pool_run H s t \<Longrightarrow> \<forall>p\<in>H. follows p \<Longrightarrow> \<forall>p\<in>set (snd s). rg R (\<lambda>_ _. True) p (fst s) \<Longrightarrow>
     R (fst s) (fst t) \<and> (\<forall>p\<in>set (snd t). rg R (\<lambda>_ _. True) p (fst t))"
proof (induction rule: pool_run.induct)
  case (start s)
  then show ?case by (simp add: R_refl)
next
  case (continue s t v)
  then show ?case using step_follows [of H "fst t" "snd t" "fst v" "snd v"] by (auto intro: R_trans)
qed

end

end
