(* ===== verification/LedgerCatalog.thy ===== *)
theory LedgerCatalog
  imports Server LedgerFile Interleaving
begin

text \<open>
  The ledger service of \<open>modes.go\<close>: \<open>muxLedger\<close> with its start-up, its three endpoints, the catalog and
  \<open>appendLedger\<close>.  The catalog is a package variable that is read and written without a lock, so every
  access is an action of its own: \<open>catalog_append\<close> reads the catalog for the emptiness test, for the
  hash of the last entry, for the length and for the \<open>append\<close>, and then writes it.  \<open>append\<close> is taken to
  copy; where two goroutines race for the same slot of a shared backing array, which of the two
  entries is kept may differ.

  \<open>appendLedger\<close> is the same computation without interruption; it is the second implementation of the
  contract \<open>chained_log\<close>.  The last section is about requests served at the same time.
\<close>

section \<open>Definitions\<close>

definition decodeJSONBody :: "'a HTTPRequest \<Rightarrow> ('a \<Rightarrow> Response go) \<Rightarrow> Response go" where
  "decodeJSONBody r cont =
     (case hr_Body r of
        ReadError \<Rightarrow> respond StatusBadRequest (BError ''read error'')
      | Malformed err \<Rightarrow> respond StatusBadRequest (BError (''malformed request: '' @ err))
      | Decoded v \<Rightarrow> cont v)"

definition ledgerHash :: "LedgerEntry \<Rightarrow> string" where
  "ledgerHash en = (let clone = en\<lparr>le_Hash := [], le_PrevHash := []\<rparr> in sha256_hex (marshal_entry clone))"

definition appendLedger :: "Time \<Rightarrow> LedgerEntry \<Rightarrow> LedgerEntry list \<Rightarrow> LedgerEntry \<times> LedgerEntry list" where
  "appendLedger now en store =
     (let e1 = en\<lparr>le_PrevHash := (if length store = 0 then genesis else le_Hash (store ! (length store - 1)))\<rparr>;
          e2 = e1\<lparr>le_Index := word_of_nat (length store), le_Timestamp := now\<rparr>;
          e3 = e2\<lparr>le_Hash := ledgerHash e2\<rparr>
      in (e3, store @ [e3]))"

definition store_read :: "LedgerEntry list go" where
  "store_read = gets w_catalog"

definition store_write :: "LedgerEntry list \<Rightarrow> unit go" where
  "store_write es = modify (\<lambda>w. w\<lparr>w_catalog := es\<rparr>)"

text \<open>\<open>appendLedger\<close> as the goroutine executes it, access by access.\<close>

definition catalog_prev :: "string go" where
  "catalog_prev =
     bindP store_read (\<lambda>s.
       if length s = 0 then Ret genesis
       else bindP store_read (\<lambda>s'. Ret (le_Hash (s' ! (length s' - 1)))))"

definition catalog_stamp :: "LedgerEntry \<Rightarrow> LedgerEntry go" where
  "catalog_stamp en =
     bindP catalog_prev (\<lambda>prev.
     bindP store_read (\<lambda>s.
     bindP time_Now (\<lambda>now.
       let e = en\<lparr>le_PrevHash := prev, le_Index := word_of_nat (length s), le_Timestamp := now\<rparr>
       in Ret (e\<lparr>le_Hash := ledgerHash e\<rparr>))))"

definition catalog_append :: "LedgerEntry \<Rightarrow> LedgerEntry go" where
  "catalog_append en =
     bindP (catalog_stamp en) (\<lambda>e.
     bindP store_read (\<lambda>s.
     seqP (store_write (s @ [e])) (Ret e)))"

text \<open>\<open>if data, err := json.MarshalIndent(...); err == nil \{ os.WriteFile(...) \}\<close>: both errors are ignored.\<close>

definition save_catalog :: "string \<Rightarrow> unit go" where
  "save_catalog path =
     bindP store_read (\<lambda>s.
       case MarshalIndent_entries s of
         None \<Rightarrow> Ret ()
       | Some data \<Rightarrow> seqP (os_WriteFile path data) (Ret ()))"

text \<open>Start-up: a file that cannot be read or decoded leaves the catalog as it is.\<close>

definition ledger_path :: "(string \<Rightarrow> string) \<Rightarrow> string" where
  "ledger_path getenv =
     (let v = getenv ''VOSS_LEDGER_DIR''; dir = (if v \<noteq> [] then v else ''/data'') in dir @ ''/ledger.json'')"

definition load_catalog :: "string \<Rightarrow> unit go" where
  "load_catalog path =
     bindP (os_ReadFile path) (\<lambda>file.
       case Option.bind file Unmarshal_entries of None \<Rightarrow> Ret () | Some entries \<Rightarrow> store_write entries)"

definition start_ledger :: "(string \<times> OperatorAuth) go" where
  "start_ledger =
     bindP (gets w_env) (\<lambda>getenv.
       let path = ledger_path getenv; auth = NewOperatorAuth (getenv ''VOSS_OPERATOR_TOKEN'')
       in seqP (load_catalog path) (Ret (path, auth)))"

definition muxLedger_export :: "Response go" where
  "muxLedger_export = bindP store_read (\<lambda>es. respond StatusOK (BLedger es))"

definition muxLedger_verify :: "Response go" where
  "muxLedger_verify =
     bindP store_read (\<lambda>es. case VerifyExport es of (ok, breaks) \<Rightarrow> respond StatusOK (BVerify ok breaks))"

definition muxLedger_append :: "string \<Rightarrow> OperatorAuth \<Rightarrow> LedgerEntry HTTPRequest \<Rightarrow> Response go" where
  "muxLedger_append path auth r =
     (if \<not> Authorized auth (hr_Authorization r)
      then respond StatusUnauthorized (BError ''operator authorization required'')
      else decodeJSONBody r (\<lambda>en.
        bindP store_read (\<lambda>s.
          case VerifyExport s of (ok, breaks) \<Rightarrow>
            if \<not> ok then respond StatusOK (BChainInvalid ''existing chain invalid, refusing append'' breaks)
            else bindP (catalog_append en) (\<lambda>appended.
              seqP (save_catalog path) (respond StatusOK (BEntry appended))))))"

datatype ledger_call = ExportCall | VerifyExportCall | AppendCall "LedgerEntry HTTPRequest"

fun muxLedger :: "string \<times> OperatorAuth \<Rightarrow> ledger_call \<Rightarrow> Response go" where
  "muxLedger (path, auth) ExportCall = muxLedger_export"
| "muxLedger (path, auth) VerifyExportCall = muxLedger_verify"
| "muxLedger (path, auth) (AppendCall r) = muxLedger_append path auth r"

section \<open>Facts\<close>

lemma ledgerHash_hashEntry: "ledgerHash e = hashEntry e"
  by (simp add: ledgerHash_def hashEntry_def)

lemma appendLedger_simps:
  "snd (appendLedger t e s) = s @ [fst (appendLedger t e s)]"
  "le_PrevHash (fst (appendLedger t e s)) = tip s"
  "le_Index (fst (appendLedger t e s)) = word_of_nat (length s)"
  "le_Hash (fst (appendLedger t e s)) = hashEntry (fst (appendLedger t e s))"
  by (cases s; simp add: appendLedger_def Let_def tip_def ledgerHash_hashEntry last_conv_nth)+

interpretation catalog_log: chained_log "\<lambda>s. s" appendLedger "\<lambda>_. True"
  by unfold_locales (simp_all add: appendLedger_simps)

text \<open>The two stores write the same entry: the catalog is the ledger's list.\<close>

lemma entry_update_order:
  "e\<lparr>le_PrevHash := p, le_Index := i, le_Timestamp := t\<rparr> = e\<lparr>le_Index := i, le_Timestamp := t, le_PrevHash := p\<rparr>"
  by (cases e) simp

lemma appendLedger_Append:
  assumes "ledger_inv l"
  shows "appendLedger t e (lg_entries l) = (fst (Append t e l), lg_entries (snd (Append t e l)))"
proof -
  have "(if length (lg_entries l) = 0 then genesis else le_Hash (lg_entries l ! (length (lg_entries l) - 1)))
      = lg_lastHash l"
    using assms by (simp add: ledger_inv_def tip_def last_conv_nth)
  moreover have "word_of_nat (length (lg_entries l)) = lg_nextIdx l"
    using assms by (simp add: ledger_inv_def)
  ultimately show ?thesis
    unfolding appendLedger_def Append_def Let_def ledgerHash_hashEntry by (simp add: entry_update_order)
qed

lemma run_store [run_simps]:
  "run store_read w = (w_catalog w, w)" "run (store_write es) w = ((), w\<lparr>w_catalog := es\<rparr>)"
  by (simp_all add: store_read_def store_write_def run_simps)

lemma run_catalog_prev: "run catalog_prev w = (tip (w_catalog w), w)"
  by (cases "w_catalog w") (simp_all add: catalog_prev_def run_simps tip_def last_conv_nth)

lemma run_catalog_stamp:
  "run (catalog_stamp en) w = (fst (appendLedger (w_clock w (w_pos w)) en (w_catalog w)), tick w)"
  by (cases "w_catalog w")
    (simp_all add: catalog_stamp_def time_Now_def run_simps run_catalog_prev tip_def appendLedger_def Let_def last_conv_nth)

lemma run_catalog_append:
  "run (catalog_append en) w =
     (fst (appendLedger (w_clock w (w_pos w)) en (w_catalog w)),
      (tick w)\<lparr>w_catalog := snd (appendLedger (w_clock w (w_pos w)) en (w_catalog w))\<rparr>)"
  by (simp add: catalog_append_def run_simps run_catalog_stamp appendLedger_simps tick_def)

lemma run_save_catalog:
  "run (save_catalog path) w =
     ((), case MarshalIndent_entries (w_catalog w) of None \<Rightarrow> w | Some data \<Rightarrow> snd (run (os_WriteFile path data) w))"
  by (simp add: save_catalog_def run_simps split: option.splits)

lemma save_catalog_catalog [simp]: "w_catalog (snd (run (save_catalog path) w)) = w_catalog w"
  by (simp add: run_save_catalog run_os_WriteFile tick_def split: option.splits)

lemma run_load_catalog:
  "run (load_catalog path) w =
     ((), case Option.bind (w_disk w path) Unmarshal_entries of None \<Rightarrow> w | Some es \<Rightarrow> w\<lparr>w_catalog := es\<rparr>)"
  by (simp add: load_catalog_def os_ReadFile_def run_simps split: option.splits)

lemma run_start_ledger:
  "run start_ledger w =
     ((ledger_path (w_env w), NewOperatorAuth (w_env w ''VOSS_OPERATOR_TOKEN'')), snd (run (load_catalog (ledger_path (w_env w))) w))"
  by (simp add: start_ledger_def run_simps Let_def)

lemma run_append_chained:
  assumes "Authorized auth (hr_Authorization r)" and "hr_Body r = Decoded en" and "chained (w_catalog w)"
  shows "run (muxLedger_append path auth r) w =
    (\<lparr>rp_Status = StatusOK, rp_Body = BEntry (fst (appendLedger (w_clock w (w_pos w)) en (w_catalog w)))\<rparr>,
     snd (run (save_catalog path) (snd (run (catalog_append en) w))))"
proof -
  have "fst (VerifyExport (w_catalog w))" using assms(3) by (simp add: VerifyExport_fst)
  then show ?thesis
    using assms(1,2) by (simp add: muxLedger_append_def decodeJSONBody_def respond_def run_simps case_prod_beta run_catalog_append)
qed

lemma append_broken:
  assumes "Authorized auth (hr_Authorization r)" and "hr_Body r = Decoded en" and "\<not> chained (w_catalog w)"
  shows "run (muxLedger_append path auth r) w =
    (\<lparr>rp_Status = StatusOK, rp_Body = BChainInvalid ''existing chain invalid, refusing append'' (snd (VerifyExport (w_catalog w)))\<rparr>, w)"
proof -
  have "\<not> fst (VerifyExport (w_catalog w))" using assms(3) by (simp add: VerifyExport_fst)
  then show ?thesis
    using assms(1,2) by (simp add: muxLedger_append_def decodeJSONBody_def respond_def run_simps case_prod_beta)
qed

subsection \<open>Entries that survive a restart\<close>

lemma utf8_valid_ascii: "\<forall>c\<in>set s. (of_char c :: nat) < 128 \<Longrightarrow> utf8_valid s"
  by (induction s) auto

lemma utf8_valid_hex: "utf8_valid (hex_EncodeToString bs)"
proof (rule utf8_valid_ascii)
  have "(of_char (hex_digit n) :: nat) < 128" for n
    by (auto simp: hex_digit_def Let_def)
  then show "\<forall>c\<in>set (hex_EncodeToString bs). (of_char c :: nat) < 128" by (induction bs) auto
qed

lemma utf8_valid_tip: "list_all entry_utf8 es \<Longrightarrow> utf8_valid (tip es)"
  by (cases es rule: rev_cases) (simp_all add: tip_def genesis_def entry_utf8_def)

lemma appendLedger_utf8:
  assumes "list_all entry_utf8 s" and "entry_utf8 en"
  shows "list_all entry_utf8 (snd (appendLedger t en s))"
proof -
  have hash: "utf8_valid (hashEntry e)" for e by (simp add: hashEntry_def sha256_hex_def utf8_valid_hex)
  have "entry_utf8 (fst (appendLedger t en s))"
    using assms(2) utf8_valid_tip [OF assms(1)] hash appendLedger_simps(2) [of t en s]
    by (simp add: entry_utf8_def appendLedger_def Let_def ledgerHash_hashEntry)
  with assms(1) show ?thesis by (simp add: appendLedger_simps(1))
qed

lemma run_append_file:
  fixes path :: string
  assumes "Authorized auth (hr_Authorization r)" and "hr_Body r = Decoded en" and "chained (w_catalog w)"
    and "MarshalIndent_entries (snd (appendLedger (w_clock w (w_pos w)) en (w_catalog w))) = Some data"
  defines "w' \<equiv> snd (run (muxLedger_append path auth r) w)"
  shows "w_catalog w' = snd (appendLedger (w_clock w (w_pos w)) en (w_catalog w))" and "w_env w' = w_env w"
    and "w_disk w' = (case w_write w (Suc (w_pos w)) of
         Written \<Rightarrow> (w_disk w)(path \<mapsto> data) | NotOpened \<Rightarrow> w_disk w | Partial n \<Rightarrow> (w_disk w)(path \<mapsto> take n data))"
  using assms(4) unfolding w'_def run_append_chained [OF assms(1-3)]
  by (simp_all add: run_catalog_append run_save_catalog run_os_WriteFile tick_def split: WriteOutcome.splits)

subsection \<open>Requests at the same time\<close>

lemma keeps_muxLedger_broken: "keeps (\<lambda>w. w_catalog w = es \<and> \<not> chained es) (muxLedger pa c)"
proof -
  have read: "yields (\<lambda>w. w_catalog w = es \<and> \<not> chained es) (\<lambda>s. \<not> fst (VerifyExport s)) store_read"
    unfolding store_read_def by (rule yields_gets) (simp add: VerifyExport_fst)
  show ?thesis
    by (cases pa; cases c)
      (auto simp: muxLedger_export_def muxLedger_verify_def muxLedger_append_def decodeJSONBody_def respond_def case_prod_beta
        intro!: keeps_bindP_yields [OF read] split: body.splits)
qed

interpretation broken_catalog: pool_invariant "range (muxLedger pa)" "\<lambda>w. w_catalog w = es \<and> \<not> chained es" for pa es
  by unfold_locales (auto intro: keeps_muxLedger_broken)

text \<open>An append that has passed its check and stamped its entry, interrupted there.\<close>

definition append_rest :: "string \<Rightarrow> LedgerEntry \<Rightarrow> Response go" where
  "append_rest path e =
     bindP store_read (\<lambda>s.
       seqP (store_write (s @ [e])) (seqP (save_catalog path) (respond StatusOK (BEntry e))))"

lemma append_prefix:
  assumes "Authorized auth (hr_Authorization r)" and "hr_Body r = Decoded en" and "i < length ts"
    and "ts ! i = muxLedger_append path auth r" and "chained (w_catalog w)"
  shows "pool_run H (w, ts) (tick w, ts[i := append_rest path (fst (appendLedger (w_clock w (w_pos w)) en (w_catalog w)))])"
proof -
  define k where "k s = (case VerifyExport s of (ok, breaks) \<Rightarrow>
      if \<not> ok then respond StatusOK (BChainInvalid ''existing chain invalid, refusing append'' breaks)
      else bindP (catalog_stamp en) (append_rest path))" for s
  have prog: "muxLedger_append path auth r = bindP store_read k"
    using assms(1,2) unfolding muxLedger_append_def decodeJSONBody_def k_def catalog_append_def append_rest_def seqP_def
    by (simp add: bindP_assoc case_prod_beta cong: if_cong)
  have ok: "fst (VerifyExport (w_catalog w))" using assms(5) by (simp add: VerifyExport_fst)
  have "pool_run H (w, ts) (w, ts[i := bindP (catalog_stamp en) (append_rest path)])"
    using pool_run_prefix [OF assms(3), of store_read k H w] ok by (simp add: assms(4) prog run_store k_def case_prod_beta)
  moreover have "pool_run H (w, ts[i := bindP (catalog_stamp en) (append_rest path)])
      (tick w, ts[i := append_rest path (fst (appendLedger (w_clock w (w_pos w)) en (w_catalog w)))])"
    using pool_run_prefix [of i "ts[i := bindP (catalog_stamp en) (append_rest path)]" "catalog_stamp en" "append_rest path" H w] assms(3)
    by (simp add: run_catalog_stamp)
  ultimately show ?thesis by (rule pool_run_trans [rotated])
qed

lemma run_append_rest:
  "run (append_rest path e) w =
     (\<lparr>rp_Status = StatusOK, rp_Body = BEntry e\<rparr>, snd (run (save_catalog path) (w\<lparr>w_catalog := w_catalog w @ [e]\<rparr>)))"
  by (simp add: append_rest_def respond_def run_simps)

section \<open>Properties\<close>

text \<open>
  C36: an authorized append to the ledger service extends a chained catalog by one entry that carries
  its own hash and leaves it chained; a catalog whose chain is broken is left alone and the request
  refused, with status 200 in both cases.
\<close>

theorem ledger_service_append:
  assumes "Authorized auth (hr_Authorization r)" and "hr_Body r = Decoded en"
  shows "let (resp, w') = run (muxLedger_append path auth r) w in
    rp_Status resp = StatusOK \<and>
    (if chained (w_catalog w)
     then \<exists>e. rp_Body resp = BEntry e \<and> w_catalog w' = w_catalog w @ [e] \<and> chained (w_catalog w')
          \<and> le_Hash e = hashEntry e \<and> le_Index e = word_of_nat (length (w_catalog w))
     else (\<exists>why n. rp_Body resp = BChainInvalid why n) \<and> w' = w)"
proof (cases "chained (w_catalog w)")
  case True
  have "chained (w_catalog w @ [fst (appendLedger (w_clock w (w_pos w)) en (w_catalog w))])"
    using catalog_log.chained_append [of "w_catalog w" "w_clock w (w_pos w)" en] True by (simp add: appendLedger_simps)
  then show ?thesis
    using True unfolding run_append_chained [OF assms True] by (simp add: run_catalog_append appendLedger_simps)
next
  case False
  then show ?thesis unfolding append_broken [OF assms False] by simp
qed

definition sample_append :: "LedgerEntry HTTPRequest" where
  "sample_append = \<lparr>hr_Method = ''POST'', hr_Path = ''/append'', hr_Authorization = ''Bearer token'', hr_Body = Decoded zero_LedgerEntry\<rparr>"

lemma sample_append_authorized:
  "Authorized (NewOperatorAuth ''token'') (hr_Authorization sample_append)" "hr_Body sample_append = Decoded zero_LedgerEntry"
  by (simp_all add: sample_append_def Authorized_def NewOperatorAuth_def strings_CutPrefix_def)

theorem ledger_service_append_witness:
  "\<forall>w. \<exists>e. rp_Body (fst (run (muxLedger_append ''f'' (NewOperatorAuth ''token'') sample_append) (w\<lparr>w_catalog := []\<rparr>))) = BEntry e"
proof
  fix w :: world
  from ledger_service_append [OF sample_append_authorized, of "''f''" "w\<lparr>w_catalog := []\<rparr>"]
  show "\<exists>e. rp_Body (fst (run (muxLedger_append ''f'' (NewOperatorAuth ''token'') sample_append) (w\<lparr>w_catalog := []\<rparr>))) = BEntry e"
    by (auto simp: case_prod_beta Let_def)
qed

text \<open>
  C22: a ledger service that is restarted after an acknowledged append comes up with exactly the catalog
  it had, chained, when the strings are UTF-8, the times can be formatted and the file was written.
\<close>

theorem restart_keeps_ledger:
  assumes "Authorized auth (hr_Authorization r)" and "hr_Body r = Decoded en" and "chained (w_catalog w)"
    and "list_all entry_utf8 (en # w_catalog w)"
    and "MarshalIndent_entries (snd (appendLedger (w_clock w (w_pos w)) en (w_catalog w))) \<noteq> None"
    and "w_write w (Suc (w_pos w)) = Written"
  shows "let w' = snd (run (muxLedger_append (ledger_path (w_env w)) auth r) w);
             w'' = snd (run start_ledger (w'\<lparr>w_catalog := []\<rparr>))
         in w_catalog w'' = w_catalog w' \<and> chained (w_catalog w'') \<and> length (w_catalog w'') = Suc (length (w_catalog w))"
proof -
  obtain data where data: "MarshalIndent_entries (snd (appendLedger (w_clock w (w_pos w)) en (w_catalog w))) = Some data"
    using assms(5) by blast
  note saved = run_append_file [OF assms(1-3) data, of "ledger_path (w_env w)"]
  have "Unmarshal_entries data = Some (snd (appendLedger (w_clock w (w_pos w)) en (w_catalog w)))"
    using assms(4) by (intro Unmarshal_MarshalIndent [OF data] appendLedger_utf8) simp_all
  then show ?thesis
    using catalog_log.chained_append [of "w_catalog w" "w_clock w (w_pos w)" en] assms(3)
    by (simp add: Let_def run_start_ledger run_load_catalog saved assms(6) appendLedger_simps)
qed

theorem restart_keeps_ledger_witness:
  "\<forall>w. let w0 = w\<lparr>w_catalog := [], w_clock := (\<lambda>_. 0), w_write := (\<lambda>_. Written)\<rparr>;
           w' = snd (run (muxLedger_append (ledger_path (w_env w)) (NewOperatorAuth ''token'') sample_append) w0)
       in length (w_catalog (snd (run start_ledger (w'\<lparr>w_catalog := []\<rparr>)))) = 1"
proof
  fix w :: world
  let ?w = "w\<lparr>w_catalog := [], w_clock := (\<lambda>_. 0), w_write := (\<lambda>_. Written)\<rparr>"
  have "rfc3339_nano 0 \<noteq> None" by code_simp
  then have "MarshalIndent_entries (snd (appendLedger (w_clock ?w (w_pos ?w)) zero_LedgerEntry (w_catalog ?w))) \<noteq> None"
    by (simp add: MarshalIndent_entries_eq appendLedger_def Let_def)
  from restart_keeps_ledger [OF sample_append_authorized _ _ this]
  show "let w0 = ?w; w' = snd (run (muxLedger_append (ledger_path (w_env w)) (NewOperatorAuth ''token'') sample_append) w0)
       in length (w_catalog (snd (run start_ledger (w'\<lparr>w_catalog := []\<rparr>)))) = 1"
    by (auto simp: Let_def entry_utf8_def zero_LedgerEntry_def capability_utf8_def zero_CapabilityClass_def)
qed

text \<open>
  C24: a ledger file that cannot be decoded is dropped without a word.  The service starts with an empty
  catalog, accepts the next append as the first entry of a new chain and overwrites the file with it:
  nothing of the old ledger is left, and every answer has status 200.
\<close>

theorem undecodable_file_dropped:
  assumes "Authorized auth (hr_Authorization r)" and "hr_Body r = Decoded en" and "entry_utf8 en"
    and "w_disk w (ledger_path (w_env w)) = Some old" and "Unmarshal_entries old = None" and "w_catalog w = []"
    and "MarshalIndent_entries (snd (appendLedger (w_clock w (w_pos w)) en [])) \<noteq> None" and "w_write w (Suc (w_pos w)) = Written"
  shows "let w1 = snd (run start_ledger w); (resp, w2) = run (muxLedger_append (ledger_path (w_env w)) auth r) w1 in
    \<exists>e new. resp = \<lparr>rp_Status = StatusOK, rp_Body = BEntry e\<rparr> \<and> le_Index e = 0 \<and> le_PrevHash e = genesis
      \<and> w_disk w2 (ledger_path (w_env w)) = Some new \<and> Unmarshal_entries new = Some [e]"
proof -
  have start: "snd (run start_ledger w) = w" using assms(4,5) by (simp add: run_start_ledger run_load_catalog)
  have ch: "chained (w_catalog w)" by (simp add: assms(6))
  obtain data where data: "MarshalIndent_entries (snd (appendLedger (w_clock w (w_pos w)) en (w_catalog w))) = Some data"
    using assms(6,7) by auto
  note saved = run_append_file [OF assms(1,2) ch data, of "ledger_path (w_env w)"]
  have "Unmarshal_entries data = Some (snd (appendLedger (w_clock w (w_pos w)) en (w_catalog w)))"
    using assms(3,6) by (intro Unmarshal_MarshalIndent [OF data] appendLedger_utf8) simp_all
  then show ?thesis
    using saved(3) assms(6,8) appendLedger_simps [of "w_clock w (w_pos w)" en "[]"]
    unfolding start by (simp add: Let_def run_append_chained [OF assms(1,2) ch] case_prod_beta tip_def)
qed

theorem undecodable_file_dropped_witness:
  "\<forall>w. let w0 = w\<lparr>w_catalog := [], w_clock := (\<lambda>_. 0), w_write := (\<lambda>_. Written), w_disk := [ledger_path (w_env w) \<mapsto> ''[{'']\<rparr>
       in \<exists>e. rp_Body (fst (run (muxLedger_append (ledger_path (w_env w)) (NewOperatorAuth ''token'') sample_append) (snd (run start_ledger w0)))) = BEntry e"
proof
  fix w :: world
  let ?w = "w\<lparr>w_catalog := [], w_clock := (\<lambda>_. 0), w_write := (\<lambda>_. Written), w_disk := [ledger_path (w_env w) \<mapsto> ''[{'']\<rparr>"
  have "rfc3339_nano 0 \<noteq> None" by code_simp
  then have m: "MarshalIndent_entries (snd (appendLedger (w_clock ?w (w_pos ?w)) zero_LedgerEntry [])) \<noteq> None"
    by (simp add: MarshalIndent_entries_eq appendLedger_def Let_def)
  have bad: "Unmarshal_entries ''[{'' = None" by code_simp
  have utf8: "entry_utf8 zero_LedgerEntry"
    by (simp add: entry_utf8_def zero_LedgerEntry_def capability_utf8_def zero_CapabilityClass_def)
  from undecodable_file_dropped [OF sample_append_authorized utf8 _ bad _ m]
  show "let w0 = ?w in \<exists>e. rp_Body (fst (run (muxLedger_append (ledger_path (w_env w)) (NewOperatorAuth ''token'') sample_append) (snd (run start_ledger w0)))) = BEntry e"
    by (auto simp: Let_def case_prod_beta)
qed

text \<open>
  C23: the ledger service loses its chain under concurrency.  Two authorized appends that arrive together
  at an empty catalog can both be acknowledged and leave a catalog that is not chained; from then on no
  request changes it any more, so every further append is refused.
\<close>

theorem concurrent_appends_break_chain:
  assumes "Authorized auth (hr_Authorization r1)" and "hr_Body r1 = Decoded en1"
    and "Authorized auth (hr_Authorization r2)" and "hr_Body r2 = Decoded en2" and "w_catalog w = []"
  shows "\<exists>e1 e2 w'. let H = range (muxLedger (path, auth)); done = [Ret \<lparr>rp_Status = StatusOK, rp_Body = BEntry e1\<rparr>, Ret \<lparr>rp_Status = StatusOK, rp_Body = BEntry e2\<rparr>] in
    pool_run H (w, [muxLedger (path, auth) (AppendCall r1), muxLedger (path, auth) (AppendCall r2)]) (w', done)
    \<and> \<not> chained (w_catalog w')
    \<and> (\<forall>w'' ts. pool_run H (w', done) (w'', ts) \<longrightarrow> w_catalog w'' = w_catalog w')"
proof -
  let ?p = "\<lambda>r. muxLedger_append path auth r"
  define H where "H = range (muxLedger (path, auth))"
  define e1 where "e1 = fst (appendLedger (w_clock w (w_pos w)) en1 (w_catalog w))"
  define w1 where "w1 = snd (run (?p r2) (tick w))"
  define e2 where "e2 = fst (appendLedger (w_clock (tick w) (w_pos (tick w))) en2 (w_catalog (tick w)))"
  define w' where "w' = snd (run (append_rest path e1) w1)"
  let ?ok = "\<lambda>e. \<lparr>rp_Status = StatusOK, rp_Body = BEntry e\<rparr>"
  have ch: "chained (w_catalog w)" "chained (w_catalog (tick w))" by (simp_all add: assms(5) tick_def)
  have a: "pool_run H (w, [?p r1, ?p r2]) (tick w, [append_rest path e1, ?p r2])"
    using append_prefix [OF assms(1,2), of 0 "[?p r1, ?p r2]" path w H] ch by (simp add: e1_def)
  have b: "pool_run H (tick w, [append_rest path e1, ?p r2]) (w1, [append_rest path e1, Ret (?ok e2)])"
    using pool_run_thread [of 1 "[append_rest path e1, ?p r2]" "?p r2" H "tick w"]
    unfolding w1_def run_append_chained [OF assms(3,4) ch(2)] by (simp add: e2_def)
  have c: "pool_run H (w1, [append_rest path e1, Ret (?ok e2)]) (w', [Ret (?ok e1), Ret (?ok e2)])"
    using pool_run_thread [of 0 "[append_rest path e1, Ret (?ok e2)]" "append_rest path e1" H w1]
    by (simp add: w'_def run_append_rest)
  note run = pool_run_trans [OF c pool_run_trans [OF b a]]
  have "w_catalog w1 = [e2]"
    unfolding w1_def run_append_chained [OF assms(3,4) ch(2)] by (simp add: run_catalog_append appendLedger_simps e2_def assms(5) tick_def)
  then have cat: "w_catalog w' = [e2, e1]" by (simp add: w'_def run_append_rest)
  have "le_PrevHash e1 = genesis" "le_Hash e2 = hashEntry e2"
    using appendLedger_simps by (simp_all add: e1_def e2_def assms(5) tip_def)
  then have broken: "\<not> chained (w_catalog w')" using hashEntry_not_genesis [of e2] by (auto simp: cat chained_def)
  have "w_catalog w'' = w_catalog w'" if "pool_run H (w', [Ret (?ok e1), Ret (?ok e2)]) (w'', ts)" for w'' ts
    using broken_catalog.run_keeps [where pa = "(path, auth)" and es = "w_catalog w'" and s = "(w', [Ret (?ok e1), Ret (?ok e2)])" and t = "(w'', ts)"]
      that broken by (simp add: H_def)
  then show ?thesis using run broken by (intro exI [of _ e1] exI [of _ e2] exI [of _ w']) (auto simp: Let_def H_def)
qed

theorem concurrent_appends_break_chain_witness:
  "\<forall>w. \<exists>w' ts. pool_run (range (muxLedger (''f'', NewOperatorAuth ''token''))) (w\<lparr>w_catalog := []\<rparr>,
      [muxLedger (''f'', NewOperatorAuth ''token'') (AppendCall sample_append), muxLedger (''f'', NewOperatorAuth ''token'') (AppendCall sample_append)]) (w', ts)
    \<and> \<not> chained (w_catalog w')"
proof
  fix w :: world
  from concurrent_appends_break_chain [OF sample_append_authorized sample_append_authorized, of "w\<lparr>w_catalog := []\<rparr>" "''f''"]
  show "\<exists>w' ts. pool_run (range (muxLedger (''f'', NewOperatorAuth ''token''))) (w\<lparr>w_catalog := []\<rparr>,
      [muxLedger (''f'', NewOperatorAuth ''token'') (AppendCall sample_append), muxLedger (''f'', NewOperatorAuth ''token'') (AppendCall sample_append)]) (w', ts)
    \<and> \<not> chained (w_catalog w')"
    by (simp add: Let_def) blast
qed

end
