(* ===== verification/Metrics.thy ===== *)
theory Metrics
  imports VossTypes
begin

text \<open>
  The metrics of \<open>metrics.go\<close>: how each is declared (its kind, name, help text and label names), which
  calls fit the declaration, and \<open>RegisterMetrics\<close>.

  The registerer is the Prometheus client's: \<open>MustRegister\<close> is an argument, which answers \<open>None\<close> where it
  panics.  \<open>registers\<close> is what its documentation promises: a collector with a valid description is
  accepted if no registered collector has its name, and one whose name is taken makes it panic.
\<close>

section \<open>Declarations\<close>

datatype MetricKind = Counter | CounterVec | Gauge | Histogram | HistogramVec

record MetricOpts =
  mo_Kind :: MetricKind
  mo_Name :: string
  mo_Help :: string
  mo_Labels :: "string list"

definition opts :: "MetricKind \<Rightarrow> string \<Rightarrow> string \<Rightarrow> string list \<Rightarrow> MetricOpts" where
  "opts kind name help labels = \<lparr>mo_Kind = kind, mo_Name = name, mo_Help = help, mo_Labels = labels\<rparr>"

lemma opts_simps [simp]:
  "mo_Kind (opts k n h ls) = k" "mo_Name (opts k n h ls) = n" "mo_Help (opts k n h ls) = h" "mo_Labels (opts k n h ls) = ls"
  by (simp_all add: opts_def)

fun describe :: "Metric \<Rightarrow> MetricOpts" where
  "describe MetricCycleLatency =
     opts Histogram ''voss_router_decision_duration_seconds''
       ''Total cycle latency from request to admission decision'' []"
| "describe MetricAdmissions =
     opts CounterVec ''voss_router_admission_total'' ''Total admission decisions by result'' [''result'']"
| "describe MetricProviderErrors =
     opts CounterVec ''voss_router_provider_error_total'' ''Provider errors by provider'' [''provider'']"
| "describe MetricExecutions =
     opts Counter ''voss_router_execution_total'' ''Governed provider executions'' []"
| "describe MetricStageDuration =
     opts HistogramVec ''voss_gre_stage_duration_seconds'' ''GRE-1001 stage duration'' [''stage'']"
| "describe MetricUSLViolations =
     opts Counter ''voss_usl_violation_total'' ''USL Gate invariant violations'' []"
| "describe MetricDriftScore =
     opts Gauge ''voss_drift_deviation_score'' ''Current drift deviation score'' []"
| "describe MetricHalt =
     opts Counter ''voss_gre_halt_total'' ''GRE-1001 pipeline halts'' []"
| "describe MetricInterrupts =
     opts Counter ''voss_operator_interrupt_total'' ''Operator interrupt events'' []"
| "describe MetricInterruptLatency =
     opts Histogram ''voss_operator_interrupt_latency_seconds'' ''Time from interrupt to execution halt'' []"
| "describe MetricLedgerWrites =
     opts Counter ''voss_ledger_write_total'' ''Ledger entries written'' []"
| "describe MetricLedgerChainBreaks =
     opts Counter ''voss_ledger_chain_invalid_total'' ''Ledger chain integrity violations'' []"
| "describe MetricIdentityViolations =
     opts Counter ''voss_identity_cross_access_total'' ''Identity separation violations'' []"
| "describe MetricImmuneClass =
     opts CounterVec ''voss_immune_classification_total'' ''Immune Protocol classifications'' [''classification'']"
| "describe MetricLambdaCheck =
     opts CounterVec ''voss_lambda_check_total'' ''Lambda law check results'' [''law'', ''passed'']"

text \<open>
  Which calls a metric accepts: \<open>Inc\<close> on counters, \<open>Observe\<close> on histograms, \<open>Set\<close> on gauges, and one
  value for each label name (\<open>WithLabelValues\<close> panics on another number).
\<close>

fun call_fits :: "MetricCall \<Rightarrow> bool" where
  "call_fits (MInc m ls) \<longleftrightarrow>
     mo_Kind (describe m) = (if ls = [] then Counter else CounterVec) \<and> length ls = length (mo_Labels (describe m))"
| "call_fits (MObserve m ls d) \<longleftrightarrow>
     mo_Kind (describe m) = (if ls = [] then Histogram else HistogramVec) \<and> length ls = length (mo_Labels (describe m))"
| "call_fits (MSet m x) \<longleftrightarrow> mo_Kind (describe m) = Gauge"

section \<open>Registration\<close>

text \<open>Metric and label names: letters, underscores and, but for the first place, digits.\<close>

definition name_start :: "char \<Rightarrow> bool" where
  "name_start c \<longleftrightarrow> (let n = of_char c :: nat in n = 95 \<or> n \<in> {65..90} \<or> n \<in> {97..122})"

definition valid_name :: "string \<Rightarrow> bool" where
  "valid_name s \<longleftrightarrow>
     s \<noteq> [] \<and> name_start (hd s) \<and> list_all (\<lambda>c. name_start c \<or> (of_char c :: nat) \<in> {48..57}) s"

text \<open>A description the client accepts; a label that starts with two underscores is reserved.\<close>

definition valid_opts :: "MetricOpts \<Rightarrow> bool" where
  "valid_opts d \<longleftrightarrow>
     valid_name (mo_Name d) \<and> list_all (\<lambda>l. valid_name l \<and> take 2 l \<noteq> ''__'') (mo_Labels d) \<and> distinct (mo_Labels d)"

fun register_all :: "('r \<Rightarrow> MetricOpts \<Rightarrow> 'r option) \<Rightarrow> Metric list \<Rightarrow> 'r \<Rightarrow> 'r option" where
  "register_all MustRegister [] reg = Some reg"
| "register_all MustRegister (c # cs) reg =
     (case MustRegister reg (describe c) of None \<Rightarrow> None | Some reg' \<Rightarrow> register_all MustRegister cs reg')"

definition collectors :: "Metric list" where
  "collectors =
     [MetricCycleLatency, MetricAdmissions, MetricProviderErrors, MetricStageDuration, MetricUSLViolations,
      MetricDriftScore, MetricHalt, MetricInterrupts, MetricInterruptLatency, MetricLedgerWrites,
      MetricLedgerChainBreaks, MetricIdentityViolations, MetricImmuneClass, MetricLambdaCheck, MetricExecutions]"

definition RegisterMetrics :: "('r \<Rightarrow> MetricOpts \<Rightarrow> 'r option) \<Rightarrow> 'r \<Rightarrow> 'r option" where
  "RegisterMetrics MustRegister reg = register_all MustRegister collectors reg"

definition registers :: "('r \<Rightarrow> MetricOpts \<Rightarrow> 'r option) \<Rightarrow> ('r \<Rightarrow> string set) \<Rightarrow> bool" where
  "registers MustRegister names \<longleftrightarrow>
     (\<forall>reg d. valid_opts d \<longrightarrow>
        (if mo_Name d \<in> names reg then MustRegister reg d = None
         else \<exists>reg'. MustRegister reg d = Some reg' \<and> names reg' = insert (mo_Name d) (names reg)))"

section \<open>Facts\<close>

lemma valid_describe: "valid_opts (describe m)"
  by (cases m) (simp_all add: valid_opts_def valid_name_def name_start_def)

lemma collectors_complete: "set collectors = UNIV" "distinct collectors"
proof -
  have "m \<in> set collectors" for m by (cases m) (simp_all add: collectors_def)
  then show "set collectors = UNIV" by blast
  show "distinct collectors" by (simp add: collectors_def)
qed

lemma distinct_names: "distinct (map (\<lambda>m. mo_Name (describe m)) collectors)"
  by (simp add: collectors_def)

lemma registers_fresh:
  "registers MustRegister names \<Longrightarrow> valid_opts d \<Longrightarrow> mo_Name d \<notin> names reg \<Longrightarrow>
     \<exists>reg'. MustRegister reg d = Some reg' \<and> names reg' = insert (mo_Name d) (names reg)"
  by (simp add: registers_def)

lemma registers_taken: "registers MustRegister names \<Longrightarrow> valid_opts d \<Longrightarrow> mo_Name d \<in> names reg \<Longrightarrow> MustRegister reg d = None"
  by (simp add: registers_def)

lemma register_all_fresh:
  assumes "registers MustRegister names"
  shows "distinct (map (\<lambda>m. mo_Name (describe m)) ms) \<Longrightarrow> (\<forall>m\<in>set ms. mo_Name (describe m) \<notin> names reg) \<Longrightarrow>
    \<exists>reg'. register_all MustRegister ms reg = Some reg' \<and> names reg' = (\<lambda>m. mo_Name (describe m)) ` set ms \<union> names reg"
proof (induction ms arbitrary: reg)
  case (Cons m ms)
  have "mo_Name (describe m) \<notin> names reg" using Cons.prems(2) by simp
  from registers_fresh [OF assms valid_describe this]
  obtain r1 where one: "MustRegister reg (describe m) = Some r1" "names r1 = insert (mo_Name (describe m)) (names reg)"
    by blast
  have rest: "\<forall>x\<in>set ms. mo_Name (describe x) \<notin> names r1"
  proof
    fix x
    assume "x \<in> set ms"
    with Cons.prems show "mo_Name (describe x) \<notin> names r1" by (auto simp: one(2) image_iff dest!: bspec)
  qed
  have "distinct (map (\<lambda>m. mo_Name (describe m)) ms)" using Cons.prems(1) by simp
  from Cons.IH [OF this rest] one show ?case by auto
qed simp

lemma RegisterMetrics_fresh:
  assumes "registers MustRegister names" and "names reg = {}"
  obtains reg' where "RegisterMetrics MustRegister reg = Some reg'" "names reg' = range (\<lambda>m. mo_Name (describe m))"
  using register_all_fresh [OF assms(1) distinct_names, of reg] assms(2) that
  by (auto simp: RegisterMetrics_def collectors_complete)

lemma card_names: "card (range (\<lambda>m. mo_Name (describe m))) = 15"
  using distinct_card [OF distinct_names] by (simp add: image_set [symmetric] collectors_complete del: image_set)
    (simp add: collectors_def)

text \<open>
  With a registry that behaves as documented and holds nothing yet, \<open>RegisterMetrics\<close> does not panic
  and registers exactly the fifteen metrics, whose names are valid and all different; called a second
  time on the same registry it panics.
\<close>

lemma RegisterMetrics_once:
  assumes "registers MustRegister names" and "names reg = {}"
  shows "\<exists>reg'. RegisterMetrics MustRegister reg = Some reg' \<and> names reg' = range (\<lambda>m. mo_Name (describe m))
    \<and> card (names reg') = 15 \<and> RegisterMetrics MustRegister reg' = None"
proof -
  obtain reg' where reg': "RegisterMetrics MustRegister reg = Some reg'" "names reg' = range (\<lambda>m. mo_Name (describe m))"
    using RegisterMetrics_fresh [OF assms] .
  have "MustRegister reg' (describe MetricCycleLatency) = None"
    by (rule registers_taken [OF assms(1) valid_describe]) (unfold reg'(2), rule rangeI)
  then have "RegisterMetrics MustRegister reg' = None" by (simp add: RegisterMetrics_def collectors_def)
  with reg' card_names show ?thesis by simp
qed

end
