(* ===== verification/Modes.thy ===== *)
theory Modes
  imports Workflows LedgerCatalog Metrics
begin

text \<open>
  The service modes of \<open>modes.go\<close>: the mode selection, the endpoints of the USL gate, GRE-1001 and drift
  services, and the assembly of the router service.  The ledger service has its own theory.

  The GRE-1001 service builds a fresh pipeline with a fresh override store for every request, so its
  handler runs the pipeline on a world whose overrides and drift score are new.
\<close>

section \<open>Mode selection\<close>

type_synonym ServiceMode = string

definition ModeRouter :: ServiceMode where "ModeRouter = ''router''"
definition ModeUslGate :: ServiceMode where "ModeUslGate = ''usl-gate''"
definition ModeGRE1001 :: ServiceMode where "ModeGRE1001 = ''gre-1001''"
definition ModeLedger :: ServiceMode where "ModeLedger = ''ledger''"
definition ModeDrift :: ServiceMode where "ModeDrift = ''drift-detector''"

definition modeFromEnv :: "(string \<Rightarrow> string) \<Rightarrow> ServiceMode" where
  "modeFromEnv getenv = (let m = getenv ''VOSS_MODE'' in if m = [] then ModeRouter else m)"

datatype service = RouterService | USLService | GREService | LedgerService | DriftService

text \<open>\<open>RunService\<close>: which mux is served; \<open>None\<close> is \<open>log.Fatalf\<close> on an unknown mode.\<close>

definition RunService :: "(string \<Rightarrow> string) \<Rightarrow> service option" where
  "RunService getenv =
     (let mode = modeFromEnv getenv in
      if mode = ModeUslGate then Some USLService
      else if mode = ModeGRE1001 then Some GREService
      else if mode = ModeLedger then Some LedgerService
      else if mode = ModeDrift then Some DriftService
      else if mode = ModeRouter then Some RouterService
      else None)"

definition listen_addr :: "(string \<Rightarrow> string) \<Rightarrow> string" where
  "listen_addr getenv = (let v = getenv ''VOSS_ADDR'' in if v \<noteq> [] then v else '':8080'')"

definition healthzHandler :: "Response go" where
  "healthzHandler = respond StatusOK (BText ''ok'')"

text \<open>
  \<open>/metrics\<close>: the handler of the Prometheus client turns the state of the collectors, that is, the calls
  made so far, into a text or an error.
\<close>

definition metricsHandler :: "(MetricCall list \<Rightarrow> string + string) \<Rightarrow> Response go" where
  "metricsHandler page =
     bindP (gets w_metrics) (\<lambda>calls.
       case page calls of
         Inl err \<Rightarrow> respond StatusInternalServerError (BError err)
       | Inr text \<Rightarrow> respond StatusOK (BText text))"

text \<open>What a mux answers itself: an unknown path, and a path that is not in its cleaned form.\<close>

definition NotFoundHandler :: "Response go" where
  "NotFoundHandler = respond StatusNotFound (BError ''404 page not found'')"

definition RedirectHandler :: "string \<Rightarrow> Response go" where
  "RedirectHandler path = respond StatusMovedPermanently (BRedirect path)"

section \<open>The single-purpose services\<close>

definition muxUSL_check ::
  "TenantPolicy list \<Rightarrow> CapabilityLattice list \<Rightarrow> CapabilityRequest HTTPRequest \<Rightarrow> Response go" where
  "muxUSL_check tenants lattice r =
     (let gate = \<lparr>ug_Tenants = tenants, ug_Lattice = lattice, ug_GovernanceEnforced = True\<rparr> in
      decodeJSONBody r (\<lambda>req. bindP (USLGate_Check gate req) (\<lambda>d. respond StatusOK (BDecision d))))"

definition muxGRE_run ::
  "TenantPolicy list \<Rightarrow> CapabilityLattice list \<Rightarrow> CapabilityRequest HTTPRequest \<Rightarrow> Response go" where
  "muxGRE_run tenants lattice r =
     decodeJSONBody r (\<lambda>req.
       seqP (modify (\<lambda>w. w\<lparr>w_interrupts := NewInterruptStore, w_driftOverride := None\<rparr>))
       (bindP (GRE_Run
                 (NewGRE1001 \<lparr>ug_Tenants = tenants, ug_Lattice = lattice, ug_GovernanceEnforced = True\<rparr>)
                 \<lparr>si_Request = req, si_Tenants = tenants, si_Lattice = lattice\<rparr>) (\<lambda>(stages, ok).
        respond StatusOK (BStages ok (toStageRecords stages)))))"

definition muxDrift_score :: "Response go" where
  "muxDrift_score = respond StatusOK (BScore 0 ''deviation'' ''within_threshold'')"

section \<open>The router service\<close>

text \<open>
  What \<open>muxRouter\<close> builds before it binds the endpoints: the router from the configuration, the optional
  provider, the operator token.
\<close>

definition start_router :: "Config \<Rightarrow> nat \<Rightarrow> Server go" where
  "start_router cfg latency =
     bindP (NewRouter (fst (Build cfg)) (snd (Build cfg))) (\<lambda>router.
     bindP (gets w_env) (\<lambda>getenv.
     seqP (if getenv ''VOSS_ENABLE_PROJECT_INFINITY'' = ''true''
           then RegisterProvider ''project-infinity''
                  (NewProjectInfinityAdapter (getenv ''VOSS_INFERENCE_URL'') latency)
           else Ret ())
     (Ret (WithAuth (NewServer router) (getenv ''VOSS_OPERATOR_TOKEN'')))))"

text \<open>
  The start of the router service: the metrics are registered with a new registry first, and a panic
  there (\<open>None\<close>) ends the process before anything is built.
\<close>

definition open_router ::
  "('r \<Rightarrow> MetricOpts \<Rightarrow> 'r option) \<Rightarrow> 'r \<Rightarrow> Config \<Rightarrow> nat \<Rightarrow> ('r \<times> Server) option go" where
  "open_router MustRegister reg cfg latency =
     (case RegisterMetrics MustRegister reg of
        None \<Rightarrow> Ret None
      | Some reg' \<Rightarrow> bindP (start_router cfg latency) (\<lambda>server. Ret (Some (reg', server))))"

text \<open>The requests of the router's endpoints and the handler each path is bound to.\<close>

datatype call =
    Route "CapabilityRequest HTTPRequest"
  | InterruptCall "operatorRequest HTTPRequest"
  | CorrectCall "operatorRequest HTTPRequest"
  | TerminateCall "operatorRequest HTTPRequest"
  | VerifyCall
  | LedgerCall
  | WorkflowCall "(WorkflowID \<times> CapabilityRequest) HTTPRequest"
  | MetricsCall "MetricCall list \<Rightarrow> string + string"
  | HealthCall
  | UnknownPath
  | UncleanPath string

fun muxRouter :: "Server \<Rightarrow> call \<Rightarrow> Response go" where
  "muxRouter s (Route r) = RouteHandler s r"
| "muxRouter s (InterruptCall r) = InterruptHandler s r"
| "muxRouter s (CorrectCall r) = CorrectHandler s r"
| "muxRouter s (TerminateCall r) = TerminateHandler s r"
| "muxRouter s VerifyCall = VerifyHandler"
| "muxRouter s LedgerCall = LedgerHandler"
| "muxRouter s (WorkflowCall r) = workflowHandler (NewWorkflowService (sv_router s)) r"
| "muxRouter s (MetricsCall page) = metricsHandler page"
| "muxRouter s HealthCall = healthzHandler"
| "muxRouter s UnknownPath = NotFoundHandler"
| "muxRouter s (UncleanPath path) = RedirectHandler path"

text \<open>The handlers that do not touch what the service decides on.\<close>

lemmas plain_handlers = metricsHandler_def healthzHandler_def NotFoundHandler_def RedirectHandler_def

section \<open>Properties\<close>

text \<open>
  The GRE-1001 service answers with the verdict of the nine-stage pipeline under a fresh override
  store: it accepts exactly the requests whose pipeline conditions hold, whatever overrides an
  operator has recorded elsewhere.
\<close>

lemma gre_service_verdict:
  "let si = \<lparr>si_Request = req, si_Tenants = ts, si_Lattice = lat\<rparr> in
   rp_Body (fst (run (muxGRE_run ts lat \<lparr>hr_Method = m, hr_Path = path, hr_Authorization = auth, hr_Body = Decoded req\<rparr>) w)) =
     BStages (pipeline_passes si NewInterruptStore None)
       (toStageRecords (fst (halt_at (stage_verdicts si NewInterruptStore None))))"
  by (simp add: muxGRE_run_def decodeJSONBody_def run_simps case_prod_beta run_GRE_Run GRE_Run_ok Let_def)

end
