(* ===== verification/Service.thy ===== *)
theory Service
  imports Modes Interleaving
begin

text \<open>
  The router service under concurrency: every request is a goroutine, the goroutines share one world,
  and any interleaving of their atomic actions may happen.

  \<open>admission_invariant\<close> and \<open>service_invariant\<close> are the contracts of a predicate on the world that the
  admission path and all endpoints respect; the lemmas inside walk through the handlers once.  They
  are interpreted on the predicates of the properties: a well-formed ledger, an append-only ledger,
  an overridden intent that no provider is called for, and the execution states that occur.
\<close>

section \<open>Definitions\<close>

definition make_Server :: "TenantPolicy list \<Rightarrow> CapabilityLattice list \<Rightarrow> string \<Rightarrow> Server" where
  "make_Server ts lat token = WithAuth (NewServer (make_Router ts lat)) token"

text \<open>The goroutines the service can start.\<close>

definition endpoints :: "TenantPolicy list \<Rightarrow> CapabilityLattice list \<Rightarrow> string \<Rightarrow> Response go set" where
  "endpoints ts lat token = range (muxRouter (make_Server ts lat token))"

text \<open>The provider contacts made for an intent, and the entries that record an admission of it.\<close>

definition contacts :: "string \<Rightarrow> ProviderCall \<Rightarrow> bool" where
  "contacts i c = (case c of CallGenerate _ req \<Rightarrow> rq_IntentID req = i | CallCapability _ req \<Rightarrow> rq_IntentID req = i)"

definition contact_count :: "string \<Rightarrow> world \<Rightarrow> nat" where
  "contact_count i w = length (filter (contacts i) (w_calls w))"

definition admits :: "string \<Rightarrow> LedgerEntry \<Rightarrow> bool" where
  "admits i e \<longleftrightarrow> le_IntentID e = i \<and> le_Admitted e"

definition admit_count :: "string \<Rightarrow> world \<Rightarrow> nat" where
  "admit_count i w = length (filter (admits i) (lg_entries (w_ledger w)))"

text \<open>
  The overrides that stop an intent: what \<open>GovernAndExecute\<close> checks last.  The endpoints refuse an
  empty directive, so every correction they record counts.
\<close>

definition stopped :: "InterruptStore \<Rightarrow> string \<Rightarrow> bool" where
  "stopped s i \<longleftrightarrow> IsTerminated s i \<or> IsInterrupted s i \<or> fst (Correction s i) \<noteq> []"

text \<open>What is left of the \<open>/workflow\<close> handler when the request has been admitted.\<close>

definition after_admission :: "WorkflowID \<Rightarrow> CapabilityRequest \<Rightarrow> AdmissionOutcome \<Rightarrow> Response go" where
  "after_admission wid req out =
     bindP (execute_admitted req out) (\<lambda>(out, exec, err).
       respond (workflow_status out err) (BWorkflow wid (ao_Decision out) exec (ao_Entry out) err))"

section \<open>The admission path\<close>

text \<open>
  \<open>B\<close> names the intents for which the predicate guarantees an override, \<open>G\<close> the capabilities that the gate
  built from \<open>ts\<close> and \<open>lat\<close> admits for nobody: no provider is contacted for them and nothing admits them, so the
  predicate need not survive such an action.
\<close>

locale admission_invariant = noise_invariant +
  fixes B :: "string \<Rightarrow> bool" and G :: "CapabilityClass \<Rightarrow> bool"
    and ts :: "TenantPolicy list" and lat :: "CapabilityLattice list"
  assumes gate_refuses: "G (rq_CapabilityClass req) \<Longrightarrow>
      \<not> usl_admits \<lparr>ug_Tenants = ts, ug_Lattice = lat, ug_GovernanceEnforced = True\<rparr> req"
    and P_blocked: "B i \<Longrightarrow> (\<forall>w. P w \<longrightarrow> IsTerminated (w_interrupts w) i) \<or>
      (\<forall>w. P w \<longrightarrow> IsInterrupted (w_interrupts w) i) \<or> (\<forall>w. P w \<longrightarrow> fst (Correction (w_interrupts w) i) \<noteq> [])"
    and P_append: "P w \<Longrightarrow> \<not> ((B (le_IntentID e) \<or> G (le_Capability e)) \<and> le_Admitted e) \<Longrightarrow>
      P (w\<lparr>w_ledger := snd (Append t e (w_ledger w))\<rparr>)"
    and P_force: "P w \<Longrightarrow> s = ExecHalted \<or> s = ExecTerminated \<Longrightarrow> P (w\<lparr>w_exec := Forcibly i s (w_exec w)\<rparr>)"
    and P_ask: "P w \<Longrightarrow> \<not> B (rq_IntentID req) \<Longrightarrow> \<not> G (rq_CapabilityClass req) \<Longrightarrow> P (w\<lparr>w_calls := w_calls w @ [CallCapability p req]\<rparr>)"
begin

lemma blocked_cases:
  assumes "B i"
  obtains (terminated) "yields P (\<lambda>t. t) (isTerminated i)"
    | (interrupted) "yields P (\<lambda>n. n) (isInterrupted i)"
    | (corrected) "yields P (\<lambda>x. fst x \<noteq> []) (getCorrection i)"
  using P_blocked [OF assms] unfolding isTerminated_def isInterrupted_def getCorrection_def
  by (auto intro: yields_gets)

lemma tick_ledger: "P (tick w\<lparr>w_ledger := l\<rparr>) \<longleftrightarrow> P (w\<lparr>w_ledger := l\<rparr>)"
  using P_gov [of "tick w\<lparr>w_ledger := l\<rparr>"] P_gov [of "w\<lparr>w_ledger := l\<rparr>"] by (simp add: tick_def gov_def)

lemma tick_calls: "P (tick w\<lparr>w_calls := c\<rparr>) \<longleftrightarrow> P (w\<lparr>w_calls := c\<rparr>)"
  using P_gov [of "tick w\<lparr>w_calls := c\<rparr>"] P_gov [of "w\<lparr>w_calls := c\<rparr>"] by (simp add: tick_def gov_def)

lemma keeps_ledger_Append: "\<not> ((B (le_IntentID e) \<or> G (le_Capability e)) \<and> le_Admitted e) \<Longrightarrow> keeps P (ledger_Append e)"
  unfolding ledger_Append_def
  by (rule keeps_atomic) (simp only: Let_def case_prod_beta snd_conv tick_ledger, rule P_append)

lemma keeps_WriteDecision: "\<not> ((B (rq_IntentID req) \<or> G (rq_CapabilityClass req)) \<and> a) \<Longrightarrow> keeps P (WriteDecision req a res reason rule did lg)"
  unfolding WriteDecision_def
  by (intro keeps_bindP [OF keeps_time_Now] keeps_ledger_Append) (simp add: decision_entry_def)

lemma keeps_WriteExecution: "\<not> B (rq_IntentID req) \<Longrightarrow> \<not> G (rq_CapabilityClass req) \<Longrightarrow> keeps P (WriteExecution req did h)"
  unfolding WriteExecution_def
  by (intro keeps_bindP [OF keeps_time_Now] keeps_ledger_Append) (simp add: execution_entry_def)

lemma keeps_decision:
  "keeps P (new_decision req res reason rule)"
  "\<not> ((B (rq_IntentID req) \<or> G (rq_CapabilityClass req)) \<and> a) \<Longrightarrow> keeps P (write_decision req a d lg)"
  unfolding new_decision_def decID_def admittedDecision_def write_decision_def
  by (auto intro!: keeps_bindP keeps_time_Now keeps_WriteDecision)

lemma keeps_forced [keeps_intros]: "keeps P (exec_Forcibly i ExecHalted)" "keeps P (exec_Forcibly i ExecTerminated)"
  unfolding exec_Forcibly_def by (rule keeps_modify, simp add: P_force)+

lemma keeps_call_CapabilityRequest: "\<not> B (rq_IntentID req) \<Longrightarrow> \<not> G (rq_CapabilityClass req) \<Longrightarrow> keeps P (call_CapabilityRequest a req)"
  unfolding call_CapabilityRequest_def by (rule keeps_atomic) (simp add: tick_calls P_ask)

lemmas keeps_actions = keeps_intros keeps_inc keeps_observe_since keeps_time_Now keeps_decision keeps_reads
  keeps_Immune_Classify keeps_quiet [OF quiet_GRE_Run]

lemma keeps_denials:
  "keeps P (admit_ledger_break req)" "keeps P (admit_terminated req)" "keeps P (admit_interrupted req start)"
  "keeps P (admit_halted req stages)" "keeps P (admit_quarantined req recs im)" "keeps P (admit_no_provider req recs)"
  "keeps P (admit_refused req recs reason)" "keeps P (admit_terminated_in_flight req recs)"
  "keeps P (admit_interrupted_in_flight req start recs)"
  unfolding admit_ledger_break_def admit_terminated_def admit_interrupted_def admit_halted_def
    admit_quarantined_def admit_no_provider_def admit_refused_def admit_terminated_in_flight_def
    admit_interrupted_in_flight_def Let_def
  by (auto intro!: keeps_actions keeps_ledger_Append)

lemma keeps_provider: "\<not> B (rq_IntentID req) \<Longrightarrow> \<not> G (rq_CapabilityClass req) \<Longrightarrow> keeps P (admit_provider req start recs)"
  unfolding admit_provider_def admit_in_flight_def admit_commit_def
  by (auto intro!: keeps_actions keeps_denials keeps_call_CapabilityRequest split: option.splits)

text \<open>The corrigibility stage halts the pipeline for an intent under correction.\<close>

lemma run_stages_halts:
  assumes "\<And>s. s \<in> set ss \<Longrightarrow> keeps P (ss_Check s si)"
    and "\<exists>s\<in>set ss. yields P (\<lambda>out. \<not> so_Passed out) (ss_Check s si)"
  shows "yields P (\<lambda>r. \<not> snd r) (run_stages ss si outs)"
  using assms
proof (induction ss arbitrary: outs)
  case (Cons s ss)
  have quiet_steps: "yields P (\<lambda>_. True) time_Now" "yields P (\<lambda>_. True) (observe_since m ls t)" "yields P (\<lambda>_. True) (inc m ls)"
    for m ls t by (simp_all add: yields_keeps keeps_time_Now keeps_observe_since keeps_inc)
  have "yields P (\<lambda>out. so_Passed out \<longrightarrow> (\<exists>s\<in>set ss. yields P (\<lambda>out. \<not> so_Passed out) (ss_Check s si))) (ss_Check s si)"
  proof (cases "yields P (\<lambda>out. \<not> so_Passed out) (ss_Check s si)")
    case True
    then show ?thesis by (rule yields_weaken) simp
  next
    case False
    then have "\<exists>s\<in>set ss. yields P (\<lambda>out. \<not> so_Passed out) (ss_Check s si)" using Cons.prems(2) by auto
    moreover have "yields P (\<lambda>_. True) (ss_Check s si)" using Cons.prems(1) by (simp add: yields_keeps)
    ultimately show ?thesis by (auto elim: yields_weaken)
  qed
  then show ?case
    unfolding run_stages.simps seqP_def
    by (intro yields_bindP [OF quiet_steps(1)], elim yields_bindP)
      (auto intro!: yields_bindP [OF quiet_steps(2)] yields_bindP [OF quiet_steps(3)] Cons.IH Cons.prems(1))
qed simp

lemma corrected_halts:
  assumes "yields P (\<lambda>x. fst x \<noteq> []) (getCorrection (rq_IntentID (si_Request si)))"
  shows "yields P (\<lambda>r. \<not> snd r) (GRE_Run (NewGRE1001 usl) si)"
proof -
  let ?i = "rq_IntentID (si_Request si)"
  have "fst (Correction s ?i) \<noteq> [] \<Longrightarrow> snd (Correction s ?i)" for s
    by (auto simp: Correction_def split: option.splits)
  then have "yields P (\<lambda>x. snd x) (getCorrection ?i)"
    using assms by (simp add: getCorrection_def gets_def)
  then have "yields P (\<lambda>out. \<not> so_Passed out) (stageOperatorCorrigibility si)"
    unfolding stageOperatorCorrigibility_def Let_def
    by (intro yields_bindP [where Q = "\<lambda>_. True"])
      (auto simp: yields_keeps keeps_reads intro!: yields_bindP [where Q = "\<lambda>_. True" and p = "isInterrupted ?i"]
        elim!: yields_bindP)
  then show ?thesis
    unfolding GRE_Run_def by (intro run_stages_halts keeps_quiet [OF quiet_check]) (auto simp: NewGRE1001_def)
qed

text \<open>The gate stage halts the pipeline for a capability that it admits for nobody.\<close>

lemma refused_halts:
  assumes "G (rq_CapabilityClass req)"
  shows "yields P (\<lambda>r. \<not> snd r) (GRE_Run (NewGRE1001 usl) \<lparr>si_Request = req, si_Tenants = ts, si_Lattice = lat\<rparr>)"
proof -
  let ?si = "\<lparr>si_Request = req, si_Tenants = ts, si_Lattice = lat\<rparr>"
  have "fst (usl_verdict (stage_gate ?si) req) = Deny"
    using usl_verdict_result [of "stage_gate ?si" req] usl_verdict_Admit [of "stage_gate ?si" req] gate_refuses [OF assms]
    by (auto simp: stage_gate_def)
  then have denied: "yields (\<lambda>_. True) (\<lambda>d. ad_Result d = Deny) (USLGate_Check (stage_gate ?si) req)"
    unfolding USLGate_Check_def decision_def seqP_def by (auto simp: bindP_assoc case_prod_beta intro!: returns_bindP)
  have "yields (\<lambda>_. True) (\<lambda>out. \<not> so_Passed out) (stageUSLGate ?si)"
    unfolding stageUSLGate_def StageInput.simps by (rule yields_bindP [OF denied]) simp
  then have "yields P (\<lambda>out. \<not> so_Passed out) (stageUSLGate ?si)"
    by (rule yields_keeps_returns [OF keeps_quiet [OF quiet_stages(2)]])
  then show ?thesis
    unfolding GRE_Run_def by (intro run_stages_halts keeps_quiet [OF quiet_check]) (auto simp: NewGRE1001_def)
qed

lemma keeps_pipeline:
  assumes "B (rq_IntentID req) \<Longrightarrow> yields P (\<lambda>x. fst x \<noteq> []) (getCorrection (rq_IntentID req))"
  shows "keeps P (admit_pipeline (make_Router ts lat) req start)"
proof -
  consider (corrected) "B (rq_IntentID req)" | (refused) "G (rq_CapabilityClass req)"
    | (free) "\<not> B (rq_IntentID req)" "\<not> G (rq_CapabilityClass req)" by blast
  then show ?thesis
  proof cases
    case corrected
    then show ?thesis
      unfolding admit_pipeline_def make_Router_gre
      by (intro keeps_bindP_yields [OF corrected_halts]) (auto simp: assms keeps_denials)
  next
    case refused
    then show ?thesis
      unfolding admit_pipeline_def make_Router_gre make_Router_usl USLGate.simps
      by (intro keeps_bindP_yields [OF refused_halts]) (auto simp: keeps_denials)
  next
    case free
    then show ?thesis
      unfolding admit_pipeline_def make_Router_gre Let_def
      by (auto intro!: keeps_actions keeps_denials keeps_provider)
  qed
qed

lemma keeps_gates: "keeps P (admit_gates (make_Router ts lat) req start)"
proof (cases "B (rq_IntentID req)")
  case True
  note gates = keeps_bindP [OF keeps_reads(1)] keeps_bindP [OF keeps_reads(3)] keeps_bindP [OF keeps_reads(4)]
  from True show ?thesis
  proof (cases rule: blocked_cases)
    case terminated
    then show ?thesis unfolding admit_gates_def
      by (intro gates(1)) (auto simp: keeps_denials elim!: keeps_bindP_yields)
  next
    case interrupted
    then have "keeps P (bindP (isInterrupted (rq_IntentID req))
        (\<lambda>n. if n then admit_interrupted req start else admit_pipeline (make_Router ts lat) req start))"
      by (rule keeps_bindP_yields) (simp add: keeps_denials)
    then show ?thesis unfolding admit_gates_def
      by (intro gates(1)) (auto simp: keeps_denials intro!: gates(2))
  next
    case corrected
    then show ?thesis unfolding admit_gates_def
      by (intro gates(1)) (auto simp: keeps_denials intro!: gates(2,3) keeps_pipeline)
  qed
next
  case False
  then show ?thesis
    unfolding admit_gates_def by (auto intro!: keeps_actions keeps_denials keeps_pipeline)
qed

lemma keeps_Router_Admit: "keeps P (Router_Admit (make_Router ts lat) req)"
  unfolding Router_Admit_def by (auto intro!: keeps_actions keeps_gates)

text \<open>Such a capability is not admitted, whatever happens between the steps of \<open>Admit\<close>.\<close>

abbreviation refusal :: "AdmissionOutcome \<times> GoError option \<Rightarrow> bool" where
  "refusal r \<equiv> ad_Result (ao_Decision (fst r)) \<noteq> Admit"

lemma refused_denials:
  "yields P refusal (admit_ledger_break req)" "yields P refusal (admit_terminated req)"
  "yields P refusal (admit_interrupted req start)" "yields P refusal (admit_halted req stages)"
proof -
  note denials = admit_ledger_break_def admit_terminated_def admit_interrupted_def admit_halted_def new_decision_def
    admittedDecision_def seqP_def
  have "yields (\<lambda>_. True) refusal (admit_ledger_break req)" "yields (\<lambda>_. True) refusal (admit_terminated req)"
    "yields (\<lambda>_. True) refusal (admit_interrupted req start)" "yields (\<lambda>_. True) refusal (admit_halted req stages)"
    unfolding denials by (auto simp: bindP_assoc Let_def outcome_def intro!: returns_bindP)
  then show "yields P refusal (admit_ledger_break req)" "yields P refusal (admit_terminated req)"
    "yields P refusal (admit_interrupted req start)" "yields P refusal (admit_halted req stages)"
    by (simp_all add: yields_keeps_returns keeps_denials)
qed

lemma refused_Admit:
  assumes "G (rq_CapabilityClass req)"
  shows "yields P refusal (Router_Admit (make_Router ts lat) req)"
proof -
  have pipeline: "yields P refusal (admit_pipeline (make_Router ts lat) req start)" for start
    unfolding admit_pipeline_def make_Router_gre make_Router_usl USLGate.simps
    by (intro yields_bindP [OF refused_halts [OF assms]]) (auto simp: refused_denials)
  have any: "keeps P p \<Longrightarrow> (\<And>a. yields P Q (k a)) \<Longrightarrow> yields P Q (bindP p k)" for p :: "'z go" and Q :: "'y \<Rightarrow> bool" and k
    by (rule yields_bindP [where Q = "\<lambda>_. True"]) (simp_all add: yields_keeps)
  have "yields P refusal (admit_gates (make_Router ts lat) req start)" for start
    unfolding admit_gates_def
    by (auto intro!: any keeps_reads pipeline refused_denials)
  then show ?thesis
    unfolding Router_Admit_def seqP_def
    by (intro any [OF keeps_time_Now] yields_bindP any [OF keeps_observe_since]) auto
qed

end

section \<open>All endpoints\<close>

locale service_invariant = admission_invariant +
  assumes P_generate: "P w \<Longrightarrow> \<not> B (rq_IntentID req) \<Longrightarrow> \<not> G (rq_CapabilityClass req) \<Longrightarrow>
      P (w\<lparr>w_calls := w_calls w @ [CallGenerate p req]\<rparr>)"
    and P_start: "P w \<Longrightarrow> P (w\<lparr>w_exec := snd (Transition i cur ExecRunning (w_exec w))\<rparr>)"
    and P_interrupt: "P w \<Longrightarrow> P (w\<lparr>w_interrupts := Interrupt i (w_interrupts w)\<rparr>)"
    and P_correct: "P w \<Longrightarrow> d \<noteq> [] \<Longrightarrow> P (w\<lparr>w_interrupts := Correct i d (w_interrupts w)\<rparr>)"
    and P_terminate: "P w \<Longrightarrow> P (w\<lparr>w_interrupts := Terminate i (w_interrupts w)\<rparr>)"
begin

lemma keeps_boundedGenerate: "\<not> B (rq_IntentID req) \<Longrightarrow> \<not> G (rq_CapabilityClass req) \<Longrightarrow> keeps P (boundedGenerate a req)"
  unfolding boundedGenerate_def start_Generate_def
  by (auto intro!: keeps_actions keeps_atomic simp: tick_calls P_generate P_tick split: prod.splits)

lemma keeps_Transition: "keeps P (exec_Transition i cur ExecRunning)"
  unfolding exec_Transition_def
  by (rule keeps_atomic) (use P_start in \<open>auto simp: Let_def split: prod.splits\<close>, metis snd_conv)

lemma keeps_execute_provider: "\<not> B (rq_IntentID req) \<Longrightarrow> \<not> G (rq_CapabilityClass req) \<Longrightarrow> keeps P (execute_provider req out)"
  unfolding execute_provider_def execute_no_provider_def execute_failed_def execute_done_def Let_def
  by (auto intro!: keeps_actions keeps_boundedGenerate keeps_Transition keeps_WriteExecution split: option.splits)

text \<open>For a blocked intent the final check always returns before the provider.\<close>

lemma keeps_execute_admitted:
  assumes "\<not> G (rq_CapabilityClass req)"
  shows "keeps P (execute_admitted req out)"
proof (cases "B (rq_IntentID req)")
  case False
  then show ?thesis
    unfolding execute_admitted_def by (auto intro!: keeps_actions keeps_execute_provider assms)
next
  case True
  let ?i = "rq_IntentID req"
  have halted: "keeps P (seqP (exec_Forcibly ?i ExecHalted) (Ret (out, zero_ExecutionResult, Some ErrInterrupted)))"
    by (intro keeps_actions)
  have ended: "keeps P (seqP (exec_Forcibly ?i ExecTerminated) (Ret (out, zero_ExecutionResult, Some ErrTerminated)))"
    by (intro keeps_actions)
  from True show ?thesis
  proof (cases rule: blocked_cases)
    case terminated
    then show ?thesis
      unfolding execute_admitted_def by (rule keeps_bindP_yields) (simp add: ended)
  next
    case interrupted
    then have inner: "keeps P (bindP (isInterrupted ?i) (\<lambda>n. if n \<or> d \<noteq> []
        then seqP (exec_Forcibly ?i ExecHalted) (Ret (out, zero_ExecutionResult, Some ErrInterrupted))
        else execute_provider req out))" for d
      by (rule keeps_bindP_yields) (simp add: halted)
    have "keeps P (bindP (getCorrection ?i) (\<lambda>(d, _). bindP (isInterrupted ?i) (\<lambda>n. if n \<or> d \<noteq> []
        then seqP (exec_Forcibly ?i ExecHalted) (Ret (out, zero_ExecutionResult, Some ErrInterrupted))
        else execute_provider req out)))"
      by (rule keeps_bindP [OF keeps_reads(5)]) (simp only: case_prod_beta inner)
    then show ?thesis
      unfolding execute_admitted_def by (intro keeps_bindP [OF keeps_reads(3)]) (simp add: ended)
  next
    case corrected
    then have "keeps P (bindP (getCorrection ?i) (\<lambda>(d, _). bindP (isInterrupted ?i) (\<lambda>n. if n \<or> d \<noteq> []
        then seqP (exec_Forcibly ?i ExecHalted) (Ret (out, zero_ExecutionResult, Some ErrInterrupted))
        else execute_provider req out)))"
      by (rule keeps_bindP_yields) (simp add: case_prod_beta keeps_bindP keeps_reads(4) halted)
    then show ?thesis
      unfolding execute_admitted_def by (intro keeps_bindP [OF keeps_reads(3)]) (simp add: ended)
  qed
qed

lemma keeps_after_admission: "\<not> G (rq_CapabilityClass req) \<Longrightarrow> keeps P (after_admission wid req out)"
  unfolding after_admission_def by (auto intro!: keeps_bindP keeps_execute_admitted keeps_respond)

lemma keeps_GovernAndExecute: "keeps P (GovernAndExecute (make_Router ts lat) req)"
proof (cases "G (rq_CapabilityClass req)")
  case True
  then show ?thesis
    unfolding GovernAndExecute_def by (intro keeps_bindP_yields [OF refused_Admit]) (auto intro: keeps_Ret)
next
  case False
  then show ?thesis
    unfolding GovernAndExecute_def by (auto intro!: keeps_bindP keeps_Router_Admit keeps_Ret keeps_execute_admitted)
qed

lemma keeps_Workflow_Run: "keeps P (Workflow_Run (NewWorkflowService (make_Router ts lat)) wid req)"
  unfolding Workflow_Run_def
  by (auto simp: NewWorkflowService_def intro!: keeps_GovernAndExecute split: option.splits)

lemma keeps_override:
  "keeps P (override (Interrupt i))" "d \<noteq> [] \<Longrightarrow> keeps P (override (Correct i d))" "keeps P (override (Terminate i))"
  unfolding override_def by (rule keeps_modify, simp add: P_interrupt P_correct P_terminate)+

lemma keeps_operatorLedger: "keeps P (operatorLedger ir reason rule)"
  unfolding operatorLedger_def by (intro keeps_actions keeps_WriteDecision) simp

lemma keeps_operator_frame:
  assumes "\<And>ir. filled ir \<Longrightarrow> keeps P (act ir)"
  shows "keeps P (operator_frame s r filled missing act)"
  using operator_frame_cases [of s r filled missing act] assms by (auto simp: keeps_respond)

lemma keeps_muxRouter: "keeps P (muxRouter (make_Server ts lat token) c)"
proof (cases c)
  case (Route r)
  then show ?thesis
    by (auto simp: RouteHandler_def make_Server_def WithAuth_def NewServer_def intro!: keeps_actions keeps_Router_Admit
        split: body.splits)
next
  case (InterruptCall r)
  then show ?thesis
    by (auto simp: InterruptHandler_def intro!: keeps_operator_frame keeps_actions keeps_override keeps_operatorLedger)
next
  case (CorrectCall r)
  then show ?thesis
    by (auto simp: CorrectHandler_def intro!: keeps_operator_frame keeps_actions keeps_override keeps_operatorLedger)
next
  case (TerminateCall r)
  then show ?thesis
    by (auto simp: TerminateHandler_def intro!: keeps_operator_frame keeps_actions keeps_override keeps_operatorLedger)
next
  case (WorkflowCall r)
  then show ?thesis
    by (auto simp: workflowHandler_def make_Server_def WithAuth_def NewServer_def
        intro!: keeps_bindP keeps_Workflow_Run keeps_respond split: body.splits)
qed (auto simp: VerifyHandler_def LedgerHandler_def plain_handlers intro!: keeps_actions split: sum.splits)

end

text \<open>A predicate that all endpoints keep holds at every moment of every run of the pool.\<close>

sublocale service_invariant \<subseteq> pool: pool_invariant "endpoints ts lat token" P for token
  by unfold_locales (auto simp: endpoints_def keeps_muxRouter)

context service_invariant
begin

lemma arrivals_keep:
  assumes "pool_run (endpoints ts lat token) (w, ps) (w', ps')" and "set ps \<subseteq> endpoints ts lat token" and "P w"
  shows "P w'"
proof -
  have "\<forall>p\<in>set ps. keeps P p" using assms(2) by (auto simp: endpoints_def keeps_muxRouter)
  with pool.run_keeps [OF assms(1)] assms(3) show ?thesis by simp
qed

end

text \<open>
  The requests under way at the start may be new, or admitted workflow requests on their way to the
  final check, for any capability.
\<close>

definition waiting :: "TenantPolicy list \<Rightarrow> CapabilityLattice list \<Rightarrow> string \<Rightarrow> Response go \<Rightarrow> bool" where
  "waiting ts lat token p \<longleftrightarrow>
     p \<in> endpoints ts lat token \<or> (\<exists>wid req out. p = after_admission wid req out)"

locale waiting_invariant = service_invariant P B "\<lambda>_. False" ts lat
  for P :: "world \<Rightarrow> bool" and B :: "string \<Rightarrow> bool" and ts :: "TenantPolicy list" and lat :: "CapabilityLattice list"
begin

lemma service_keeps:
  assumes "pool_run (endpoints ts lat token) (w, ps) (w', ps')" and "list_all (waiting ts lat token) ps" and "P w"
  shows "P w'"
proof -
  have "\<forall>p\<in>set ps. keeps P p"
    using assms(2) by (auto simp: list_all_iff waiting_def endpoints_def keeps_muxRouter keeps_after_admission)
  with pool.run_keeps [OF assms(1)] assms(3) show ?thesis by simp
qed

end

section \<open>The predicates of the properties\<close>

lemma contact_count_simps [simp]:
  "contact_count i (w\<lparr>w_calls := w_calls w @ [CallCapability p req]\<rparr>) =
     contact_count i w + (if rq_IntentID req = i then 1 else 0)"
  "contact_count i (w\<lparr>w_calls := w_calls w @ [CallGenerate p req]\<rparr>) =
     contact_count i w + (if rq_IntentID req = i then 1 else 0)"
  "contact_count i (w\<lparr>w_ledger := l\<rparr>) = contact_count i w"
  "contact_count i (w\<lparr>w_exec := e\<rparr>) = contact_count i w"
  "contact_count i (w\<lparr>w_interrupts := s\<rparr>) = contact_count i w"
  "contact_count i (gov w) = contact_count i w"
  by (simp_all add: contact_count_def contacts_def gov_def)

lemma gov_read [simp]:
  "w_ledger (gov w) = w_ledger w" "w_interrupts (gov w) = w_interrupts w" "w_exec (gov w) = w_exec w"
  "w_calls (gov w) = w_calls w"
  by (simp_all add: gov_def)

lemma admit_count_simps [simp]:
  "admit_count i (w\<lparr>w_ledger := snd (Append t e (w_ledger w))\<rparr>) = admit_count i w + (if admits i e then 1 else 0)"
  "admit_count i (w\<lparr>w_calls := c\<rparr>) = admit_count i w"
  "admit_count i (w\<lparr>w_exec := ex\<rparr>) = admit_count i w"
  "admit_count i (w\<lparr>w_interrupts := s\<rparr>) = admit_count i w"
  "admit_count i (gov w) = admit_count i w"
  by (simp_all add: admit_count_def admits_def)

text \<open>An intent under one kind of override: the override, the admissions and the provider contacts stay.\<close>

definition frozen :: "(InterruptStore \<Rightarrow> bool) \<Rightarrow> string \<Rightarrow> nat \<Rightarrow> nat \<Rightarrow> world \<Rightarrow> bool" where
  "frozen ov i a c w \<longleftrightarrow> ov (w_interrupts w) \<and> admit_count i w = a \<and> contact_count i w = c"

interpretation wf_inv: waiting_invariant "\<lambda>w. ledger_wf (w_ledger w)" "\<lambda>_. False" ts lat for ts lat
  by unfold_locales (simp_all add: ledger_wf_Append)

interpretation extends_inv: waiting_invariant "\<lambda>w. \<exists>new. lg_entries (w_ledger w) = es @ new" "\<lambda>_. False" ts lat for es ts lat
  by unfold_locales auto

interpretation terminated_inv: waiting_invariant "frozen (\<lambda>s. IsTerminated s i) i a c" "\<lambda>j. j = i" ts lat for i a c ts lat
  by unfold_locales (auto simp: frozen_def admits_def)

interpretation interrupted_inv: waiting_invariant "frozen (\<lambda>s. IsInterrupted s i) i a c" "\<lambda>j. j = i" ts lat for i a c ts lat
  by unfold_locales (auto simp: frozen_def admits_def)

interpretation corrected_inv: waiting_invariant "frozen (\<lambda>s. fst (Correction s i) \<noteq> []) i a c" "\<lambda>j. j = i" ts lat for i a c ts lat
  by unfold_locales (auto simp: frozen_def admits_def)

text \<open>The execution states that occur: nothing ever enters \<open>ADMITTED\<close> or \<open>RUNNING\<close>.\<close>

definition never_started :: "ExecutionState \<Rightarrow> bool" where
  "never_started e \<longleftrightarrow> (\<forall>i. Current e i \<in> {ExecPending, ExecHalted, ExecTerminated})"

lemma never_started_Transition: "never_started e \<Longrightarrow> snd (Transition i cur ExecRunning e) = e"
proof -
  assume ns: "never_started e"
  have "\<not> fst (Transition i cur ExecRunning e)"
  proof
    assume "fst (Transition i cur ExecRunning e)"
    then have "Current e i = cur" "legal_step cur ExecRunning" by (simp_all add: Transition_iff)
    moreover have "Current e i \<in> {ExecPending, ExecHalted, ExecTerminated}" using ns by (simp add: never_started_def)
    ultimately show False by (auto simp: legal_step_to_running)
  qed
  then show ?thesis by (rule Transition_refused)
qed

interpretation started_inv: waiting_invariant "\<lambda>w. never_started (w_exec w)" "\<lambda>_. False" ts lat for ts lat
proof unfold_locales
  fix w s i
  assume "never_started (w_exec w)" and "s = ExecHalted \<or> s = ExecTerminated"
  then show "never_started (w_exec (w\<lparr>w_exec := Forcibly i s (w_exec w)\<rparr>))"
    by (auto simp: never_started_def)
qed (simp_all add: never_started_Transition)

subsection \<open>Capabilities that the gate admits for nobody\<close>

definition call_capability :: "ProviderCall \<Rightarrow> CapabilityClass" where
  "call_capability c = (case c of CallCapability _ req \<Rightarrow> rq_CapabilityClass req | CallGenerate _ req \<Rightarrow> rq_CapabilityClass req)"

text \<open>The admissions and the provider contacts for capabilities in \<open>G\<close>.\<close>

definition admitted_in :: "(CapabilityClass \<Rightarrow> bool) \<Rightarrow> world \<Rightarrow> LedgerEntry list" where
  "admitted_in G w = filter (\<lambda>e. le_Admitted e \<and> G (le_Capability e)) (lg_entries (w_ledger w))"

definition contacted_in :: "(CapabilityClass \<Rightarrow> bool) \<Rightarrow> world \<Rightarrow> ProviderCall list" where
  "contacted_in G w = filter (\<lambda>c. G (call_capability c)) (w_calls w)"

locale refused_capabilities =
  fixes G :: "CapabilityClass \<Rightarrow> bool" and ts :: "TenantPolicy list" and lat :: "CapabilityLattice list"
  assumes refused: "G (rq_CapabilityClass req) \<Longrightarrow>
      \<not> usl_admits \<lparr>ug_Tenants = ts, ug_Lattice = lat, ug_GovernanceEnforced = True\<rparr> req"

sublocale refused_capabilities \<subseteq>
  refused_inv: service_invariant "\<lambda>w. admitted_in G w = es \<and> contacted_in G w = cs" "\<lambda>_. False" G ts lat for es cs
  by unfold_locales (auto simp: refused admitted_in_def contacted_in_def call_capability_def)

context refused_capabilities
begin

lemma nothing_admitted:
  assumes "pool_run (endpoints ts lat token) (w, ps) (w', ps')" and "set ps \<subseteq> endpoints ts lat token"
  shows "admitted_in G w' = admitted_in G w \<and> contacted_in G w' = contacted_in G w"
  by (rule refused_inv.arrivals_keep [OF assms]) simp

end

text \<open>The gate of a configuration grants low-risk execution only; a gate without tenants admits nothing.\<close>

definition ungrantable :: "CapabilityClass \<Rightarrow> bool" where
  "ungrantable c \<longleftrightarrow> \<not> (cc_Action c = ''execute'' \<and> cc_Risk c = ''low'')"

interpretation configured: refused_capabilities ungrantable "fst (Build cfg)" "snd (Build cfg)" for cfg
proof
  fix req :: CapabilityRequest
  assume "ungrantable (rq_CapabilityClass req)"
  then have "\<not> capabilityGranted (gate_of cfg) (rq_CapabilityClass req) (rq_MLCALane req)"
    using gate_of_granted_execute_low by (auto simp: ungrantable_def)
  then show "\<not> usl_admits \<lparr>ug_Tenants = fst (Build cfg), ug_Lattice = snd (Build cfg), ug_GovernanceEnforced = True\<rparr> req"
    by (simp add: usl_admits_def gate_of_def)
qed

interpretation untenanted: refused_capabilities "\<lambda>_. True" "[]" lat for lat
  by unfold_locales (simp add: usl_admits_def findTenant_def)

end
