(* ===== verification/Admission.thy ===== *)
theory Admission
  imports Router
begin

text \<open>
  What one uninterrupted admission does.  \<open>admit_verdict\<close> is the abstract specification: the gate that
  decides and what it decides, read off the world at the start (and the answer of the adapter, which
  depends on when it is asked).  \<open>decided\<close> relates a verdict to a run of the program: the decision
  returned, the one ledger entry appended, the forced execution state, the provider contacts, and
  nothing else.  \<open>decided_Admit\<close> is the refinement.
\<close>

section \<open>The specification\<close>

record AdmitVerdict =
  v_Result :: AdmitResult
  v_Reason :: string
  v_RuleRef :: string
  v_Log :: "StageRecord list option"
  v_Stages :: "StageRecord list"
  v_Err :: "GoError option"
  v_Exec :: "ExecState option"
  v_Calls :: "ProviderCall list"

definition router_input :: "Router \<Rightarrow> CapabilityRequest \<Rightarrow> StageInput" where
  "router_input r req =
     \<lparr>si_Request = req, si_Tenants = ug_Tenants (rt_usl r), si_Lattice = ug_Lattice (rt_usl r)\<rparr>"

definition pipeline_result :: "Router \<Rightarrow> CapabilityRequest \<Rightarrow> world \<Rightarrow> StageOutput list \<times> bool" where
  "pipeline_result r req w = halt_at (stage_verdicts (router_input r req) (w_interrupts w) (w_driftOverride w))"

definition ledger_break_verdict :: AdmitVerdict where
  "ledger_break_verdict =
     \<lparr>v_Result = Deny, v_Reason = ''ledger chain integrity broken'', v_RuleRef = ''ledger.integrity'',
      v_Log = None, v_Stages = [], v_Err = Some ErrLedgerBreak, v_Exec = None, v_Calls = []\<rparr>"

definition terminated_verdict :: AdmitVerdict where
  "terminated_verdict =
     \<lparr>v_Result = Deny, v_Reason = ''operator termination'', v_RuleRef = Lambda6,
      v_Log = Some [stage_record StageOperatorCorrigibility False ''operator termination'' Lambda6],
      v_Stages = [], v_Err = Some ErrTerminated, v_Exec = Some ExecTerminated, v_Calls = []\<rparr>"

definition interrupted_verdict :: AdmitVerdict where
  "interrupted_verdict =
     \<lparr>v_Result = Deny, v_Reason = ''operator interruption'', v_RuleRef = Lambda6,
      v_Log = Some [stage_record StageOperatorCorrigibility False ''operator interrupt'' Lambda6],
      v_Stages = [], v_Err = Some ErrInterrupted, v_Exec = None, v_Calls = []\<rparr>"

definition halted_verdict :: "StageOutput list \<Rightarrow> AdmitVerdict" where
  "halted_verdict stages =
     \<lparr>v_Result = Deny, v_Reason = so_Reason (last stages), v_RuleRef = so_RuleRef (last stages),
      v_Log = Some (toStageRecords stages), v_Stages = toStageRecords stages, v_Err = None,
      v_Exec = None, v_Calls = []\<rparr>"

definition quarantined_verdict :: "StageRecord list \<Rightarrow> ImmuneDecision \<Rightarrow> AdmitVerdict" where
  "quarantined_verdict recs immune =
     \<lparr>v_Result = Quarantine, v_Reason = ''immune: '' @ id_Reason immune, v_RuleRef = ''immune.protocol'',
      v_Log = Some (recs @ [stage_record ''immune'' False (id_Reason immune) ''immune.protocol'']),
      v_Stages = [], v_Err = None, v_Exec = None, v_Calls = []\<rparr>"

definition no_provider_verdict :: "StageRecord list \<Rightarrow> AdmitVerdict" where
  "no_provider_verdict recs =
     \<lparr>v_Result = Deny, v_Reason = ''no enabled provider for capability'', v_RuleRef = ''provider.registry'',
      v_Log = Some (recs @ [stage_record ''provider'' False ''no provider registered'' ''provider.registry'']),
      v_Stages = [], v_Err = None, v_Exec = None, v_Calls = []\<rparr>"

definition asked :: "CapabilityRequest \<Rightarrow> ProviderCall list" where
  "asked req = [CallCapability (mr_ProviderID (rq_ModelRef req)) req]"

definition refused_verdict :: "CapabilityRequest \<Rightarrow> StageRecord list \<Rightarrow> string \<Rightarrow> AdmitVerdict" where
  "refused_verdict req recs reason =
     \<lparr>v_Result = Deny, v_Reason = ''adapter: '' @ reason, v_RuleRef = ''provider.adapter'',
      v_Log = Some (recs @ [stage_record ''provider'' False reason ''provider.adapter'']),
      v_Stages = [], v_Err = None, v_Exec = None, v_Calls = asked req\<rparr>"

definition commit_verdict :: "CapabilityRequest \<Rightarrow> StageRecord list \<Rightarrow> AdmitVerdict" where
  "commit_verdict req recs =
     \<lparr>v_Result = Admit, v_Reason = ''admitted'', v_RuleRef = ''usl.gate'', v_Log = Some recs,
      v_Stages = recs, v_Err = None, v_Exec = None, v_Calls = asked req\<rparr>"

text \<open>\<open>n\<close> is the position in the run at which the adapter is asked.\<close>

definition admit_verdict :: "Router \<Rightarrow> CapabilityRequest \<Rightarrow> world \<Rightarrow> nat \<Rightarrow> AdmitVerdict" where
  "admit_verdict r req w n =
     (let i = rq_IntentID req;
          stages = fst (pipeline_result r req w);
          recs = toStageRecords stages;
          immune = operator_approval r req (Classify_decision req)
      in if \<not> fst (Verify (w_ledger w)) then ledger_break_verdict
         else if IsTerminated (w_interrupts w) i then terminated_verdict
         else if IsInterrupted (w_interrupts w) i then interrupted_verdict
         else if \<not> snd (pipeline_result r req w) then halted_verdict stages
         else if id_Result immune \<noteq> ImmuneAllow then quarantined_verdict recs immune
         else case w_providers w (mr_ProviderID (rq_ModelRef req)) of
             None \<Rightarrow> no_provider_verdict recs
           | Some a \<Rightarrow>
               (case ap_CapabilityRequest a n req of (ok, reason) \<Rightarrow>
                  if ok then commit_verdict req recs else refused_verdict req recs reason))"

definition verdict_entry :: "CapabilityRequest \<Rightarrow> AdmitVerdict \<Rightarrow> string \<Rightarrow> string \<Rightarrow> LedgerEntry" where
  "verdict_entry req v did rid =
     (decision_entry 0 req (v_Result v = Admit) (v_Result v) (v_Reason v) (v_RuleRef v) did (v_Log v))
       \<lparr>le_ReplayID := rid\<rparr>"

definition forced :: "string \<Rightarrow> ExecState option \<Rightarrow> ExecutionState \<Rightarrow> ExecutionState" where
  "forced i s e = (case s of None \<Rightarrow> e | Some st \<Rightarrow> Forcibly i st e)"

definition decided ::
  "CapabilityRequest \<Rightarrow> AdmitVerdict \<Rightarrow> world \<Rightarrow> (AdmissionOutcome \<times> GoError option) \<times> world \<Rightarrow> bool" where
  "decided req v w res \<longleftrightarrow>
     (let out = fst (fst res); d = ao_Decision out in
      ad_Result d = v_Result v \<and> ad_Reason d = v_Reason v \<and> ad_RuleRef d = v_RuleRef v
      \<and> ad_RequestID d = rq_RequestID req \<and> ao_Stages out = v_Stages v \<and> snd (fst res) = v_Err v
      \<and> (\<exists>t rid. let app = Append t (verdict_entry req v (ad_DecisionID d) rid) (w_ledger w) in
           ao_Entry out = fst app
           \<and> gov (snd res) = gov (w\<lparr>w_ledger := snd app,
               w_exec := forced (rq_IntentID req) (v_Exec v) (w_exec w), w_calls := w_calls w @ v_Calls v\<rparr>)))"

section \<open>Each gate refines its verdict\<close>

lemma decision_entry_replay:
  "decision_entry now req adm res reason rule did lg =
     (decision_entry 0 req adm res reason rule did lg)\<lparr>le_ReplayID := replay_marker (rq_IntentID req) now\<rparr>"
  by (simp add: decision_entry_def)

text \<open>The decision built by every branch, and the state it leaves.\<close>

definition decision_for :: "CapabilityRequest \<Rightarrow> AdmitVerdict \<Rightarrow> AdmissionDecision \<Rightarrow> bool" where
  "decision_for req v d \<longleftrightarrow> ad_Result d = v_Result v \<and> ad_Reason d = v_Reason v
     \<and> ad_RuleRef d = v_RuleRef v \<and> ad_RequestID d = rq_RequestID req"

lemma quiet_new_decision [quiet_intros]: "quiet (new_decision req res reason rule)"
  unfolding new_decision_def decID_def admittedDecision_def by (intro quiet_intros)

lemma decision_for_new:
  "v_Result v = res \<Longrightarrow> v_Reason v = reason \<Longrightarrow> v_RuleRef v = rule \<Longrightarrow>
     decision_for req v (fst (run (new_decision req res reason rule) w))"
  by (simp add: decision_for_def new_decision_def decID_def admittedDecision_def run_simps)

lemma run_ledger_Append:
  "run (ledger_Append e) w =
     (fst (Append (w_clock w (w_pos w)) e (w_ledger w)),
      (tick w)\<lparr>w_ledger := snd (Append (w_clock w (w_pos w)) e (w_ledger w))\<rparr>)"
  by (simp add: ledger_Append_def run_simps split: prod.splits)

lemma decided_gov: "gov w = gov w' \<Longrightarrow> decided req v w res \<longleftrightarrow> decided req v w' res"
proof -
  assume eq: "gov w = gov w'"
  have upd: "gov (w\<lparr>w_ledger := l, w_exec := e, w_calls := c\<rparr>) = gov (w'\<lparr>w_ledger := l, w_exec := e, w_calls := c\<rparr>)"
    for l e c by (intro gov_update_cong eq)
  show ?thesis by (simp only: decided_def upd gov_fields [OF eq])
qed

lemma world_update_order:
  "w\<lparr>w_exec := e, w_calls := c, w_ledger := l\<rparr> = w\<lparr>w_ledger := l, w_exec := e, w_calls := c\<rparr>"
  by (cases w) simp

text \<open>Appending the entry of the verdict and returning, from a state already updated by the branch.\<close>

lemma decided_append:
  assumes d: "decision_for req v d"
    and e: "e = verdict_entry req v (ad_DecisionID d) rid"
    and w1: "gov w1 = gov (w\<lparr>w_exec := forced (rq_IntentID req) (v_Exec v) (w_exec w), w_calls := w_calls w @ v_Calls v\<rparr>)"
    and T: "\<And>e. quiet (T e)" "\<And>e w. fst (run (T e) w) = (outcome d e (v_Stages v), v_Err v)"
  shows "decided req v w (run (bindP (ledger_Append e) T) w1)"
proof -
  let ?t = "w_clock w1 (w_pos w1)"
  let ?app = "Append ?t e (w_ledger w)"
  let ?w2 = "(tick w1)\<lparr>w_ledger := snd ?app\<rparr>"
  have led: "w_ledger w1 = w_ledger w" using gov_fields(3) [OF w1] by simp
  have run: "run (bindP (ledger_Append e) T) w1 = run (T (fst ?app)) ?w2"
    by (simp add: run_simps run_ledger_Append led)
  have "gov (snd (run (T (fst ?app)) ?w2)) = gov ?w2" by (rule quiet_run [OF T(1)])
  also have "\<dots> = gov (w\<lparr>w_exec := forced (rq_IntentID req) (v_Exec v) (w_exec w), w_calls := w_calls w @ v_Calls v,
      w_ledger := snd ?app\<rparr>)"
    by (intro gov_update_cong) (simp add: w1)
  finally have "gov (snd (run (T (fst ?app)) ?w2)) =
      gov (w\<lparr>w_ledger := snd ?app, w_exec := forced (rq_IntentID req) (v_Exec v) (w_exec w),
        w_calls := w_calls w @ v_Calls v\<rparr>)" by (simp add: world_update_order)
  with d show ?thesis
    unfolding run decided_def Let_def T(2)
    by (auto simp: outcome_def decision_for_def e intro!: exI [of _ ?t] exI [of _ rid])
qed

lemma decided_write:
  assumes d: "decision_for req v d" and "v_Log v = Some lg" and "admitted \<longleftrightarrow> v_Result v = Admit"
    and w1: "gov w1 = gov (w\<lparr>w_exec := forced (rq_IntentID req) (v_Exec v) (w_exec w), w_calls := w_calls w @ v_Calls v\<rparr>)"
    and T: "\<And>e. quiet (T e)" "\<And>e w. fst (run (T e) w) = (outcome d e (v_Stages v), v_Err v)"
  shows "decided req v w (run (bindP (write_decision req admitted d lg) T) w1)"
proof -
  let ?now = "fst (run time_Now w1)"
  let ?e = "decision_entry ?now req admitted (ad_Result d) (ad_Reason d) (ad_RuleRef d) (ad_DecisionID d) (Some lg)"
  have e: "?e = verdict_entry req v (ad_DecisionID d) (replay_marker (rq_IntentID req) ?now)"
    using assms(1-3) by (simp add: verdict_entry_def decision_for_def flip: decision_entry_replay)
  have w2: "gov (snd (run time_Now w1)) =
      gov (w\<lparr>w_exec := forced (rq_IntentID req) (v_Exec v) (w_exec w), w_calls := w_calls w @ v_Calls v\<rparr>)"
    using w1 by (simp add: quiet_run [OF quiet_time_Now])
  have "run (bindP (write_decision req admitted d lg) T) w1 = run (bindP (ledger_Append ?e) T) (snd (run time_Now w1))"
    by (simp add: write_decision_def WriteDecision_def run_simps)
  with decided_append [OF d e w2 T] show ?thesis by simp
qed

lemma forced_None [simp]: "forced i None e = e"
  by (simp add: forced_def)

text \<open>The common shape of a branch: build the decision, write it, return.\<close>

lemma decided_branch:
  assumes v: "v_Result v = res" "v_Reason v = reason" "v_RuleRef v = rule" "v_Log v = Some lg" "v_Exec v = None"
    and "admitted \<longleftrightarrow> res = Admit"
    and w1: "gov w1 = gov (w\<lparr>w_calls := w_calls w @ v_Calls v\<rparr>)"
    and T: "\<And>d e. quiet (T d e)" "\<And>d e w. fst (run (T d e) w) = (outcome d e (v_Stages v), v_Err v)"
  shows "decided req v w
    (run (bindP (new_decision req res reason rule) (\<lambda>d. bindP (write_decision req admitted d lg) (T d))) w1)"
proof -
  let ?d = "fst (run (new_decision req res reason rule) w1)"
  let ?w2 = "snd (run (new_decision req res reason rule) w1)"
  have "gov ?w2 = gov (w\<lparr>w_exec := forced (rq_IntentID req) (v_Exec v) (w_exec w), w_calls := w_calls w @ v_Calls v\<rparr>)"
    using w1 v(5) by (simp add: quiet_run [OF quiet_new_decision])
  then show ?thesis
    unfolding run_bindP [of "new_decision req res reason rule"]
    by (intro decided_write [where d = ?d] decision_for_new T) (use assms in simp_all)
qed

lemmas tail_simps = run_simps outcome_def

lemma decided_halted:
  assumes "stages \<noteq> []"
  shows "decided req (halted_verdict stages) w (run (admit_halted req stages) w)"
  unfolding admit_halted_def Let_def butlast_last_nth [OF assms]
  by (rule decided_branch) (auto simp: halted_verdict_def tail_simps intro!: quiet_intros)

lemma decided_quarantined:
  "decided req (quarantined_verdict recs immune) w (run (admit_quarantined req recs immune) w)"
  unfolding admit_quarantined_def
  by (rule decided_branch) (auto simp: quarantined_verdict_def tail_simps intro!: quiet_intros)

lemma decided_no_provider:
  "decided req (no_provider_verdict recs) w (run (admit_no_provider req recs) w)"
  unfolding admit_no_provider_def
  by (rule decided_branch) (auto simp: no_provider_verdict_def tail_simps intro!: quiet_intros)

lemma decided_refused:
  "gov w1 = gov (w\<lparr>w_calls := w_calls w @ asked req\<rparr>) \<Longrightarrow>
     decided req (refused_verdict req recs reason) w (run (admit_refused req recs reason) w1)"
  unfolding admit_refused_def
  by (rule decided_branch) (auto simp: refused_verdict_def tail_simps intro!: quiet_intros)

lemma decided_commit:
  "gov w1 = gov (w\<lparr>w_calls := w_calls w @ asked req\<rparr>) \<Longrightarrow>
     decided req (commit_verdict req recs) w (run (admit_commit req recs) w1)"
  unfolding admit_commit_def
  by (rule decided_branch) (auto simp: commit_verdict_def tail_simps intro!: quiet_intros)

lemma decided_interrupted:
  "decided req interrupted_verdict w (run (admit_interrupted req start) w)"
proof -
  let ?pre = "seqP (inc MetricInterrupts []) (observe_since MetricInterruptLatency [] start)"
  have "gov (snd (run ?pre w)) = gov w" by (rule quiet_run) (intro quiet_intros)
  then show ?thesis
    unfolding admit_interrupted_def run_seqP [of "inc MetricInterrupts []"] run_seqP [of "observe_since MetricInterruptLatency [] start"]
    by (intro decided_branch) (auto simp: interrupted_verdict_def tail_simps intro!: quiet_intros)
qed

lemma decided_terminated: "decided req terminated_verdict w (run (admit_terminated req) w)"
proof -
  let ?w1 = "snd (run (inc MetricInterrupts []) w)"
  let ?nd = "new_decision req Deny ''operator termination'' Lambda6"
  let ?w2 = "snd (run ?nd ?w1)"
  have g2: "gov ?w2 = gov w"
    by (simp add: quiet_run [OF quiet_new_decision] quiet_run [OF quiet_metric(2)])
  have w2: "gov (snd (run (exec_Forcibly (rq_IntentID req) ExecTerminated) ?w2)) =
      gov (w\<lparr>w_exec := Forcibly (rq_IntentID req) ExecTerminated (w_exec w)\<rparr>)"
    unfolding exec_Forcibly_def run_modify snd_conv gov_fields(5) [OF g2] by (rule gov_update_cong(2) [OF g2])
  show ?thesis
    unfolding admit_terminated_def run_seqP [of "inc MetricInterrupts []"] run_bindP [of ?nd]
      run_seqP [of "exec_Forcibly (rq_IntentID req) ExecTerminated"]
    by (rule decided_write)
      (auto simp: terminated_verdict_def tail_simps forced_def w2 intro!: decision_for_new quiet_intros)
qed

lemma decided_ledger_break: "decided req ledger_break_verdict w (run (admit_ledger_break req) w)"
proof -
  let ?w1 = "snd (run (inc MetricLedgerChainBreaks []) w)"
  let ?nd = "new_decision req Deny ''ledger chain integrity broken'' ''ledger.integrity''"
  have w2: "gov (snd (run ?nd ?w1)) = gov w"
    by (simp add: quiet_run [OF quiet_new_decision] quiet_run [OF quiet_metric(2)])
  show ?thesis
    unfolding admit_ledger_break_def run_seqP [of "inc MetricLedgerChainBreaks []"] run_bindP [of ?nd]
    by (rule decided_append [where rid = "''replay-'' @ rq_IntentID req" and d = "fst (run ?nd ?w1)"])
      (auto simp: ledger_break_verdict_def verdict_entry_def decision_entry_def zero_LedgerEntry_def
        tail_simps w2 intro!: decision_for_new quiet_intros)
qed

section \<open>The whole admission\<close>

lemma decided_after: "decided req v w (res, w1) \<Longrightarrow> gov w2 = gov w1 \<Longrightarrow> decided req v w (res, w2)"
  by (simp add: decided_def)

text \<open>
  From here on the pipeline has let the request pass: the world differs from the first one in metrics
  and clock position only, and the overrides are still the ones read at the start.
\<close>

lemma decided_provider:
  assumes g: "gov w1 = gov w"
    and free: "\<not> IsTerminated (w_interrupts w) (rq_IntentID req)" "\<not> IsInterrupted (w_interrupts w) (rq_IntentID req)"
  shows "\<exists>n. decided req
     (case w_providers w (mr_ProviderID (rq_ModelRef req)) of
        None \<Rightarrow> no_provider_verdict recs
      | Some a \<Rightarrow> (case ap_CapabilityRequest a n req of (ok, reason) \<Rightarrow>
           if ok then commit_verdict req recs else refused_verdict req recs reason))
     w (run (admit_provider req start recs) w1)"
proof (cases "w_providers w (mr_ProviderID (rq_ModelRef req))")
  case None
  then have "run (admit_provider req start recs) w1 = run (admit_no_provider req recs) w1"
    by (simp add: admit_provider_def provider_lookup_def run_simps gov_fields(7) [OF g])
  moreover have "decided req (no_provider_verdict recs) w (run (admit_no_provider req recs) w1)"
    using decided_no_provider decided_gov [OF g] by blast
  ultimately show ?thesis using None by simp
next
  case (Some a)
  let ?call = "call_CapabilityRequest a req"
  let ?w2 = "snd (run ?call w1)"
  obtain ok reason where ans: "ap_CapabilityRequest a (w_pos w1) req = (ok, reason)" by fastforce
  have w2: "gov ?w2 = gov (w\<lparr>w_calls := w_calls w @ asked req\<rparr>)"
    unfolding call_CapabilityRequest_def run_atomic snd_conv asked_def gov_fields(8) [OF g]
    by (rule gov_update_cong) (simp add: g)
  have int: "w_interrupts ?w2 = w_interrupts w" using gov_fields(4) [OF w2] by simp
  have run: "run (admit_provider req start recs) w1 =
      run (if \<not> ok then admit_refused req recs reason else admit_in_flight req start recs) ?w2"
    by (simp add: admit_provider_def provider_lookup_def run_simps gov_fields(7) [OF g] Some ans
        call_CapabilityRequest_def)
  have "run (admit_in_flight req start recs) ?w2 = run (admit_commit req recs) ?w2"
    using free by (simp add: admit_in_flight_def isTerminated_def isInterrupted_def run_simps int)
  with run Some ans decided_refused [OF w2] decided_commit [OF w2]
  show ?thesis by (auto intro!: exI [of _ "w_pos w1"])
qed

lemma decided_pipeline:
  assumes g: "gov w1 = gov w" and gre: "rt_gre r = NewGRE1001 u"
    and verified: "fst (Verify (w_ledger w))"
    and free: "\<not> IsTerminated (w_interrupts w) (rq_IntentID req)" "\<not> IsInterrupted (w_interrupts w) (rq_IntentID req)"
  shows "\<exists>n. decided req (admit_verdict r req w n) w (run (admit_pipeline r req start) w1)"
proof -
  let ?gre = "GRE_Run (rt_gre r) (router_input r req)"
  let ?w2 = "snd (run ?gre w1)" and ?w3 = "snd (run (Immune_Classify req) (snd (run ?gre w1)))"
  have res: "fst (run ?gre w1) = pipeline_result r req w"
    unfolding gre run_GRE_Run pipeline_result_def gov_fields(4) [OF g] gov_fields(6) [OF g] ..
  have g2: "gov ?w2 = gov w" unfolding gre run_GRE_Run by (rule g)
  have g3: "gov ?w3 = gov w" using g2 by (simp add: quiet_run [OF quiet_Immune_Classify])
  obtain stages ok where so: "pipeline_result r req w = (stages, ok)" by fastforce
  define immune where "immune = operator_approval r req (Classify_decision req)"
  have run: "run (admit_pipeline r req start) w1 =
      (if \<not> ok then run (admit_halted req stages) ?w2
       else if id_Result immune \<noteq> ImmuneAllow then run (admit_quarantined req (toStageRecords stages) immune) ?w3
       else run (admit_provider req start (toStageRecords stages)) ?w3)"
    unfolding admit_pipeline_def router_input_def [symmetric] run_bindP res so
    by (simp add: run_simps run_Immune_Classify immune_def Let_def)
  have nonempty: "stages \<noteq> []" if "\<not> ok"
    using that so halt_at_failed [of "stage_verdicts (router_input r req) (w_interrupts w) (w_driftOverride w)"]
    by (auto simp: pipeline_result_def)
  show ?thesis
  proof (cases "ok \<and> id_Result immune = ImmuneAllow")
    case True
    then show ?thesis
      using decided_provider [OF g3 free, of "toStageRecords stages" start] verified free
      unfolding run by (simp add: admit_verdict_def Let_def so immune_def)
  next
    case False
    have "decided req (halted_verdict stages) w (run (admit_halted req stages) ?w2)" if "\<not> ok"
      using decided_halted [OF nonempty [OF that]] decided_gov [OF g2] by blast
    moreover have "decided req (quarantined_verdict (toStageRecords stages) immune) w
        (run (admit_quarantined req (toStageRecords stages) immune) ?w3)"
      using decided_quarantined decided_gov [OF g3] by blast
    ultimately show ?thesis
      using False verified free unfolding run by (auto simp: admit_verdict_def Let_def so immune_def)
  qed
qed

lemma run_gates:
  assumes g: "gov w1 = gov w" and gre: "rt_gre r = NewGRE1001 u"
  shows "\<exists>n. decided req (admit_verdict r req w n) w (run (admit_gates r req start) w1)"
proof -
  note fields = gov_fields(3,4) [OF g]
  have run: "run (admit_gates r req start) w1 =
      (if \<not> fst (Verify (w_ledger w)) then run (admit_ledger_break req) w1
       else if IsTerminated (w_interrupts w) (rq_IntentID req) then run (admit_terminated req) w1
       else if IsInterrupted (w_interrupts w) (rq_IntentID req) then run (admit_interrupted req start) w1
       else run (admit_pipeline r req start) w1)"
    by (simp add: admit_gates_def ledger_Verify_def isTerminated_def isInterrupted_def run_simps fields
        split: prod.splits)
  have "decided req ledger_break_verdict w (run (admit_ledger_break req) w1)"
    and "decided req terminated_verdict w (run (admit_terminated req) w1)"
    and "decided req interrupted_verdict w (run (admit_interrupted req start) w1)"
    using decided_ledger_break decided_terminated decided_interrupted decided_gov [OF g] by blast+
  then show ?thesis
    using decided_pipeline [OF g gre, of req start] unfolding run by (auto simp: admit_verdict_def Let_def)
qed

lemma decided_Admit:
  assumes gre: "rt_gre r = NewGRE1001 u"
  shows "\<exists>n. decided req (admit_verdict r req w n) w (run (Router_Admit r req) w)"
proof -
  let ?start = "fst (run time_Now w)" and ?w1 = "snd (run time_Now w)"
  have g: "gov ?w1 = gov w" by (rule quiet_run [OF quiet_time_Now])
  obtain n where n: "decided req (admit_verdict r req w n) w (run (admit_gates r req ?start) ?w1)"
    using run_gates [OF g gre] by blast
  let ?w2 = "snd (run (admit_gates r req ?start) ?w1)"
  have "run (Router_Admit r req) w =
      (fst (run (admit_gates r req ?start) ?w1), snd (run (observe_since MetricCycleLatency [] ?start) ?w2))"
    by (simp add: Router_Admit_def run_simps)
  moreover have "gov (snd (run (observe_since MetricCycleLatency [] ?start) ?w2)) = gov ?w2"
    by (rule quiet_run [OF quiet_observe_since])
  ultimately show ?thesis using n decided_after [of req _ w "fst (run (admit_gates r req ?start) ?w1)" ?w2] by auto
qed

section \<open>Consequences\<close>

text \<open>When an uninterrupted admission ends in \<open>ADMIT\<close>; \<open>n\<close> is when the adapter is asked.\<close>

definition admissible :: "Router \<Rightarrow> CapabilityRequest \<Rightarrow> world \<Rightarrow> nat \<Rightarrow> bool" where
  "admissible r req w n \<longleftrightarrow>
     fst (Verify (w_ledger w))
     \<and> pipeline_passes (router_input r req) (w_interrupts w) (w_driftOverride w)
     \<and> id_Result (operator_approval r req (Classify_decision req)) = ImmuneAllow
     \<and> (\<exists>a. w_providers w (mr_ProviderID (rq_ModelRef req)) = Some a \<and> fst (ap_CapabilityRequest a n req))"

lemma verdict_fields [simp]:
  "v_Result ledger_break_verdict = Deny" "v_Result terminated_verdict = Deny" "v_Result interrupted_verdict = Deny"
  "v_Result (halted_verdict ss) = Deny" "v_Result (quarantined_verdict recs im) = Quarantine"
  "v_Result (no_provider_verdict recs) = Deny" "v_Result (refused_verdict req recs reason) = Deny"
  "v_Result (commit_verdict req recs) = Admit"
  by (simp_all add: ledger_break_verdict_def terminated_verdict_def interrupted_verdict_def halted_verdict_def
      quarantined_verdict_def no_provider_verdict_def refused_verdict_def commit_verdict_def)

lemma verdict_Admit: "v_Result (admit_verdict r req w n) = Admit \<longleftrightarrow> admissible r req w n"
proof -
  have "snd (pipeline_result r req w) \<longleftrightarrow>
      pipeline_passes (router_input r req) (w_interrupts w) (w_driftOverride w)"
    by (simp add: pipeline_result_def GRE_Run_ok)
  moreover have "pipeline_passes (router_input r req) s d \<Longrightarrow>
      \<not> IsTerminated s (rq_IntentID req) \<and> \<not> IsInterrupted s (rq_IntentID req)" for s d
    by (simp add: pipeline_passes_def router_input_def Let_def overridden_def)
  ultimately show ?thesis
    by (auto simp: admit_verdict_def admissible_def Let_def split: option.splits prod.splits)
qed

text \<open>The parts of the world after an admission, read off \<open>decided\<close>.\<close>

lemma decided_world:
  assumes "decided req v w res"
  shows "w_calls (snd res) = w_calls w @ v_Calls v" "w_interrupts (snd res) = w_interrupts w"
    "w_providers (snd res) = w_providers w" "w_exec (snd res) = forced (rq_IntentID req) (v_Exec v) (w_exec w)"
    "lg_entries (w_ledger (snd res)) = lg_entries (w_ledger w) @ [ao_Entry (fst (fst res))]"
proof -
  obtain t e where entry: "ao_Entry (fst (fst res)) = fst (Append t e (w_ledger w))"
    and g: "gov (snd res) = gov (w\<lparr>w_ledger := snd (Append t e (w_ledger w)),
      w_exec := forced (rq_IntentID req) (v_Exec v) (w_exec w), w_calls := w_calls w @ v_Calls v\<rparr>)"
    using assms by (auto simp: decided_def Let_def)
  show "w_calls (snd res) = w_calls w @ v_Calls v" "w_interrupts (snd res) = w_interrupts w"
    "w_providers (snd res) = w_providers w" "w_exec (snd res) = forced (rq_IntentID req) (v_Exec v) (w_exec w)"
    "lg_entries (w_ledger (snd res)) = lg_entries (w_ledger w) @ [ao_Entry (fst (fst res))]"
    using gov_fields [OF g] entry by simp_all
qed

lemma verdict_commit:
  "v_Result (admit_verdict r req w n) = Admit \<Longrightarrow>
     admit_verdict r req w n = commit_verdict req (toStageRecords (fst (pipeline_result r req w)))"
  by (auto simp: admit_verdict_def Let_def split: if_splits option.splits prod.splits)

lemma verdict_conflict:
  "v_Err (admit_verdict r req w n) = Some ErrInterrupted \<or> v_Err (admit_verdict r req w n) = Some ErrTerminated \<longleftrightarrow>
     fst (Verify (w_ledger w)) \<and> (IsTerminated (w_interrupts w) (rq_IntentID req) \<or> IsInterrupted (w_interrupts w) (rq_IntentID req))"
  by (auto simp: admit_verdict_def Let_def ledger_break_verdict_def terminated_verdict_def interrupted_verdict_def
      halted_verdict_def quarantined_verdict_def no_provider_verdict_def refused_verdict_def commit_verdict_def
      split: option.splits prod.splits)

lemma verdict_no_generate: "CallGenerate p q \<notin> set (v_Calls (admit_verdict r req w n))"
  by (auto simp: admit_verdict_def Let_def ledger_break_verdict_def terminated_verdict_def interrupted_verdict_def
      halted_verdict_def quarantined_verdict_def no_provider_verdict_def refused_verdict_def commit_verdict_def asked_def
      split: option.splits prod.splits)

lemma verdict_results: "v_Result (admit_verdict r req w n) \<in> {Admit, Deny, Quarantine}"
  by (auto simp: admit_verdict_def Let_def split: option.splits prod.splits)

subsection \<open>The coherence projection of a request\<close>

lemma checkLambda4_coherence: "checkLambda4 (req\<lparr>rq_Coherence := c\<rparr>) ts = checkLambda4 req ts"
  by (induction ts) auto

lemma usl_verdict_coherence: "usl_verdict u (req\<lparr>rq_Coherence := c\<rparr>) = usl_verdict u req"
  by (simp add: usl_verdict_def cong: option.case_cong if_cong)

lemma immune_coherence:
  "operator_approval r (req\<lparr>rq_Coherence := c\<rparr>) (Classify_decision (req\<lparr>rq_Coherence := c\<rparr>)) =
     operator_approval r req (Classify_decision req)"
  by (simp add: operator_approval_def Classify_decision_def)

section \<open>Properties\<close>

text \<open>
  C5: an uninterrupted \<open>Admit\<close> takes exactly the decision of the first gate that applies (ledger
  integrity, termination, interruption, pipeline, immune protocol, provider registry, adapter), with
  that gate's reason and rule reference; it appends exactly one ledger entry that records this
  decision, contacts the provider only to ask for the capability, forces an execution state only for
  a terminated intent, and changes nothing else.  It ends in \<open>ADMIT\<close> exactly when the request is
  admissible.
\<close>

theorem Admit_refines_verdict:
  "\<exists>n. decided req (admit_verdict (make_Router ts lat) req w n) w (run (Router_Admit (make_Router ts lat) req) w)
     \<and> (ad_Result (ao_Decision (fst (fst (run (Router_Admit (make_Router ts lat) req) w)))) = Admit
        \<longleftrightarrow> admissible (make_Router ts lat) req w n)"
proof -
  obtain n where "decided req (admit_verdict (make_Router ts lat) req w n) w (run (Router_Admit (make_Router ts lat) req) w)"
    using decided_Admit [OF make_Router_gre] by blast
  moreover from this have "ad_Result (ao_Decision (fst (fst (run (Router_Admit (make_Router ts lat) req) w)))) =
      v_Result (admit_verdict (make_Router ts lat) req w n)"
    by (simp add: decided_def Let_def)
  ultimately show ?thesis by (auto simp: verdict_Admit)
qed

end
