(* ===== verification/GovernedExecution.thy ===== *)
theory GovernedExecution
  imports Service Admission
begin

text \<open>
  Execution under governance, for every interleaving of the endpoints: a provider generates, and an
  execution is written to the ledger, only after the ledger holds an admission of the same request.

  \<open>advances\<close> is the relation along which every atomic action of the service moves: the ledger is only
  extended, and a governed world stays governed.  It interprets the contract \<open>pool_relation\<close>; the one
  fact that has to be carried from \<open>Admit\<close> to the execution is that the admission is in the ledger,
  which no other goroutine can undo.
\<close>

section \<open>Definitions\<close>

text \<open>\<open>a\<close> is the admission that the execution entry \<open>e\<close> refers to.\<close>

definition backs :: "LedgerEntry \<Rightarrow> LedgerEntry \<Rightarrow> bool" where
  "backs a e \<longleftrightarrow>
     le_Admitted a \<and> le_Result a = Admit \<and> le_RuleRef a = ''usl.gate'' \<and> le_ExecutionHash a = []
     \<and> le_DecisionID a = le_DecisionID e \<and> le_RequestID a = le_RequestID e \<and> le_IntentID a = le_IntentID e
     \<and> le_TenantID a = le_TenantID e \<and> le_MLCALane a = le_MLCALane e \<and> le_Capability a = le_Capability e
     \<and> le_Provider a = le_Provider e"

definition executions_backed :: "LedgerEntry list \<Rightarrow> bool" where
  "executions_backed es \<longleftrightarrow>
     (\<forall>k<length es. le_ExecutionHash (es ! k) \<noteq> [] \<longrightarrow> (\<exists>j<k. backs (es ! j) (es ! k)))"

text \<open>The ledger holds an admission of the request under the decision identifier.\<close>

definition admission_logged :: "CapabilityRequest \<Rightarrow> string \<Rightarrow> world \<Rightarrow> bool" where
  "admission_logged req did w \<longleftrightarrow>
     (\<exists>a\<in>set (lg_entries (w_ledger w)). backs a (execution_entry 0 req did []))"

definition generations_backed :: "world \<Rightarrow> bool" where
  "generations_backed w \<longleftrightarrow>
     (\<forall>p req. CallGenerate p req \<in> set (w_calls w) \<longrightarrow> (\<exists>did. admission_logged req did w))"

definition governed :: "world \<Rightarrow> bool" where
  "governed w \<longleftrightarrow> executions_backed (lg_entries (w_ledger w)) \<and> generations_backed w"

definition advances :: "world \<Rightarrow> world \<Rightarrow> bool" where
  "advances w w' \<longleftrightarrow>
     (\<exists>new. lg_entries (w_ledger w') = lg_entries (w_ledger w) @ new) \<and> (governed w \<longrightarrow> governed w')"

section \<open>Facts\<close>

interpretation adv: pool_relation advances
  by unfold_locales (auto simp: advances_def)

lemma executions_backed_snoc:
  "executions_backed (es @ [e]) \<longleftrightarrow>
     executions_backed es \<and> (le_ExecutionHash e \<noteq> [] \<longrightarrow> (\<exists>a\<in>set es. backs a e))"
  unfolding executions_backed_def by (rule earlier_snoc)

lemma admission_logged_mono:
  "admission_logged req did w \<Longrightarrow> advances w w' \<Longrightarrow> admission_logged req did w'"
  by (auto simp: admission_logged_def advances_def)

lemma stable_logged: "adv.stable (admission_logged req did)"
  unfolding adv.stable_def using admission_logged_mono by blast

lemma backs_execution_entry:
  "backs a (execution_entry t req did h) \<longleftrightarrow> backs a (execution_entry 0 req did [])"
  by (simp add: backs_def execution_entry_def)

lemma governed_gov: "gov w = gov v \<Longrightarrow> governed w \<longleftrightarrow> governed v"
  by (simp add: governed_def generations_backed_def admission_logged_def gov_fields [of w v])

lemma advances_gov: "gov w' = gov w \<Longrightarrow> advances w w'"
  using governed_gov [of w' w] gov_fields(3) [of w' w] by (simp add: advances_def)

lemma follows_quiet: "quiet p \<Longrightarrow> adv.follows p"
  unfolding quiet_def by (induction p) (auto simp: adv.follows_def intro: advances_gov)

text \<open>The ledger writes: an entry without execution hash needs nothing, an execution needs its admission.\<close>

lemma generations_backed_append:
  "generations_backed w \<Longrightarrow> generations_backed ((tick w)\<lparr>w_ledger := snd (Append t e (w_ledger w))\<rparr>)"
  by (fastforce simp: generations_backed_def admission_logged_def tick_def)

lemma advances_append:
  assumes "le_ExecutionHash e = [] \<or> (\<exists>a\<in>set (lg_entries (w_ledger w)). backs a e)"
  shows "advances w ((tick w)\<lparr>w_ledger := snd (Append t e (w_ledger w))\<rparr>)"
proof -
  have "backs a (fst (Append t e (w_ledger w))) \<longleftrightarrow> backs a e" for a by (simp add: backs_def)
  with assms show ?thesis
    by (auto simp: advances_def governed_def executions_backed_snoc generations_backed_append)
qed

lemma follows_ledger_Append: "le_ExecutionHash e = [] \<Longrightarrow> adv.follows (ledger_Append e)"
  unfolding ledger_Append_def
  by (rule adv.follows_atomic) (simp add: Let_def case_prod_beta advances_append)

lemma follows_WriteDecision: "adv.follows (WriteDecision req a res reason rule did lg)"
  unfolding WriteDecision_def
  by (intro adv.follows_bindP follows_quiet [OF quiet_time_Now] follows_ledger_Append)
    (simp add: decision_entry_def zero_LedgerEntry_def)

lemma follows_state:
  "adv.follows (exec_Forcibly i s)" "adv.follows (override f)" "adv.follows (exec_Transition i c n)"
  "adv.follows (call_CapabilityRequest a req)"
  unfolding exec_Forcibly_def override_def exec_Transition_def call_CapabilityRequest_def
  by (auto intro!: adv.follows_modify adv.follows_atomic simp: advances_def governed_def generations_backed_def
      admission_logged_def tick_def Let_def case_prod_beta)

lemmas follows_actions = adv.follows_bindP adv.follows_seqP adv.follows_Ret adv.follows_gets follows_state
  follows_WriteDecision follows_quiet [OF quiet_metric(2)] follows_quiet [OF quiet_observe_since]
  follows_quiet [OF quiet_time_Now] follows_quiet [OF quiet_new_decision] quiet_reads [THEN follows_quiet]
  follows_quiet [OF quiet_GRE_Run] follows_quiet [OF quiet_Immune_Classify] follows_quiet [OF quiet_respond]

section \<open>Admission\<close>

text \<open>
  The postcondition of \<open>Admit\<close>: a successful outcome has its admission in the ledger.
\<close>

definition logged_outcome :: "CapabilityRequest \<Rightarrow> AdmissionOutcome \<times> GoError option \<Rightarrow> world \<Rightarrow> bool" where
  "logged_outcome req res w \<longleftrightarrow>
     (snd res = None \<and> ad_Result (ao_Decision (fst res)) = Admit \<longrightarrow>
        admission_logged req (ad_DecisionID (ao_Decision (fst res))) w)"

text \<open>What \<open>new_decision\<close> returns does not depend on the world, up to identifier and time.\<close>

lemma rg_new_decision: "rg advances (\<lambda>d _. ad_Result d = res \<and> ad_Reason d = reason \<and> ad_RuleRef d = rule)
    (new_decision req res reason rule) w"
  unfolding new_decision_def decID_def admittedDecision_def time_Now_def
  by (auto intro!: adv.rg_bindP [where Q = "\<lambda>_ _. True"] adv.rg_atomic adv.rg_Ret advances_gov)

text \<open>A branch whose decision is not an admission, or that returns an error, satisfies the postcondition.\<close>

definition refuses :: "AdmissionOutcome \<times> GoError option \<Rightarrow> bool" where
  "refuses r \<longleftrightarrow> snd r \<noteq> None \<or> ad_Result (ao_Decision (fst r)) \<noteq> Admit"

lemma rg_refusal:
  assumes "adv.follows p" and "yields (\<lambda>_. True) refuses p"
  shows "rg advances (logged_outcome req) p w"
proof -
  have "rg advances (\<lambda>_ _. True) p w \<Longrightarrow> yields (\<lambda>_. True) refuses p \<Longrightarrow> rg advances (logged_outcome req) p w" for w
    by (induction p arbitrary: w) (auto simp: logged_outcome_def refuses_def)
  with assms show ?thesis by (simp add: adv.follows_def)
qed

lemma yields_True_keeps: "keeps (\<lambda>_. True) p"
  by (induction p) auto

lemma yields_skip: "(\<And>a. yields (\<lambda>_. True) Q (k a)) \<Longrightarrow> yields (\<lambda>_. True) Q (bindP p k)"
  by (rule yields_bindP [where Q = "\<lambda>_. True"]) (simp_all add: yields_keeps yields_True_keeps)

lemma refusing_decision:
  assumes "res \<noteq> Admit" and "\<And>d. ad_Result d \<noteq> Admit \<Longrightarrow> yields (\<lambda>_. True) refuses (k d)"
  shows "yields (\<lambda>_. True) refuses (bindP (new_decision req res reason rule) k)"
proof (rule yields_bindP [where Q = "\<lambda>d. ad_Result d \<noteq> Admit"])
  show "yields (\<lambda>_. True) (\<lambda>d. ad_Result d \<noteq> Admit) (new_decision req res reason rule)"
    unfolding new_decision_def decID_def admittedDecision_def using assms(1) by (auto intro!: yields_skip)
qed (rule assms(2))

lemma refusing_branches:
  "yields (\<lambda>_. True) refuses (admit_ledger_break req)" "yields (\<lambda>_. True) refuses (admit_terminated req)"
  "yields (\<lambda>_. True) refuses (admit_interrupted req start)" "yields (\<lambda>_. True) refuses (admit_halted req stages)"
  "yields (\<lambda>_. True) refuses (admit_quarantined req recs im)" "yields (\<lambda>_. True) refuses (admit_no_provider req recs)"
  "yields (\<lambda>_. True) refuses (admit_refused req recs reason)"
  "yields (\<lambda>_. True) refuses (admit_terminated_in_flight req recs)"
  "yields (\<lambda>_. True) refuses (admit_interrupted_in_flight req start recs)"
  unfolding admit_ledger_break_def admit_terminated_def admit_interrupted_def admit_halted_def
    admit_quarantined_def admit_no_provider_def admit_refused_def admit_terminated_in_flight_def
    admit_interrupted_in_flight_def Let_def seqP_def
  by (rule refusing_decision yields_skip | simp add: refuses_def outcome_def)+

lemma follows_branches:
  "adv.follows (admit_ledger_break req)" "adv.follows (admit_terminated req)"
  "adv.follows (admit_interrupted req start)" "adv.follows (admit_halted req stages)"
  "adv.follows (admit_quarantined req recs im)" "adv.follows (admit_no_provider req recs)"
  "adv.follows (admit_refused req recs reason)" "adv.follows (admit_terminated_in_flight req recs)"
  "adv.follows (admit_interrupted_in_flight req start recs)"
  unfolding admit_ledger_break_def admit_terminated_def admit_interrupted_def admit_halted_def
    admit_quarantined_def admit_no_provider_def admit_refused_def admit_terminated_in_flight_def
    admit_interrupted_in_flight_def Let_def write_decision_def
  by (intro follows_actions follows_ledger_Append; simp add: zero_LedgerEntry_def)+

lemmas rg_refusals = rg_refusal [OF follows_branches(1) refusing_branches(1)]
  rg_refusal [OF follows_branches(2) refusing_branches(2)] rg_refusal [OF follows_branches(3) refusing_branches(3)]
  rg_refusal [OF follows_branches(4) refusing_branches(4)] rg_refusal [OF follows_branches(5) refusing_branches(5)]
  rg_refusal [OF follows_branches(6) refusing_branches(6)] rg_refusal [OF follows_branches(7) refusing_branches(7)]
  rg_refusal [OF follows_branches(8) refusing_branches(8)] rg_refusal [OF follows_branches(9) refusing_branches(9)]

lemma rg_WriteDecision:
  "rg advances (\<lambda>_. admission_logged req did) (WriteDecision req True Admit ''admitted'' ''usl.gate'' did lg) w"
proof -
  have entry: "admission_logged req did ((tick v)\<lparr>w_ledger := snd (Append t (decision_entry now req True Admit
      ''admitted'' ''usl.gate'' did (Some lg)) (w_ledger v))\<rparr>)" for v t now
    by (auto simp: admission_logged_def backs_def decision_entry_def execution_entry_def zero_LedgerEntry_def)
  have "rg advances (\<lambda>_. admission_logged req did) (ledger_Append (decision_entry now req True Admit
      ''admitted'' ''usl.gate'' did (Some lg))) w" for now w
    unfolding ledger_Append_def
    by (rule adv.rg_atomic) (auto simp: Let_def case_prod_beta decision_entry_def zero_LedgerEntry_def
        intro!: advances_append intro: admission_logged_mono entry [unfolded decision_entry_def zero_LedgerEntry_def])
  then show ?thesis
    unfolding WriteDecision_def time_Now_def
    by (auto intro!: adv.rg_bindP [where Q = "\<lambda>_ _. True"] adv.rg_atomic advances_gov)
qed

lemma rg_skip: "adv.follows p \<Longrightarrow> (\<And>a w. rg advances Q (k a) w) \<Longrightarrow> rg advances Q (bindP p k) w"
  unfolding adv.follows_def by (blast intro: adv.rg_bindP)

lemma rg_commit: "rg advances (logged_outcome req) (admit_commit req recs) w"
proof -
  have tail: "rg advances (logged_outcome req) (seqP (inc m ls) (seqP (inc m' ls') (Ret (outcome d e recs, None)))) w"
    if "admission_logged req (ad_DecisionID d) w" for m ls m' ls' d e w
  proof -
    have "rg advances (\<lambda>_. admission_logged req (ad_DecisionID d)) (seqP (inc m ls) (inc m' ls')) w"
      by (rule adv.follows_stable [OF _ stable_logged that]) (intro follows_actions)
    then have "rg advances (logged_outcome req) (bindP (seqP (inc m ls) (inc m' ls')) (\<lambda>_. Ret (outcome d e recs, None))) w"
      by (rule adv.rg_bindP) (auto simp: logged_outcome_def outcome_def intro: admission_logged_mono)
    then show ?thesis by (simp add: seqP_def bindP_assoc)
  qed
  show ?thesis
    unfolding admit_commit_def write_decision_def
    by (rule adv.rg_bindP [OF rg_new_decision]) (auto intro!: adv.rg_bindP [OF rg_WriteDecision] tail)
qed

lemma rg_Router_Admit: "rg advances (logged_outcome req) (Router_Admit (make_Router ts lat) req) w"
proof -
  have provider: "rg advances (logged_outcome req) (admit_provider req start recs) w" for start recs w
    unfolding admit_provider_def admit_in_flight_def
    by (auto intro!: rg_skip follows_actions rg_refusals rg_commit split: option.splits)
  have gates: "rg advances (logged_outcome req) (admit_gates (make_Router ts lat) req start) w" for start w
    unfolding admit_gates_def admit_pipeline_def make_Router_gre Let_def
    by (auto intro!: rg_skip follows_actions rg_refusals provider)
  have "rg advances (logged_outcome req) (seqP (observe_since MetricCycleLatency [] start) (Ret res)) w"
    if "logged_outcome req res w" for start res w
  proof -
    have "adv.stable (logged_outcome req res)"
      unfolding adv.stable_def logged_outcome_def using admission_logged_mono by blast
    then show ?thesis
      by (intro adv.rg_seqP [where Q = "logged_outcome req res"] adv.follows_stable follows_quiet [OF quiet_observe_since])
        (auto simp: adv.stable_def that)
  qed
  then show ?thesis
    unfolding Router_Admit_def by (auto intro!: rg_skip follows_actions adv.rg_bindP [OF gates])
qed

section \<open>Execution\<close>

text \<open>From here on the admission is in the ledger: the provider may be called and the execution written.\<close>

definition admitted_under :: "CapabilityRequest \<Rightarrow> AdmissionOutcome \<Rightarrow> world \<Rightarrow> bool" where
  "admitted_under req out = admission_logged req (ad_DecisionID (ao_Decision out))"

lemma under_advances: "admitted_under req out w \<Longrightarrow> advances w w' \<Longrightarrow> admitted_under req out w'"
  unfolding admitted_under_def by (rule admission_logged_mono)

lemma rg_under: "adv.follows p \<Longrightarrow> admitted_under req out w \<Longrightarrow> rg advances (\<lambda>_. admitted_under req out) p w"
  using adv.follows_stable [OF _ stable_logged] by (simp add: admitted_under_def)

lemma rg_under_bindP:
  assumes "adv.follows p" and "admitted_under req out w" and "\<And>a w. admitted_under req out w \<Longrightarrow> rg advances (\<lambda>_ _. True) (k a) w"
  shows "rg advances (\<lambda>_ _. True) (bindP p k) w"
  using rg_under [OF assms(1,2)] assms(3) by (rule adv.rg_bindP)

lemma rg_start_Generate:
  assumes "admitted_under req out w"
  shows "rg advances (\<lambda>_. admitted_under req out) (start_Generate a req) w"
proof -
  have "advances v ((tick v)\<lparr>w_calls := w_calls v @ [CallGenerate p req]\<rparr>)" if "admitted_under req out v" for v p
    using that by (auto simp: advances_def governed_def generations_backed_def admission_logged_def admitted_under_def tick_def)
  then show ?thesis
    unfolding start_Generate_def
    using assms by (intro adv.rg_atomic) (simp, meson under_advances)
qed

lemma rg_WriteExecution:
  assumes "admitted_under req out w"
  shows "rg advances (\<lambda>_ _. True) (WriteExecution req (ad_DecisionID (ao_Decision out)) h) w"
proof -
  let ?e = "\<lambda>now. execution_entry now req (ad_DecisionID (ao_Decision out)) h"
  have "\<exists>a\<in>set (lg_entries (w_ledger v)). backs a (?e now)" if "admitted_under req out v" for v now
    using that by (simp add: admitted_under_def admission_logged_def backs_execution_entry [of _ now])
  then have "rg advances (\<lambda>_ _. True) (ledger_Append (?e now)) w" if "admitted_under req out w" for now w
    unfolding ledger_Append_def
    using that by (intro adv.rg_atomic) (simp add: Let_def case_prod_beta advances_append under_advances)
  then show ?thesis
    unfolding WriteExecution_def by (rule rg_under_bindP [OF follows_quiet [OF quiet_time_Now] assms])
qed

lemma follows_execute:
  "adv.follows (execute_no_provider req)" "adv.follows (execute_failed req err)"
  unfolding execute_no_provider_def execute_failed_def Let_def write_decision_def
  by (intro follows_actions)+

lemma rg_execute_done: "admitted_under req out w \<Longrightarrow> rg advances (\<lambda>_ _. True) (execute_done req out g) w"
  unfolding execute_done_def Let_def
proof (rule adv.rg_seqP [OF rg_WriteExecution])
  show "rg advances (\<lambda>_ _. True) (seqP (inc MetricLedgerWrites []) (seqP (inc MetricExecutions []) (Ret x))) w" for x w
  proof -
    have "adv.follows (seqP (inc MetricLedgerWrites []) (seqP (inc MetricExecutions []) (Ret x)))"
      by (intro follows_actions)
    then show ?thesis by (simp add: adv.follows_def)
  qed
qed

lemma rg_execute_provider: "admitted_under req out w \<Longrightarrow> rg advances (\<lambda>_ _. True) (execute_provider req out) w"
proof -
  assume under: "admitted_under req out w"
  have generate: "rg advances (\<lambda>_. admitted_under req out) (boundedGenerate a req) w" if "admitted_under req out w" for a w
  proof -
    have "adv.follows (bindP (gets (\<lambda>w. providerTimeout (w_env w))) (\<lambda>timeout.
        bindP (atomic (\<lambda>w. (w_select w (w_pos w), tick w))) (\<lambda>pick.
          if select_result latency timeout pick then Ret (res, err) else Ret (None, Some ErrProviderTimeout))))"
      for latency res err
      by (auto intro!: adv.follows_bindP adv.follows_gets adv.follows_atomic adv.follows_Ret advances_gov)
    then show ?thesis
      unfolding boundedGenerate_def
      by (intro adv.rg_bindP [OF rg_start_Generate [OF that]]) (auto intro!: rg_under)
  qed
  have outcome: "rg advances (\<lambda>_ _. True) (case err of Some e \<Rightarrow> execute_failed req e | None \<Rightarrow> execute_done req out g) w"
    if "admitted_under req out w" for err g w
    using that follows_execute(2) by (cases err) (auto simp: rg_execute_done adv.follows_def)
  have found: "rg advances (\<lambda>_ _. True) (case found of None \<Rightarrow> execute_no_provider req
      | Some a \<Rightarrow> bindP (boundedGenerate a req) (\<lambda>(g, err). case err of Some e \<Rightarrow> execute_failed req e | None \<Rightarrow> execute_done req out g)) w"
    if "admitted_under req out w" for found w
    using that follows_execute(1)
    by (cases found) (auto simp: adv.follows_def intro!: adv.rg_bindP [OF generate] outcome)
  from under show ?thesis
    unfolding execute_provider_def seqP_def
    by (rule rg_under_bindP [rotated]) (auto intro!: follows_actions rg_under_bindP [OF _ _ found] elim: rg_under_bindP [rotated])
qed

lemma rg_execute_admitted: "admitted_under req out w \<Longrightarrow> rg advances (\<lambda>_ _. True) (execute_admitted req out) w"
proof -
  assume under: "admitted_under req out w"
  have stop: "rg advances (\<lambda>_ _. True) (seqP (exec_Forcibly i s) (Ret x)) w" for i s x w
    using adv.follows_seqP [OF follows_state(1) [of i s] adv.follows_Ret [of x]] by (simp add: adv.follows_def)
  from under show ?thesis
    unfolding execute_admitted_def
    by (intro rg_under_bindP [OF quiet_reads(3) [THEN follows_quiet]])
      (auto simp: stop intro!: rg_under_bindP [OF quiet_reads(5) [THEN follows_quiet]]
        rg_under_bindP [OF quiet_reads(4) [THEN follows_quiet]] rg_execute_provider)
qed

lemma follows_GovernAndExecute: "adv.follows (GovernAndExecute (make_Router ts lat) req)"
  unfolding adv.follows_def GovernAndExecute_def
  by (auto intro!: adv.rg_bindP [OF rg_Router_Admit] rg_execute_admitted simp: logged_outcome_def admitted_under_def)

section \<open>All endpoints\<close>

lemma follows_operator_frame:
  assumes "\<And>ir. adv.follows (act ir)"
  shows "adv.follows (operator_frame s r filled missing act)"
  using operator_frame_cases [of s r filled missing act] assms by (auto simp: follows_quiet [OF quiet_respond])

lemma follows_handlers:
  "adv.follows (InterruptHandler s r)" "adv.follows (CorrectHandler s r)" "adv.follows (TerminateHandler s r)"
  unfolding InterruptHandler_def CorrectHandler_def TerminateHandler_def operatorLedger_def
  by (intro follows_operator_frame follows_actions)+

lemma follows_Router_Admit: "adv.follows (Router_Admit (make_Router ts lat) req)"
  unfolding adv.follows_def by (intro allI adv.rg_weaken [OF rg_Router_Admit]) simp

lemma follows_route: "adv.follows (RouteHandler (make_Server ts lat token) r)"
proof -
  have "adv.follows (bindP (Router_Admit (make_Router ts lat) req) (\<lambda>(out, err). respond (st out err) (b out)))" for req st b
    by (rule adv.follows_bindP [OF follows_Router_Admit]) (simp add: case_prod_beta follows_quiet [OF quiet_respond])
  then show ?thesis
    by (simp add: RouteHandler_def make_Server_def WithAuth_def NewServer_def follows_quiet [OF quiet_respond] split: body.split)
qed

lemma follows_workflow: "adv.follows (workflowHandler (NewWorkflowService (make_Router ts lat)) r)"
proof -
  have run: "adv.follows (Workflow_Run (NewWorkflowService (make_Router ts lat)) wid req)" for wid req
    by (simp add: Workflow_Run_def NewWorkflowService_def adv.follows_Ret follows_GovernAndExecute split: option.split)
  have "adv.follows (bindP (Workflow_Run (NewWorkflowService (make_Router ts lat)) wid req)
      (\<lambda>(out, exec, err). respond (st out err) (b out exec err)))" for wid req st b
    by (rule adv.follows_bindP [OF run]) (simp add: case_prod_beta follows_quiet [OF quiet_respond])
  then show ?thesis
    by (simp add: workflowHandler_def follows_quiet [OF quiet_respond] split: body.split)
qed

lemma follows_muxRouter: "adv.follows (muxRouter (make_Server ts lat token) c)"
proof (cases c)
  case (WorkflowCall r)
  then show ?thesis by (simp add: make_Server_def WithAuth_def NewServer_def follows_workflow)
next
  case VerifyCall
  then show ?thesis
    by (simp add: VerifyHandler_def adv.follows_bindP case_prod_beta follows_quiet quiet_reads quiet_respond)
next
  case LedgerCall
  then show ?thesis by (simp add: LedgerHandler_def adv.follows_bindP follows_quiet quiet_reads quiet_respond)
next
  case (MetricsCall page)
  have "quiet (metricsHandler page)"
    unfolding metricsHandler_def by (rule quiet_bindP [OF quiet_gets]) (simp add: quiet_respond split: sum.split)
  then show ?thesis using MetricsCall by (simp add: follows_quiet)
qed (simp_all add: follows_handlers follows_route plain_handlers follows_quiet quiet_respond)

text \<open>Every run of the service moves along \<open>advances\<close>.\<close>

lemma service_advances:
  "pool_run (endpoints ts lat token) (w, ps) (w', ps') \<Longrightarrow> set ps \<subseteq> endpoints ts lat token \<Longrightarrow> advances w w'"
  using adv.run_follows [of "endpoints ts lat token" "(w, ps)" "(w', ps')"] follows_muxRouter
  by (fastforce simp: endpoints_def adv.follows_def)

section \<open>Properties\<close>

text \<open>
  C32: a continuity evidence record covers the first entry with the decision identifier.  Where every
  execution is preceded by its admission, that entry is never an execution: the record of an executed
  decision carries the hash and the stage log of the admission, and no execution hash.
\<close>

theorem CER_is_of_the_admission:
  assumes "executions_backed (lg_entries l)" and "GenerateCER now l d = Some cer"
  shows "\<exists>k<length (lg_entries l). let e = lg_entries l ! k in
    le_DecisionID e = d \<and> (\<forall>j<k. le_DecisionID (lg_entries l ! j) \<noteq> d) \<and> le_ExecutionHash e = []
    \<and> cer_DecisionID cer = d \<and> cer_InputHash cer = sha256_hex (marshal_entry e) \<and> cer_EvidenceArtifacts cer = [le_Hash e]
    \<and> cer_VerificationChecks cer = le_StageLog e \<and> cer_ReplayMarker cer = le_ReplayID e \<and> cer_Lineage cer = lg_entries l"
proof -
  let ?es = "lg_entries l"
  obtain e where e: "find (\<lambda>e. le_DecisionID e = d) ?es = Some e" and cer: "cer = make_CER now ?es e"
    using assms(2) by (auto simp: GenerateCER_def cer_loop_first)
  then obtain k where k: "k < length ?es" "?es ! k = e" "le_DecisionID e = d" "\<forall>j<k. le_DecisionID (?es ! j) \<noteq> d"
    by (auto simp: find_Some_iff)
  then have "le_ExecutionHash e = []"
    using assms(1) by (auto simp: executions_backed_def backs_def)
  with k cer show ?thesis by (intro exI [of _ k]) (auto simp: make_CER_def Let_def)
qed

definition executed_ledger :: Ledger where
  "executed_ledger =
     snd (Append 2 (execution_entry 2 zero_CapabilityRequest ''d'' ''h'')
       (snd (Append 1 (decision_entry 1 zero_CapabilityRequest True Admit ''admitted'' ''usl.gate'' ''d'' (Some [])) NewLedger)))"

theorem CER_is_of_the_admission_witness:
  "\<exists>cer. GenerateCER 3 executed_ledger ''d'' = Some cer \<and> cer_EvidenceArtifacts cer = [le_Hash (hd (lg_entries executed_ledger))]"
proof -
  have backed: "executions_backed (lg_entries executed_ledger)"
    by (auto simp: executions_backed_def executed_ledger_def NewLedger_def less_Suc_eq backs_def decision_entry_def
        execution_entry_def zero_LedgerEntry_def)
  have "find (\<lambda>e. le_DecisionID e = ''d'') (lg_entries executed_ledger) \<noteq> None"
    by (simp add: executed_ledger_def NewLedger_def decision_entry_def)
  then obtain cer where cer: "GenerateCER 3 executed_ledger ''d'' = Some cer"
    by (auto simp: GenerateCER_def cer_loop_first)
  from CER_is_of_the_admission [OF backed cer] cer show ?thesis
    by (auto simp: executed_ledger_def NewLedger_def less_Suc_eq Let_def decision_entry_def execution_entry_def
        zero_LedgerEntry_def)
qed

end
