(* ===== verification/GovernedRun.thy ===== *)
theory GovernedRun
  imports Admission
begin

text \<open>
  What one uninterrupted \<open>GovernAndExecute\<close> does: a request that is not admitted stops with the outcome
  of \<open>Admit\<close>; an admitted one calls its provider once, and either the execution with the hash of the
  result or a denial is written to the ledger.  \<open>executed\<close> is the specification of the second half.
\<close>

section \<open>The specification\<close>

text \<open>
  What the bounded call yields when \<open>Generate\<close> is started at position \<open>n\<close>: the answer, if it comes
  before the timer, and the timeout otherwise.
\<close>

definition generation :: "Adapter \<Rightarrow> CapabilityRequest \<Rightarrow> world \<Rightarrow> nat \<Rightarrow> gomap \<times> GoError option" where
  "generation a req w n =
     (case ap_Generate a n req of (latency, answer) \<Rightarrow>
        if select_result latency (providerTimeout (w_env w)) (w_select w (Suc n)) then answer
        else (None, Some ErrProviderTimeout))"

definition started :: "CapabilityRequest \<Rightarrow> world \<Rightarrow> world" where
  "started req w =
     w\<lparr>w_exec := snd (Transition (rq_IntentID req) (Current (w_exec w) (rq_IntentID req)) ExecRunning (w_exec w)),
       w_calls := w_calls w @ [CallGenerate (mr_ProviderID (rq_ModelRef req)) req]\<rparr>"

definition failure_reason :: "GoError \<Rightarrow> string" where
  "failure_reason e =
     (if e = ErrProviderTimeout then ''provider execution timed out'' else ''provider execution failed'')"

definition executed ::
  "CapabilityRequest \<Rightarrow> AdmissionOutcome \<Rightarrow> world \<Rightarrow> gomap \<times> GoError option
     \<Rightarrow> (AdmissionOutcome \<times> ExecutionResult \<times> GoError option) \<times> world \<Rightarrow> bool" where
  "executed req out w gen res \<longleftrightarrow>
     (case gen of
        (g, None) \<Rightarrow>
          fst res = (out, \<lparr>er_IntentID = rq_IntentID req, er_Result = g, er_Hash = HashResult g\<rparr>, None)
          \<and> (\<exists>t now. gov (snd res) = gov ((started req w)\<lparr>w_ledger := snd (Append t
               (execution_entry now req (ad_DecisionID (ao_Decision out)) (HashResult g)) (w_ledger w))\<rparr>))
      | (_, Some e) \<Rightarrow>
          (\<exists>d t now. let app = Append t (decision_entry now req False Deny (failure_reason e) ''provider.execution''
                 (ad_DecisionID d) (Some [stage_record ''provider'' False (error_text e) ''provider.execution''])) (w_ledger w) in
             fst res = (outcome d (fst app) [], zero_ExecutionResult, None)
             \<and> ad_Result d = Deny \<and> ad_Reason d = failure_reason e \<and> ad_RuleRef d = ''provider.execution''
             \<and> gov (snd res) = gov ((started req w)\<lparr>w_ledger := snd app\<rparr>)))"

section \<open>Refinement\<close>

lemma run_boundedGenerate:
  "fst (run (boundedGenerate a req) w) = generation a req w (w_pos w)"
  "gov (snd (run (boundedGenerate a req) w)) =
     gov (w\<lparr>w_calls := w_calls w @ [CallGenerate (mr_ProviderID (rq_ModelRef req)) req]\<rparr>)"
  by (auto simp: boundedGenerate_def start_Generate_def generation_def run_simps tick_def gov_def split: prod.splits)

lemma run_write_decision:
  "run (write_decision req adm d lg) w =
     (let now = w_clock w (w_pos w); app = Append (w_clock w (Suc (w_pos w)))
         (decision_entry now req adm (ad_Result d) (ad_Reason d) (ad_RuleRef d) (ad_DecisionID d) (Some lg)) (w_ledger w)
      in (fst app, (tick (tick w))\<lparr>w_ledger := snd app\<rparr>))"
  by (simp add: write_decision_def WriteDecision_def time_Now_def run_simps run_ledger_Append tick_def Let_def)

lemma executed_failed:
  assumes w1: "gov w1 = gov (started req w)"
  shows "executed req out w (g, Some e) (run (execute_failed req e) w1)"
proof -
  let ?nd = "new_decision req Deny (failure_reason e) ''provider.execution''"
  let ?d = "fst (run ?nd w1)" and ?w2 = "snd (run ?nd w1)"
  let ?now = "w_clock ?w2 (w_pos ?w2)" and ?t = "w_clock ?w2 (Suc (w_pos ?w2))"
  let ?app = "Append ?t (decision_entry ?now req False Deny (failure_reason e) ''provider.execution'' (ad_DecisionID ?d)
      (Some [stage_record ''provider'' False (error_text e) ''provider.execution''])) (w_ledger w)"
  have d: "ad_Result ?d = Deny" "ad_Reason ?d = failure_reason e" "ad_RuleRef ?d = ''provider.execution''"
    by (simp_all add: new_decision_def decID_def admittedDecision_def run_simps)
  have g2: "gov ?w2 = gov (started req w)" using w1 by (simp add: quiet_run [OF quiet_new_decision])
  have led: "w_ledger ?w2 = w_ledger w" using gov_fields(3) [OF g2] by (simp add: started_def)
  have run: "fst (run (execute_failed req e) w1) = (outcome ?d (fst ?app) [], zero_ExecutionResult, None)"
    "gov (snd (run (execute_failed req e) w1)) = gov ((tick (tick ?w2))\<lparr>w_ledger := snd ?app\<rparr>)"
    by (simp_all add: execute_failed_def failure_reason_def [symmetric] run_simps run_write_decision d led Let_def
        inc_def metric_def)
  have "gov ((tick (tick ?w2))\<lparr>w_ledger := snd ?app\<rparr>) = gov ((started req w)\<lparr>w_ledger := snd ?app\<rparr>)"
    by (rule gov_update_cong) (simp add: g2)
  with run d show ?thesis unfolding executed_def Let_def by auto
qed

lemma executed_done:
  assumes w1: "gov w1 = gov (started req w)"
  shows "executed req out w (g, None) (run (execute_done req out g) w1)"
proof -
  let ?e = "execution_entry (w_clock w1 (w_pos w1)) req (ad_DecisionID (ao_Decision out)) (HashResult g)"
  let ?app = "Append (w_clock w1 (Suc (w_pos w1))) ?e (w_ledger w)"
  have led: "w_ledger w1 = w_ledger w" using gov_fields(3) [OF w1] by (simp add: started_def)
  have "gov (snd (run (execute_done req out g) w1)) = gov ((tick (tick w1))\<lparr>w_ledger := snd ?app\<rparr>)"
    by (simp add: execute_done_def WriteExecution_def time_Now_def run_simps run_ledger_Append led Let_def tick_def
        inc_def metric_def)
  also have "\<dots> = gov ((started req w)\<lparr>w_ledger := snd ?app\<rparr>)" by (rule gov_update_cong) (simp add: w1)
  finally show ?thesis
    unfolding executed_def by (auto simp: execute_done_def run_simps Let_def)
qed

lemma executed_provider:
  assumes "w_providers w (mr_ProviderID (rq_ModelRef req)) = Some a"
  shows "executed req out w (generation a req w (w_pos w)) (run (execute_provider req out) w)"
proof -
  let ?i = "rq_IntentID req"
  let ?w1 = "w\<lparr>w_exec := snd (Transition ?i (Current (w_exec w) ?i) ExecRunning (w_exec w))\<rparr>"
  let ?w2 = "snd (run (boundedGenerate a req) ?w1)"
  have gen: "fst (run (boundedGenerate a req) ?w1) = generation a req w (w_pos w)"
    by (simp add: run_boundedGenerate generation_def)
  have g2: "gov ?w2 = gov (started req w)"
    by (simp add: run_boundedGenerate started_def)
  have "run (execute_provider req out) w =
      (case generation a req w (w_pos w) of (g, None) \<Rightarrow> run (execute_done req out g) ?w2
       | (g, Some e) \<Rightarrow> run (execute_failed req e) ?w2)"
    using assms gen
    by (simp add: execute_provider_def exec_Current_def exec_Transition_def provider_lookup_def run_simps
        case_prod_beta Let_def split: option.splits)
  then show ?thesis
    using executed_done [OF g2] executed_failed [OF g2] by (auto split: prod.splits option.splits)
qed

text \<open>After an admission the final check passes and the provider is still registered.\<close>

lemma admitted_world:
  assumes "ad_Result (ao_Decision (fst (fst (run (Router_Admit (make_Router ts lat) req) w)))) = Admit"
  defines "w1 \<equiv> snd (run (Router_Admit (make_Router ts lat) req) w)"
  shows "\<not> overridden (w_interrupts w1) (rq_IntentID req)"
    and "\<exists>a. w_providers w1 (mr_ProviderID (rq_ModelRef req)) = Some a \<and> w_providers w (mr_ProviderID (rq_ModelRef req)) = Some a"
    and "snd (fst (run (Router_Admit (make_Router ts lat) req) w)) = None"
proof -
  obtain n where dec: "decided req (admit_verdict (make_Router ts lat) req w n) w (run (Router_Admit (make_Router ts lat) req) w)"
    using decided_Admit [OF make_Router_gre] by blast
  let ?v = "admit_verdict (make_Router ts lat) req w n"
  have v: "v_Result ?v = Admit" using dec assms(1) by (simp add: decided_def Let_def)
  then have adm: "admissible (make_Router ts lat) req w n" by (simp add: verdict_Admit)
  have "w_interrupts w1 = w_interrupts w" "w_providers w1 = w_providers w"
    unfolding w1_def by (rule decided_world [OF dec])+
  then show "\<not> overridden (w_interrupts w1) (rq_IntentID req)"
    and "\<exists>a. w_providers w1 (mr_ProviderID (rq_ModelRef req)) = Some a \<and> w_providers w (mr_ProviderID (rq_ModelRef req)) = Some a"
    using adm by (auto simp: admissible_def pipeline_passes_def router_input_def Let_def)
  have "v_Err ?v = None" using verdict_commit [OF v] by (simp add: commit_verdict_def)
  then show "snd (fst (run (Router_Admit (make_Router ts lat) req) w)) = None"
    using dec by (simp add: decided_def Let_def)
qed

lemma run_execute_admitted:
  "\<not> overridden (w_interrupts w) (rq_IntentID req) \<Longrightarrow> run (execute_admitted req out) w = run (execute_provider req out) w"
  by (auto simp: execute_admitted_def isTerminated_def isInterrupted_def getCorrection_def run_simps overridden_def
      Correction_def split: option.splits)

lemma run_GovernAndExecute_refused:
  assumes "ad_Result (ao_Decision (fst (fst (run (Router_Admit r req) w)))) \<noteq> Admit"
  shows "run (GovernAndExecute r req) w =
    ((fst (fst (run (Router_Admit r req) w)), zero_ExecutionResult, snd (fst (run (Router_Admit r req) w))),
     snd (run (Router_Admit r req) w))"
  using assms by (cases "snd (fst (run (Router_Admit r req) w))") (auto simp: GovernAndExecute_def run_simps case_prod_beta)

lemma run_GovernAndExecute_admitted:
  assumes "ad_Result (ao_Decision (fst (fst (run (Router_Admit (make_Router ts lat) req) w)))) = Admit"
  defines "w1 \<equiv> snd (run (Router_Admit (make_Router ts lat) req) w)"
  shows "\<exists>a. w_providers w (mr_ProviderID (rq_ModelRef req)) = Some a
    \<and> executed req (fst (fst (run (Router_Admit (make_Router ts lat) req) w))) w1 (generation a req w1 (w_pos w1))
         (run (GovernAndExecute (make_Router ts lat) req) w)"
proof -
  note after = admitted_world [OF assms(1), folded w1_def]
  then have "run (GovernAndExecute (make_Router ts lat) req) w =
      run (execute_provider req (fst (fst (run (Router_Admit (make_Router ts lat) req) w)))) w1"
    using assms(1) by (simp add: GovernAndExecute_def run_simps case_prod_beta run_execute_admitted w1_def)
  with after(2) executed_provider [of w1 req _ "fst (fst (run (Router_Admit (make_Router ts lat) req) w))"] show ?thesis by auto
qed

section \<open>Properties\<close>

text \<open>
  C7: an uninterrupted \<open>GovernAndExecute\<close> returns the outcome of \<open>Admit\<close> unchanged, without touching the
  provider, unless the request was admitted.  An admitted request calls the registered provider once,
  under the deadline: in time and without error, the result is returned with its hash and one
  execution entry with that hash and the decision's identifier is appended; otherwise one denial is
  appended and returned.
\<close>

theorem GovernAndExecute_refines:
  "let r = make_Router ts lat; (res, w1) = run (Router_Admit r req) w; (out, err) = res;
       final = run (GovernAndExecute r req) w in
   if ad_Result (ao_Decision out) = Admit
   then \<exists>a. w_providers w (mr_ProviderID (rq_ModelRef req)) = Some a
        \<and> executed req out w1 (generation a req w1 (w_pos w1)) final
   else final = ((out, zero_ExecutionResult, err), w1)"
proof -
  let ?r = "make_Router ts lat"
  let ?res = "fst (run (Router_Admit ?r req) w)" and ?w1 = "snd (run (Router_Admit ?r req) w)"
  show ?thesis
  proof (cases "ad_Result (ao_Decision (fst ?res)) = Admit")
    case False
    then show ?thesis by (simp add: case_prod_beta Let_def run_GovernAndExecute_refused)
  next
    case True
    from run_GovernAndExecute_admitted [OF this] True show ?thesis by (simp add: case_prod_beta Let_def)
  qed
qed

end
