(* ===== verification/Samples.thy ===== *)
theory Samples
  imports GovernedExecution GovernedRun
begin

text \<open>
  A small deployment on which the properties are instantiated: one tenant with one capability class,
  the fake adapter as its provider, a request that is admitted there, and the world of a service that
  has just started.
\<close>

definition sample_tenant :: LegacyTenant where
  "sample_tenant =
     \<lparr>lt_TenantID = ''acme'', lt_Name = ''Acme'', lt_MLCALane = LaneSafe,
      lt_AllowedCapabilityClasses = [''execution.otem''], lt_RequiresOperatorApproval = True,
      lt_IdentitySeparation = True, lt_RoutingPolicy = ''explicit'', lt_AllowedProviders = [''fake''],
      lt_KeyRefs = Map.empty, lt_OperatorIDs = [''op-1''], lt_CorrigibilityUnconditional = True\<rparr>"

definition sample_config :: Config where
  "sample_config = zero_Config\<lparr>cf_Tenants := [sample_tenant]\<rparr>"

definition sample_request :: CapabilityRequest where
  "sample_request =
     \<lparr>rq_RequestID = ''req-1'', rq_TenantID = ''acme'', rq_MLCALane = LaneSafe,
      rq_CapabilityClass = capability ''execution'' ''otem'' ''execute'' ''low'', rq_IntentID = ''intent-1'',
      rq_OperatorID = ''op-1'', rq_ModelRef = \<lparr>mr_ProviderID = ''fake'', mr_ModelID = ''m'', mr_KeyRef = ''k''\<rparr>,
      rq_Payload = ''{}'', rq_Metadata = Map.empty, rq_Coherence = None\<rparr>"

definition sample_world :: world where
  "sample_world =
     \<lparr>w_clock = int, w_random = (\<lambda>_. 0), w_select = (\<lambda>_. True), w_pos = 0, w_env = (\<lambda>_. []), w_metrics = [],
      w_ledger = NewLedger, w_interrupts = NewInterruptStore, w_exec = NewExecutionState, w_driftOverride = None,
      w_providers = [''fake'' \<mapsto> NewFakeAdapter True 1], w_calls = [], w_catalog = [], w_write = (\<lambda>_. Written),
      w_disk = Map.empty\<rparr>"

definition sample_router :: Router where
  "sample_router = make_Router (fst (Build sample_config)) (snd (Build sample_config))"

definition sample_server :: Server where
  "sample_server = make_Server (fst (Build sample_config)) (snd (Build sample_config)) ''token''"

definition sample_endpoints :: "Response go set" where
  "sample_endpoints = endpoints (fst (Build sample_config)) (snd (Build sample_config)) ''token''"

definition post :: "string \<Rightarrow> string \<Rightarrow> 'a \<Rightarrow> 'a HTTPRequest" where
  "post path auth b = \<lparr>hr_Method = ''POST'', hr_Path = path, hr_Authorization = auth, hr_Body = Decoded b\<rparr>"

definition sample_route :: "Response go" where
  "sample_route = muxRouter sample_server (Route (post ''/route'' [] sample_request))"

definition sample_workflow :: "Response go" where
  "sample_workflow = muxRouter sample_server (WorkflowCall (post ''/workflow'' [] (WorkflowOTEMExecution, sample_request)))"

definition sample_operator :: operatorRequest where
  "sample_operator = \<lparr>or_IntentID = ''intent-1'', or_OperatorID = ''op-1'', or_Directive = ''stop''\<rparr>"

text \<open>A metrics registry that remembers names, and panics on a name it has.\<close>

definition name_registry :: "string list \<Rightarrow> MetricOpts \<Rightarrow> string list option" where
  "name_registry reg d = (if mo_Name d \<in> set reg then None else Some (mo_Name d # reg))"

section \<open>Facts\<close>

lemma registers_name_registry: "registers name_registry set"
  by (simp add: registers_def name_registry_def)

lemma sample_routes: "sample_route \<in> sample_endpoints" "sample_workflow \<in> sample_endpoints"
  unfolding sample_route_def sample_workflow_def sample_endpoints_def endpoints_def sample_server_def by (rule rangeI)+

lemma sample_waiting:
  "list_all (waiting (fst (Build sample_config)) (snd (Build sample_config)) ''token'') [sample_route]"
  "list_all (waiting (fst (Build sample_config)) (snd (Build sample_config)) ''token'') [sample_workflow]"
  using sample_routes by (simp_all add: waiting_def sample_endpoints_def)

lemma sample_counts [simp]: "contact_count i sample_world = 0" "admit_count i sample_world = 0"
  by (simp_all add: contact_count_def admit_count_def sample_world_def NewLedger_def)

text \<open>A single request served to its end is a run of the pool.\<close>

lemma sample_run: "pool_run H (w, [p]) (snd (run p w), [Ret (fst (run p w))])"
  using pool_run_thread [of 0 "[p]" p H w] by simp

lemma sample_wf: "ledger_wf (w_ledger sample_world)"
  by (simp add: sample_world_def ledger_wf_NewLedger)

lemma sample_governed: "governed sample_world"
  by (simp add: sample_world_def governed_def executions_backed_def generations_backed_def NewLedger_def)

text \<open>The request is admissible, so an uninterrupted \<open>Admit\<close> admits it.\<close>

lemma sample_policy:
  "fst (Build sample_config) = [\<lparr>tp_TenantID = ''acme'', tp_Name = ''Acme'', tp_MLCALane = LaneSafe,
     tp_AllowedClasses = [''execution''], tp_AllowedScopes = [''otem''], tp_AllowedActions = default_actions,
     tp_AllowedRisks = [], tp_RequiresApproval = True, tp_IdentityNamespace = ''acme-ns'', tp_SovereignOperator = ''op-1''\<rparr>]"
  "snd (Build sample_config) = [\<lparr>cl_Grant = capability ''execution'' ''otem'' ''execute'' ''low'', cl_Lanes = [LaneSafe]\<rparr>]"
  by (simp_all add: Build_def sample_config_def sample_tenant_def zero_Config_def tenant_policy_def class_lists_def
      class_grant_def capability_def)

lemma sample_admissible: "admissible sample_router sample_request sample_world n"
  by (simp add: admissible_def sample_router_def sample_policy router_input_def pipeline_passes_def
      sample_request_def sample_world_def ledger_wf_Verify ledger_wf_NewLedger capability_def stage_gate_def usl_admits_def
      findTenant_def TenantPolicy_Allows_def default_actions_def capabilityGranted_def drift_spike_def overridden_def
      Classify_decision_def operator_approval_def NewFakeAdapter_def FakeAdapter_CapabilityRequest_def)

lemma sample_admitted:
  "ad_Result (ao_Decision (fst (fst (run (Router_Admit sample_router sample_request) sample_world)))) = Admit"
proof -
  obtain n where "decided sample_request (admit_verdict sample_router sample_request sample_world n) sample_world
      (run (Router_Admit sample_router sample_request) sample_world)"
    using decided_Admit [OF make_Router_gre] unfolding sample_router_def by blast
  moreover have "v_Result (admit_verdict sample_router sample_request sample_world n) = Admit"
    using sample_admissible by (simp add: verdict_Admit)
  ultimately show ?thesis by (simp add: decided_def Let_def)
qed

end
