(* ===== verification/Race.thy ===== *)
theory Race
  imports Samples
begin

text \<open>
  The gap between the final check of the overrides and the provider call: the checks and the call are
  separate critical sections, so an interrupt can be accepted, recorded, ledgered and answered between
  them.  The theory builds such a run of the pool step by step.
\<close>

section \<open>Definitions\<close>

definition race_tenants :: "TenantPolicy list" where
  "race_tenants =
     [\<lparr>tp_TenantID = ''acme'', tp_Name = ''Acme'', tp_MLCALane = LaneSafe, tp_AllowedClasses = [''intake''],
       tp_AllowedScopes = [], tp_AllowedActions = [], tp_AllowedRisks = [], tp_RequiresApproval = False,
       tp_IdentityNamespace = ''acme-ns'', tp_SovereignOperator = ''op-1''\<rparr>]"

definition race_lattice :: "CapabilityLattice list" where
  "race_lattice = [\<lparr>cl_Grant = wf_CapabilityClass intake_spec, cl_Lanes = [LaneSafe]\<rparr>]"

definition race_request :: CapabilityRequest where
  "race_request = sample_request\<lparr>rq_CapabilityClass := wf_CapabilityClass intake_spec\<rparr>"

definition race_endpoints :: "Response go set" where
  "race_endpoints = endpoints race_tenants race_lattice ''token''"

definition race_workflow :: "Response go" where
  "race_workflow =
     muxRouter (make_Server race_tenants race_lattice ''token'')
       (WorkflowCall (post ''/workflow'' [] (WorkflowGovernedIntake, sample_request)))"

definition race_interrupt :: "Response go" where
  "race_interrupt =
     muxRouter (make_Server race_tenants race_lattice ''token'')
       (InterruptCall (post ''/interrupt'' ''Bearer token'' sample_operator))"

definition workflow_response ::
  "WorkflowID \<Rightarrow> AdmissionOutcome \<times> ExecutionResult \<times> GoError option \<Rightarrow> Response go" where
  "workflow_response wid = (\<lambda>(out, exec, err).
     respond (workflow_status out err) (BWorkflow wid (ao_Decision out) exec (ao_Entry out) err))"

section \<open>Facts\<close>

lemma race_endpoint: "race_workflow \<in> race_endpoints" "race_interrupt \<in> race_endpoints"
  unfolding race_workflow_def race_interrupt_def race_endpoints_def endpoints_def by (rule rangeI)+

lemma race_workflow_unfold:
  "race_workflow = bindP (Router_Admit (make_Router race_tenants race_lattice) race_request)
     (\<lambda>r. bindP (if snd r \<noteq> None then Ret (fst r, zero_ExecutionResult, snd r)
                  else if ad_Result (ao_Decision (fst r)) \<noteq> Admit then Ret (fst r, zero_ExecutionResult, None)
                  else execute_admitted race_request (fst r)) (workflow_response WorkflowGovernedIntake))"
proof -
  have "WorkflowSpec_Allows intake_spec (rq_MLCALane sample_request)"
    by (simp add: WorkflowSpec_Allows_def intake_spec_def sample_request_def)
  then show ?thesis
    unfolding race_request_def workflow_response_def
    by (simp add: race_workflow_def workflowHandler_def post_def Workflow_Run_def NewWorkflowService_def make_Server_def
        WithAuth_def NewServer_def GovernAndExecute_def bindP_assoc case_prod_beta)
qed

lemma race_admissible: "admissible (make_Router race_tenants race_lattice) race_request sample_world n"
  by (simp add: admissible_def router_input_def pipeline_passes_def race_request_def race_tenants_def race_lattice_def
      sample_request_def sample_world_def ledger_wf_Verify ledger_wf_NewLedger capability_def intake_spec_def stage_gate_def
      usl_admits_def findTenant_def TenantPolicy_Allows_def capabilityGranted_def drift_spike_def overridden_def
      Classify_decision_def operator_approval_def NewFakeAdapter_def FakeAdapter_CapabilityRequest_def)

lemma race_admitted:
  "ad_Result (ao_Decision (fst (fst (run (Router_Admit (make_Router race_tenants race_lattice) race_request) sample_world)))) = Admit"
proof -
  let ?r = "make_Router race_tenants race_lattice"
  obtain n where "decided race_request (admit_verdict ?r race_request sample_world n) sample_world
      (run (Router_Admit ?r race_request) sample_world)"
    using decided_Admit [OF make_Router_gre] by blast
  with race_admissible show ?thesis by (simp add: decided_def Let_def verdict_Admit)
qed

text \<open>The final check, when it finds no override, leaves the goroutine in front of the provider.\<close>

lemma final_check_passes:
  assumes "\<not> overridden (w_interrupts w) (rq_IntentID req)"
  shows "pool_run H (w, [bindP (execute_admitted req out) k]) (w, [bindP (execute_provider req out) k])"
proof -
  let ?i = "rq_IntentID req"
  let ?halt = "seqP (exec_Forcibly ?i ExecHalted) (Ret (out, zero_ExecutionResult, Some ErrInterrupted))"
  let ?c = "\<lambda>d. bindP (isInterrupted ?i) (\<lambda>n. bindP (if n \<or> d \<noteq> [] then ?halt else execute_provider req out) k)"
  have free: "\<not> IsTerminated (w_interrupts w) ?i" "\<not> IsInterrupted (w_interrupts w) ?i" "Correction (w_interrupts w) ?i = ([], False)"
    using assms by (auto simp: overridden_def Correction_def split: option.splits)
  have step: "pool_run H (w, [bindP (gets f) g]) (w, [g (f w)])" for f :: "world \<Rightarrow> 'z" and g
    using pool_run_prefix [of 0 "[bindP (gets f) g]" "gets f" g H w] by (simp add: run_gets)
  define a where "a t = bindP (if t then seqP (exec_Forcibly ?i ExecTerminated) (Ret (out, zero_ExecutionResult, Some ErrTerminated))
      else bindP (getCorrection ?i) (\<lambda>(d, _). bindP (isInterrupted ?i) (\<lambda>n.
        if n \<or> d \<noteq> [] then ?halt else execute_provider req out))) k" for t
  have "bindP (execute_admitted req out) k = bindP (isTerminated ?i) a"
    unfolding execute_admitted_def a_def by (simp only: bindP_assoc)
  moreover have "a False = bindP (getCorrection ?i) (\<lambda>x. ?c (fst x))"
    by (simp add: a_def bindP_assoc case_prod_beta)
  ultimately have 1: "pool_run H (w, [bindP (execute_admitted req out) k]) (w, [bindP (getCorrection ?i) (\<lambda>x. ?c (fst x))])"
    using step [of "\<lambda>w. IsTerminated (w_interrupts w) ?i" a] free(1) by (simp add: isTerminated_def)
  have 2: "pool_run H (w, [bindP (getCorrection ?i) (\<lambda>x. ?c (fst x))]) (w, [?c []])"
    using step [of "\<lambda>w. Correction (w_interrupts w) ?i" "\<lambda>x. ?c (fst x)"] free(3) by (simp add: getCorrection_def)
  have 3: "pool_run H (w, [?c []]) (w, [bindP (execute_provider req out) k])"
    using step [of "\<lambda>w. IsInterrupted (w_interrupts w) ?i"
        "\<lambda>n. bindP (if n \<or> [] \<noteq> ([] :: string) then ?halt else execute_provider req out) k"] free(2)
    by (simp add: isInterrupted_def)
  from 1 2 3 show ?thesis by (blast intro: pool_run_trans)
qed

text \<open>The interrupt endpoint, called with the token.\<close>

lemma race_interrupt_run:
  "fst (run race_interrupt w) = \<lparr>rp_Status = StatusOK, rp_Body = BOperator ''interrupted'' ''intent-1''\<rparr>"
  "w_interrupts (snd (run race_interrupt w)) = Interrupt ''intent-1'' (w_interrupts w)"
  "w_calls (snd (run race_interrupt w)) = w_calls w" "w_providers (snd (run race_interrupt w)) = w_providers w"
proof -
  have "operator_accepts (make_Server race_tenants race_lattice ''token'') (post ''/interrupt'' ''Bearer token'' sample_operator)
      sample_operator"
    by (simp add: operator_accepts_def post_def make_Server_def WithAuth_def NewOperatorAuth_def Authorized_def strings_CutPrefix_def)
  moreover have "or_IntentID sample_operator = ''intent-1''" "or_OperatorID sample_operator \<noteq> []"
    by (simp_all add: sample_operator_def)
  ultimately show "fst (run race_interrupt w) = \<lparr>rp_Status = StatusOK, rp_Body = BOperator ''interrupted'' ''intent-1''\<rparr>"
    "w_interrupts (snd (run race_interrupt w)) = Interrupt ''intent-1'' (w_interrupts w)"
    "w_calls (snd (run race_interrupt w)) = w_calls w" "w_providers (snd (run race_interrupt w)) = w_providers w"
    by (simp_all add: race_interrupt_def InterruptHandler_def operator_frame_accepted override_def exec_Forcibly_def
        operatorLedger_def WriteDecision_def time_Now_def ledger_Append_def run_simps tick_def Let_def case_prod_beta)
qed

lemma executed_calls:
  "executed req out w gen res \<Longrightarrow> w_calls (snd res) = w_calls w @ [CallGenerate (mr_ProviderID (rq_ModelRef req)) req]"
  by (auto simp: executed_def started_def Let_def split: prod.splits option.splits dest!: gov_fields(8))

section \<open>Properties\<close>

text \<open>
  C26: the final check does not close the race: there is an interleaving in which \<open>/interrupt\<close> has been
  answered \<open>interrupted\<close>, the intent is stopped and no provider has generated, and the provider is
  still called for that intent afterwards.
\<close>

theorem interrupt_can_lose_the_race:
  "\<exists>w1 ts1 w2 ts2 resp.
     pool_run race_endpoints (sample_world, []) (w1, ts1)
     \<and> Ret resp \<in> set ts1 \<and> rp_Body resp = BOperator ''interrupted'' ''intent-1''
     \<and> stopped (w_interrupts w1) ''intent-1'' \<and> CallGenerate ''fake'' race_request \<notin> set (w_calls w1)
     \<and> pool_run race_endpoints (w1, ts1) (w2, ts2)
     \<and> CallGenerate ''fake'' race_request \<in> set (w_calls w2)"
proof -
  let ?r = "make_Router race_tenants race_lattice" and ?H = race_endpoints
  let ?k = "workflow_response WorkflowGovernedIntake"
  obtain out wa where adm: "run (Router_Admit ?r race_request) sample_world = ((out, None), wa)"
    and res: "ad_Result (ao_Decision out) = Admit"
    using admitted_world(3) [OF race_admitted] race_admitted by (metis prod.collapse)
  have free: "\<not> overridden (w_interrupts wa) (rq_IntentID race_request)"
    and prov: "\<exists>a. w_providers wa (mr_ProviderID (rq_ModelRef race_request)) = Some a"
    using admitted_world(1,2) [OF race_admitted] adm by auto
  have pid: "mr_ProviderID (rq_ModelRef race_request) = ''fake''" by (simp add: race_request_def sample_request_def)
  obtain n where dec: "decided race_request (admit_verdict ?r race_request sample_world n) sample_world ((out, None), wa)"
    using decided_Admit [OF make_Router_gre] adm by metis
  have calls: "CallGenerate ''fake'' race_request \<notin> set (w_calls wa)"
    using decided_world(1) [OF dec] verdict_no_generate by (auto simp: sample_world_def)
  let ?wb = "snd (run race_interrupt wa)"
  let ?p = "bindP (execute_provider race_request out) ?k"
  have "pool_run ?H (sample_world, []) (sample_world, [race_workflow])"
    using pool_run_arrive [OF race_endpoint(1), of sample_world "[]"] by simp
  moreover have "pool_run ?H (sample_world, [race_workflow]) (wa, [bindP (execute_admitted race_request out) ?k])"
    using pool_run_prefix [OF _ trans [OF nth_Cons_0 race_workflow_unfold], of "[]" ?H sample_world] adm res by simp
  moreover have "pool_run ?H (wa, [bindP (execute_admitted race_request out) ?k]) (wa, [?p])"
    by (rule final_check_passes [OF free])
  moreover have "pool_run ?H (wa, [?p]) (wa, [?p, race_interrupt])"
    using pool_run_arrive [OF race_endpoint(2), of wa "[?p]"] by simp
  moreover have "pool_run ?H (wa, [?p, race_interrupt]) (?wb, [?p, Ret (fst (run race_interrupt wa))])"
    using pool_run_thread [of 1 "[?p, race_interrupt]" race_interrupt ?H wa] by simp
  ultimately have before: "pool_run ?H (sample_world, []) (?wb, [?p, Ret (fst (run race_interrupt wa))])"
    by (blast intro: pool_run_trans)
  have after: "pool_run ?H (?wb, [?p, x]) (snd (run ?p ?wb), [Ret (fst (run ?p ?wb)), x])" for x
    using pool_run_thread [of 0 "[?p, x]" ?p ?H ?wb] by simp
  obtain a where "w_providers ?wb (mr_ProviderID (rq_ModelRef race_request)) = Some a"
    using prov by (auto simp: race_interrupt_run)
  from executed_calls [OF executed_provider [OF this]]
  have "CallGenerate ''fake'' race_request \<in> set (w_calls (snd (run ?p ?wb)))"
    by (simp add: run_bindP workflow_response_def case_prod_beta run_respond pid)
  moreover have "stopped (w_interrupts ?wb) ''intent-1''" by (simp add: stopped_def race_interrupt_run)
  moreover have "rp_Body (fst (run race_interrupt wa)) = BOperator ''interrupted'' ''intent-1''"
    and "CallGenerate ''fake'' race_request \<notin> set (w_calls ?wb)"
    using calls by (simp_all add: race_interrupt_run)
  moreover have "Ret (fst (run race_interrupt wa)) \<in> set [?p, Ret (fst (run race_interrupt wa))]" by simp
  ultimately show ?thesis using before after by blast
qed

end
