(* ===== verification/Coherence.thy ===== *)
theory Coherence
  imports VossTypes
begin

text \<open>
  Coherence projections (\<open>coherence.go\<close>): construction, the bounded and authority-free \<open>Attach\<close>, and
  the bounds shown to adapters.  The invariant \<open>projection_ok\<close> is what the comments of the source
  promise of a projection built with these operations.
\<close>

section \<open>Definitions\<close>

record CoherenceBounds =
  cb_MaxEntries :: int
  cb_EnforcedBy :: string

definition NewCoherenceProjection :: "int \<Rightarrow> CoherenceProjection" where
  "NewCoherenceProjection maxEntries = \<lparr>cp_MaxEntries = maxEntries, cp_Entries = Some []\<rparr>"

text \<open>\<open>len\<close> and \<open>append\<close> take the nil slice for an empty one.\<close>

definition entries_of :: "CoherenceProjection \<Rightarrow> ProjectionEntry list" where
  "entries_of p = (case cp_Entries p of None \<Rightarrow> [] | Some es \<Rightarrow> es)"

definition Attach ::
  "string \<Rightarrow> string \<Rightarrow> string \<Rightarrow> string \<Rightarrow> CoherenceProjection \<Rightarrow> bool \<times> CoherenceProjection" where
  "Attach key source classification val p =
     (if strings_ToLower classification = ''authority'' then (False, p)
      else if int (length (entries_of p)) \<ge> cp_MaxEntries p then (False, p)
      else (True, p\<lparr>cp_Entries := Some (entries_of p @
              [\<lparr>pe_Key = key, pe_Source = source, pe_Classification = classification, pe_Value = val\<rparr>])\<rparr>))"

definition Bounds :: "CoherenceProjection \<Rightarrow> CoherenceBounds" where
  "Bounds p = \<lparr>cb_MaxEntries = cp_MaxEntries p, cb_EnforcedBy = ''governed-intake''\<rparr>"

definition claims_authority :: "ProjectionEntry \<Rightarrow> bool" where
  "claims_authority e \<longleftrightarrow> strings_ToLower (pe_Classification e) = ''authority''"

definition projection_ok :: "CoherenceProjection \<Rightarrow> bool" where
  "projection_ok p \<longleftrightarrow>
     int (length (entries_of p)) \<le> max 0 (cp_MaxEntries p) \<and> (\<forall>e\<in>set (entries_of p). \<not> claims_authority e)"

text \<open>A sequence of calls of \<open>Attach\<close> on one projection.\<close>

fun attach_all :: "ProjectionEntry list \<Rightarrow> CoherenceProjection \<Rightarrow> CoherenceProjection" where
  "attach_all [] p = p"
| "attach_all (e # es) p =
     attach_all es (snd (Attach (pe_Key e) (pe_Source e) (pe_Classification e) (pe_Value e) p))"

section \<open>Facts\<close>

lemma Attach_max [simp]: "cp_MaxEntries (snd (Attach k s c v p)) = cp_MaxEntries p"
  by (simp add: Attach_def)

lemma projection_ok_New: "projection_ok (NewCoherenceProjection maxEntries)"
  by (simp add: projection_ok_def NewCoherenceProjection_def entries_of_def)

lemma projection_ok_Attach: "projection_ok p \<Longrightarrow> projection_ok (snd (Attach k s c v p))"
  by (auto simp: projection_ok_def Attach_def claims_authority_def entries_of_def)

lemma attach_all_max [simp]: "cp_MaxEntries (attach_all es p) = cp_MaxEntries p"
  by (induction es arbitrary: p) auto

lemma projection_ok_attach_all: "projection_ok p \<Longrightarrow> projection_ok (attach_all es p)"
  by (induction es arbitrary: p) (auto simp: projection_ok_Attach)

text \<open>
  What a sequence of attachments leaves: the evidence among the offered entries, cut at the bound.
\<close>

lemma attach_all_entries:
  "entries_of (attach_all es p) =
     entries_of p @ take (nat (cp_MaxEntries p - int (length (entries_of p)))) (filter (\<lambda>e. \<not> claims_authority e) es)"
proof (induction es arbitrary: p)
  case Nil
  then show ?case by simp
next
  case (Cons e es)
  show ?case
  proof (cases "claims_authority e \<or> cp_MaxEntries p \<le> int (length (entries_of p))")
    case True
    then have "snd (Attach (pe_Key e) (pe_Source e) (pe_Classification e) (pe_Value e) p) = p"
      by (auto simp: Attach_def claims_authority_def)
    with True Cons.IH [of p] show ?thesis by auto
  next
    case False
    let ?p = "snd (Attach (pe_Key e) (pe_Source e) (pe_Classification e) (pe_Value e) p)"
    have entries: "entries_of ?p = entries_of p @ [e]"
      using False by (simp add: Attach_def claims_authority_def entries_of_def)
    have room: "nat (cp_MaxEntries p - int (length (entries_of p)))
        = Suc (nat (cp_MaxEntries p - int (Suc (length (entries_of p)))))"
      using False by linarith
    show ?thesis using False Cons.IH [of ?p] by (simp add: entries room)
  qed
qed

section \<open>Properties\<close>

text \<open>
  A projection built with \<open>Attach\<close> holds exactly the offered entries that do not claim authority
  (in any spelling of the letters), in order, cut at the bound; the bound itself never changes.
\<close>

lemma attach_bounded_evidence:
  "entries_of (attach_all es (NewCoherenceProjection m)) = take (nat m) (filter (\<lambda>e. \<not> claims_authority e) es)
   \<and> projection_ok (attach_all es (NewCoherenceProjection m))
   \<and> Bounds (attach_all es (NewCoherenceProjection m)) = \<lparr>cb_MaxEntries = m, cb_EnforcedBy = ''governed-intake''\<rparr>"
  by (simp add: attach_all_entries projection_ok_attach_all projection_ok_New Bounds_def)
    (simp add: NewCoherenceProjection_def entries_of_def)

end
