(* ===== verification/Accounting.thy ===== *)
theory Accounting
  imports Interleaving "HOL-Library.Infinite_Set"
begin

text \<open>
  Bookkeeping over concurrent runs.  Every atomic action has a cost; \<open>tally\<close> is the weakest precondition
  of a program with respect to its accumulated cost: on every path, whatever other goroutines do between
  the actions, each action obeys a step relation, and the returned value and the cost spent satisfy the
  postcondition.

  The locale \<open>pool_accounts\<close> is the interface to the pool: the cost of an action is the change of a
  measure of the world plus a constant, and every handler balances its books; then the measure of the
  world is the sum of what the goroutines have spent, at every moment of every run, and what the step
  relation preserves is invariant.

  The last section is about time: a schedule says at each instant which goroutine moves or which
  request arrives, and a goroutine with a bounded cost in actions is finished once it has moved often
  enough.
\<close>

section \<open>The cost of a program\<close>

primrec tally ::
  "('w \<Rightarrow> 'w \<Rightarrow> bool) \<Rightarrow> ('w \<Rightarrow> 'w \<Rightarrow> 'v::ab_group_add) \<Rightarrow> ('a \<Rightarrow> 'v \<Rightarrow> bool) \<Rightarrow> ('w, 'a) prog \<Rightarrow> 'v \<Rightarrow> bool" where
  "tally R C Q (Ret a) = (\<lambda>v. Q a v)"
| "tally R C Q (Act u k) = (\<lambda>v. \<forall>w. R w (u w) \<and> tally R C Q (k w) (v + C w (u w)))"

named_theorems tally_intros \<open>rules that compute the cost of a program forwards\<close>

lemma tally_Ret [tally_intros]: "Q a v \<Longrightarrow> tally R C Q (Ret a) v"
  by simp

lemma tally_bindP_eq: "tally R C Q (bindP p k) v = tally R C (\<lambda>a v. tally R C Q (k a) v) p v"
  by (induction p arbitrary: v) auto

lemma tally_bindP [tally_intros]: "tally R C (\<lambda>a v. tally R C Q (k a) v) p v \<Longrightarrow> tally R C Q (bindP p k) v"
  by (simp add: tally_bindP_eq)

lemma tally_seqP [tally_intros]: "tally R C (\<lambda>_ v. tally R C Q q v) p v \<Longrightarrow> tally R C Q (seqP p q) v"
  by (simp add: seqP_def tally_bindP_eq)

lemma tally_if [tally_intros]:
  "(b \<Longrightarrow> tally R C Q p v) \<Longrightarrow> (\<not> b \<Longrightarrow> tally R C Q q v) \<Longrightarrow> tally R C Q (if b then p else q) v"
  by simp

lemma tally_weaken: "tally R C Q p v \<Longrightarrow> (\<And>a v. Q a v \<Longrightarrow> S a v) \<Longrightarrow> tally R C S p v"
  by (induction p arbitrary: v) auto

lemma tally_gets: "(\<And>w. R w w \<and> Q (f w) (v + C w w)) \<Longrightarrow> tally R C Q (gets f) v"
  by (simp add: gets_def)

lemma tally_modify: "(\<And>w. R w (u w) \<and> Q () (v + C w (u w))) \<Longrightarrow> tally R C Q (modify u) v"
  by (simp add: modify_def)

lemma tally_atomic: "(\<And>w. R w (snd (f w)) \<and> Q (fst (f w)) (v + C w (snd (f w)))) \<Longrightarrow> tally R C Q (atomic f) v"
  by (simp add: atomic_def)

lemma tally_keeps: "tally R C Q p v \<Longrightarrow> (\<And>w w'. P w \<Longrightarrow> R w w' \<Longrightarrow> P w') \<Longrightarrow> keeps P p"
  by (induction p arbitrary: v) auto

section \<open>The books of a pool\<close>

locale pool_accounts =
  fixes H :: "('w, 'a) prog set" and R :: "'w \<Rightarrow> 'w \<Rightarrow> bool"
    and measure :: "'w \<Rightarrow> 'v::ab_group_add" and unit :: 'v and Q :: "'a \<Rightarrow> 'v \<Rightarrow> bool"
  assumes balanced: "p \<in> H \<Longrightarrow> tally R (\<lambda>w w'. measure w' - measure w + unit) Q p 0"
begin

abbreviation cost :: "'w \<Rightarrow> 'w \<Rightarrow> 'v" where
  "cost w w' \<equiv> measure w' - measure w + unit"

primrec units :: "nat \<Rightarrow> 'v" where
  "units 0 = 0"
| "units (Suc n) = unit + units n"

text \<open>What the goroutines have spent, one amount for each; the measure is the sum.\<close>

definition accounted :: "'w \<Rightarrow> ('w, 'a) pool \<Rightarrow> nat \<Rightarrow> 'v list \<Rightarrow> bool" where
  "accounted w0 s n spent \<longleftrightarrow>
     list_all2 (tally R cost Q) (snd s) spent \<and> sum_list spent = measure (fst s) - measure w0 + units n"

lemma sum_list_update: "i < length vs \<Longrightarrow> sum_list (vs[i := vs ! i + d]) = sum_list vs + (d :: 'v)"
proof (induction vs arbitrary: i)
  case (Cons v vs)
  then show ?case by (cases i) (simp_all add: ac_simps)
qed simp

lemma accounted_step:
  assumes "pool_step H s t" and "accounted w0 s n spent"
  shows "\<exists>m spent'. accounted w0 t m spent'"
  using assms
proof (cases rule: pool_step.cases)
  case (arrive p w ts)
  then have "accounted w0 t n (spent @ [0])"
    using assms(2) balanced by (auto simp: accounted_def intro!: list_all2_appendI)
  then show ?thesis by blast
next
  case (execute i ts u k w)
  have len: "length spent = length ts" and each: "tally R cost Q (ts ! i) (spent ! i)"
    using assms(2) execute by (auto simp: accounted_def dest: list_all2_lengthD list_all2_nthD)
  have "tally R cost Q (k w) (spent ! i + cost w (u w))" using each execute by simp
  then have "list_all2 (tally R cost Q) (ts[i := k w]) (spent[i := spent ! i + cost w (u w)])"
    using assms(2) execute by (intro list_all2_update_cong) (auto simp: accounted_def)
  moreover have "sum_list (spent[i := spent ! i + cost w (u w)]) = measure (u w) - measure w0 + units (Suc n)"
    using sum_list_update [of i spent "cost w (u w)"] len execute assms(2) by (simp add: accounted_def)
  ultimately have "accounted w0 t (Suc n) (spent[i := spent ! i + cost w (u w)])" using execute by (simp add: accounted_def)
  then show ?thesis by blast
qed

lemma accounted_run: "pool_run H s t \<Longrightarrow> accounted w0 s n spent \<Longrightarrow> \<exists>m spent'. accounted w0 t m spent'"
proof (induction arbitrary: n spent rule: pool_run.induct)
  case (continue s t v)
  then show ?case using accounted_step by blast
qed blast

text \<open>When every goroutine has returned, the measure is the sum of what the postconditions allow.\<close>

lemma all_returned:
  assumes "pool_run H (w, []) (w', map Ret rs)"
  shows "\<exists>n spent. list_all2 Q rs spent \<and> sum_list spent = measure w' - measure w + units n"
proof -
  have "accounted w (w, []) 0 []" by (simp add: accounted_def)
  from accounted_run [OF assms this] show ?thesis by (auto simp: accounted_def list.rel_map)
qed

end

section \<open>Schedules\<close>

text \<open>At each instant a request arrives or a goroutine is picked; a picked goroutine that has returned stays so.\<close>

datatype ('w, 'a) event = Arrives "('w, 'a) prog" | Moves nat

fun occur :: "('w, 'a) event \<Rightarrow> ('w, 'a) pool \<Rightarrow> ('w, 'a) pool" where
  "occur (Arrives p) (w, ts) = (w, ts @ [p])"
| "occur (Moves i) (w, ts) =
     (if i < length ts then (case ts ! i of Ret a \<Rightarrow> (w, ts) | Act u k \<Rightarrow> (u w, ts[i := k w])) else (w, ts))"

primrec unfold_schedule :: "(nat \<Rightarrow> ('w, 'a) event) \<Rightarrow> ('w, 'a) pool \<Rightarrow> nat \<Rightarrow> ('w, 'a) pool" where
  "unfold_schedule c s 0 = s"
| "unfold_schedule c s (Suc n) = occur (c n) (unfold_schedule c s n)"

primrec finishes :: "('a \<Rightarrow> bool) \<Rightarrow> ('w, 'a) prog \<Rightarrow> nat \<Rightarrow> bool" where
  "finishes Q (Ret a) = (\<lambda>n. Q a)"
| "finishes Q (Act u k) = (\<lambda>n. case n of 0 \<Rightarrow> False | Suc m \<Rightarrow> \<forall>w. finishes Q (k w) m)"

lemma finishes_mono: "finishes Q p n \<Longrightarrow> n \<le> m \<Longrightarrow> finishes Q p m"
proof (induction p arbitrary: n m)
  case (Act u k)
  from Act.prems obtain n' m' where nm: "n = Suc n'" "m = Suc m'" "n' \<le> m'" by (cases n; cases m) auto
  have "finishes Q (k w) m'" for w
    by (rule Act.IH [of _ n']) (use Act.prems nm in auto)
  with nm show ?case by simp
qed simp

text \<open>How often a goroutine is picked between two instants.\<close>

definition moves :: "(nat \<Rightarrow> ('w, 'a) event) \<Rightarrow> nat \<Rightarrow> nat \<Rightarrow> nat \<Rightarrow> nat" where
  "moves c i n m = card {k. n \<le> k \<and> k < m \<and> c k = Moves i}"

lemma moves_self: "moves c i n n = 0"
  by (auto simp: moves_def card_eq_0_iff)

lemma moves_Suc: "n \<le> m \<Longrightarrow> moves c i n (Suc m) = moves c i n m + (if c m = Moves i then 1 else 0)"
proof -
  assume "n \<le> m"
  let ?S = "{k. n \<le> k \<and> k < m \<and> c k = Moves i}"
  have fin: "finite ?S" by (rule finite_subset [of _ "{..<m}"]) auto
  have "{k. n \<le> k \<and> k < Suc m \<and> c k = Moves i} = (if c m = Moves i then insert m ?S else ?S)"
    using \<open>n \<le> m\<close> by (auto simp: less_Suc_eq)
  with fin show ?thesis by (auto simp: moves_def)
qed

lemma occur_thread:
  assumes "i < length (snd s)" and "finishes Q (snd s ! i) n"
  shows "i < length (snd (occur e s)) \<and> finishes Q (snd (occur e s) ! i) (n - (if e = Moves i then 1 else 0))"
proof (cases e)
  case (Arrives p)
  with assms show ?thesis by (cases s) (simp add: nth_append)
next
  case (Moves j)
  obtain w ts where s: "s = (w, ts)" by (cases s)
  show ?thesis
  proof (cases "j = i")
    case True
    then show ?thesis using assms Moves s by (cases "ts ! i") (auto split: nat.splits)
  next
    case False
    then show ?thesis using assms Moves s by (auto split: prog.splits)
  qed
qed

lemma schedule_thread:
  assumes "i < length (snd (unfold_schedule c s n))" and "finishes Q (snd (unfold_schedule c s n) ! i) b" and "n \<le> m"
  shows "i < length (snd (unfold_schedule c s m)) \<and> finishes Q (snd (unfold_schedule c s m) ! i) (b - moves c i n m)"
  using \<open>n \<le> m\<close>
proof (induction m rule: dec_induct)
  case base
  then show ?case using assms(1,2) by (simp add: moves_self)
next
  case (step m)
  then show ?case using occur_thread [of i "unfold_schedule c s m" Q "b - moves c i n m" "c m"] by (auto simp: moves_Suc)
qed

text \<open>A goroutine that has moved often enough has returned.\<close>

lemma moved_enough:
  assumes "i < length (snd (unfold_schedule c s n))" and "finishes Q (snd (unfold_schedule c s n) ! i) b" and "n \<le> m"
    and "b \<le> moves c i n m"
  shows "\<exists>a. snd (unfold_schedule c s m) ! i = Ret a \<and> Q a"
proof -
  have "finishes Q (snd (unfold_schedule c s m) ! i) 0"
    using schedule_thread [OF assms(1-3)] assms(4) by simp
  then show ?thesis by (cases "snd (unfold_schedule c s m) ! i") auto
qed

lemma moves_unbounded:
  assumes "infinite {k. c k = Moves i}"
  shows "\<exists>m\<ge>n. b \<le> moves c i n m"
proof (induction b)
  case (Suc b)
  then obtain m where m: "n \<le> m" "b \<le> moves c i n m" by blast
  from assms have "\<exists>k\<ge>m. k \<in> {k. c k = Moves i}" unfolding infinite_nat_iff_unbounded_le by blast
  then obtain k where k: "m \<le> k" "c k = Moves i" by blast
  have fin: "finite {j. n \<le> j \<and> j < k \<and> c j = Moves i}" by (rule finite_subset [of _ "{..<k}"]) auto
  have "moves c i n m \<le> moves c i n k"
    unfolding moves_def by (rule card_mono [OF fin]) (use k(1) in auto)
  then have "Suc b \<le> moves c i n (Suc k)" using m k moves_Suc [of n k c i] by simp
  moreover have "n \<le> Suc k" using m(1) k(1) by linarith
  ultimately show ?case by blast
qed auto

text \<open>A bound on the accumulated number of actions is a bound on the moves a goroutine needs.\<close>

lemma tally_finishes:
  fixes st :: "'v::ab_group_add \<Rightarrow> int"
  assumes "\<And>w w' v. st (v + C w w') = st v + 1"
  shows "tally R C (\<lambda>a v. Q a \<and> st v \<le> N) p v \<Longrightarrow> st v \<le> N \<and> finishes Q p (nat (N - st v))"
proof (induction p arbitrary: v)
  case (Act u k)
  have each: "st v + 1 \<le> N \<and> finishes Q (k w) (nat (N - st v - 1))" for w
    using Act.IH [of "k w" "v + C w (u w)"] Act.prems assms by (simp add: algebra_simps)
  then have "st v + 1 \<le> N" by blast
  then have "nat (N - st v) = Suc (nat (N - st v - 1))" by linarith
  with each show ?case by simp
qed simp

end
