(* ===== verification/Bookkeeping.thy ===== *)
theory Bookkeeping
  imports Service Accounting
begin

text \<open>
  The books of the router service: which ledger entries and which metric calls a request produces, and
  how many actions it takes.

  \<open>audit\<close> weighs a world: every ledger entry is booked on the accounts it belongs to, every call of a
  counter takes from the account the counter reports.  One walk through the handlers shows what each
  response leaves on the accounts (\<open>handler_books\<close>), that only well-typed entries are appended, and a
  bound on the number of actions; \<open>pool_accounts\<close> lifts it to all interleavings.
\<close>

section \<open>Definitions\<close>

text \<open>What the fields of an entry may hold: a decision, or the record of an execution.\<close>

definition hex_digest :: "string \<Rightarrow> bool" where
  "hex_digest s \<longleftrightarrow> length s = 64 \<and> set s \<subseteq> set (map hex_digit [0..<16])"

definition typed_decision :: "LedgerEntry \<Rightarrow> bool" where
  "typed_decision e \<longleftrightarrow>
     le_ExecutionHash e = [] \<and> le_Result e \<in> {Admit, Deny, Quarantine} \<and> (le_Admitted e \<longleftrightarrow> le_Result e = Admit)
     \<and> (le_StageLog e = None \<longrightarrow> le_Result e = Deny)"

definition typed_execution :: "LedgerEntry \<Rightarrow> bool" where
  "typed_execution e \<longleftrightarrow>
     hex_digest (le_ExecutionHash e) \<and> le_Admitted e \<and> le_Result e = Admit \<and> le_StageLog e = None"

definition typed_entry :: "LedgerEntry \<Rightarrow> bool" where
  "typed_entry e \<longleftrightarrow> (typed_decision e \<or> typed_execution e) \<and> hex_digest (le_Hash e)"

text \<open>The accounts, and an amount on each.\<close>

datatype account = Writes | Verdicts string | Executions | Executed | Steps

datatype books = Books (amount: "account \<Rightarrow> int")

instantiation books :: ab_group_add
begin

definition zero_books :: books where "0 = Books (\<lambda>_. 0)"
definition plus_books :: "books \<Rightarrow> books \<Rightarrow> books" where "x + y = Books (\<lambda>a. amount x a + amount y a)"
definition minus_books :: "books \<Rightarrow> books \<Rightarrow> books" where "x - y = Books (\<lambda>a. amount x a - amount y a)"
definition uminus_books :: "books \<Rightarrow> books" where "- x = Books (\<lambda>a. - amount x a)"

instance
  by standard (auto simp: zero_books_def plus_books_def minus_books_def uminus_books_def books.expand)

end

definition book_entry :: "LedgerEntry \<Rightarrow> books" where
  "book_entry e = Books (\<lambda>a. case a of
       Writes \<Rightarrow> 1
     | Verdicts r \<Rightarrow> if le_ExecutionHash e = [] \<and> le_Result e = r then 1 else 0
     | Executions \<Rightarrow> if le_ExecutionHash e \<noteq> [] then 1 else 0
     | Executed \<Rightarrow> if le_ExecutionHash e \<noteq> [] then 1 else 0
     | Steps \<Rightarrow> 0)"

definition book_metric :: "MetricCall \<Rightarrow> books" where
  "book_metric c = Books (\<lambda>a. case a of
       Writes \<Rightarrow> if c = MInc MetricLedgerWrites [] then - 1 else 0
     | Verdicts r \<Rightarrow> if c = MInc MetricAdmissions [r] then - 1 else 0
     | Executions \<Rightarrow> if c = MInc MetricExecutions [] then - 1 else 0
     | _ \<Rightarrow> 0)"

definition book_step :: books where
  "book_step = Books (\<lambda>a. if a = Steps then 1 else 0)"

definition audit :: "world \<Rightarrow> books" where
  "audit w = (\<Sum>e\<leftarrow>lg_entries (w_ledger w). book_entry e) + (\<Sum>c\<leftarrow>w_metrics w. book_metric c)"

definition bill :: "world \<Rightarrow> world \<Rightarrow> books" where
  "bill w w' = audit w' - audit w + book_step"

text \<open>
  A step leaves the ledger alone or appends one well-typed entry, and makes no metric call or one that
  fits the declaration of the metric.
\<close>

definition orderly :: "world \<Rightarrow> world \<Rightarrow> bool" where
  "orderly w w' \<longleftrightarrow>
     (lg_entries (w_ledger w') = lg_entries (w_ledger w)
      \<or> (\<exists>e. typed_entry e \<and> lg_entries (w_ledger w') = lg_entries (w_ledger w) @ [e]))
     \<and> (w_metrics w' = w_metrics w \<or> (\<exists>c. call_fits c \<and> w_metrics w' = w_metrics w @ [c]))"

abbreviation books_of :: "('a \<Rightarrow> books \<Rightarrow> bool) \<Rightarrow> 'a go \<Rightarrow> books \<Rightarrow> bool" where
  "books_of \<equiv> tally orderly bill"

text \<open>Nothing is left on the accounts, at most \<open>k\<close> actions later.\<close>

definition settled :: "books \<Rightarrow> nat \<Rightarrow> books \<Rightarrow> bool" where
  "settled v k v' \<longleftrightarrow>
     (\<forall>a. a \<noteq> Steps \<longrightarrow> amount v' a = amount v a) \<and> amount v' Steps \<le> amount v Steps + int k"

text \<open>The metrics that say nothing about the ledger.\<close>

definition unrelated :: "Metric \<Rightarrow> bool" where
  "unrelated m \<longleftrightarrow> m \<notin> {MetricLedgerWrites, MetricAdmissions, MetricExecutions}"

section \<open>The actions\<close>

lemma amount_simps [simp]:
  "amount 0 a = 0" "amount (x + y) a = amount x a + amount y a" "amount (x - y) a = amount x a - amount y a"
  "amount (- x) a = - amount x a"
  by (simp_all add: zero_books_def plus_books_def minus_books_def uminus_books_def)

lemma amount_book_step [simp]: "amount book_step a = (if a = Steps then 1 else 0)"
  by (simp add: book_step_def)

lemma amount_book_metric [simp]:
  "amount (book_metric c) Writes = (if c = MInc MetricLedgerWrites [] then - 1 else 0)"
  "amount (book_metric c) (Verdicts r) = (if c = MInc MetricAdmissions [r] then - 1 else 0)"
  "amount (book_metric c) Executions = (if c = MInc MetricExecutions [] then - 1 else 0)"
  "amount (book_metric c) Executed = 0" "amount (book_metric c) Steps = 0"
  by (simp_all add: book_metric_def)

lemma amount_unrelated [simp]:
  "unrelated m \<Longrightarrow> amount (book_metric (MInc m ls)) a = 0"
  "amount (book_metric (MObserve m ls d)) a = 0" "amount (book_metric (MSet m x)) a = 0"
  by (cases a; auto simp: book_metric_def unrelated_def)+

lemma amount_book_entry [simp]:
  "amount (book_entry e) Writes = 1"
  "amount (book_entry e) (Verdicts r) = (if le_ExecutionHash e = [] \<and> le_Result e = r then 1 else 0)"
  "amount (book_entry e) Executions = (if le_ExecutionHash e \<noteq> [] then 1 else 0)"
  "amount (book_entry e) Executed = (if le_ExecutionHash e \<noteq> [] then 1 else 0)" "amount (book_entry e) Steps = 0"
  by (simp_all add: book_entry_def)

lemma settled_refl: "settled v k v"
  by (simp add: settled_def)

lemma settled_trans: "settled v k v' \<Longrightarrow> settled v' m v'' \<Longrightarrow> settled v (k + m) v''"
  by (simp add: settled_def)

lemma settled_mono: "settled v k v' \<Longrightarrow> k \<le> m \<Longrightarrow> settled v m v'"
  by (auto simp: settled_def)

lemma settledI:
  assumes "amount v' Writes = amount v Writes" and "\<And>r. amount v' (Verdicts r) = amount v (Verdicts r)"
    and "amount v' Executions = amount v Executions" and "amount v' Executed = amount v Executed"
    and "amount v' Steps \<le> amount v Steps + int k"
  shows "settled v k v'"
  unfolding settled_def
proof (intro conjI allI impI)
  fix a
  assume "a \<noteq> Steps"
  then show "amount v' a = amount v a" using assms by (cases a) simp_all
qed (use assms in simp)

lemma books_of_silent:
  assumes "\<And>w. w_ledger (u w) = w_ledger w" and "\<And>w. w_metrics (u w) = w_metrics w"
  shows "orderly w (u w)" and "bill w (u w) = book_step"
  using assms by (simp_all add: orderly_def bill_def audit_def)

lemma books_of_gets [tally_intros]: "(\<And>x. Q x (v + book_step)) \<Longrightarrow> books_of Q (gets f) v"
  using books_of_silent [of "\<lambda>w. w"] by (intro tally_gets) simp

lemma books_of_silent_modify:
  "(\<And>w. w_ledger (u w) = w_ledger w) \<Longrightarrow> (\<And>w. w_metrics (u w) = w_metrics w) \<Longrightarrow> Q () (v + book_step) \<Longrightarrow>
     books_of Q (modify u) v"
  using books_of_silent [of u] by (intro tally_modify) simp

lemma books_of_silent_atomic:
  "(\<And>w. w_ledger (snd (f w)) = w_ledger w) \<Longrightarrow> (\<And>w. w_metrics (snd (f w)) = w_metrics w) \<Longrightarrow>
     (\<And>x. Q x (v + book_step)) \<Longrightarrow> books_of Q (atomic f) v"
  using books_of_silent [of "\<lambda>w. snd (f w)"] by (intro tally_atomic) simp

lemma books_of_silent_actions [tally_intros]:
  "(\<And>x. Q1 x (v + book_step)) \<Longrightarrow> books_of Q1 time_Now v"
  "(\<And>x. Q2 x (v + book_step)) \<Longrightarrow> books_of Q2 (rand_Read n) v"
  "(\<And>x. Q3 x (v + book_step)) \<Longrightarrow> books_of Q3 (exec_Transition i cur next) v"
  "(\<And>x. Q4 x (v + book_step)) \<Longrightarrow> books_of Q4 (call_CapabilityRequest a req) v"
  "(\<And>x. Q5 x (v + book_step)) \<Longrightarrow> books_of Q5 (start_Generate a req) v"
  "(\<And>x. Q6 x (v + book_step)) \<Longrightarrow> books_of Q6 (atomic (\<lambda>w. (w_select w (w_pos w), tick w))) v"
  unfolding time_Now_def rand_Read_def exec_Transition_def call_CapabilityRequest_def start_Generate_def
  by (rule books_of_silent_atomic; simp add: tick_def Let_def case_prod_beta)+

lemma books_of_updates [tally_intros]:
  "Q () (v + book_step) \<Longrightarrow> books_of Q (exec_Forcibly i s) v"
  "Q () (v + book_step) \<Longrightarrow> books_of Q (override f) v"
  unfolding exec_Forcibly_def override_def by (rule books_of_silent_modify; simp)+

lemma books_of_reads [tally_intros]:
  "(\<And>x. Q1 x (v + book_step)) \<Longrightarrow> books_of Q1 ledger_Verify v"
  "(\<And>x. Q2 x (v + book_step)) \<Longrightarrow> books_of Q2 ledger_Export v"
  "(\<And>x. Q3 x (v + book_step)) \<Longrightarrow> books_of Q3 (isTerminated i) v"
  "(\<And>x. Q4 x (v + book_step)) \<Longrightarrow> books_of Q4 (isInterrupted i) v"
  "(\<And>x. Q5 x (v + book_step)) \<Longrightarrow> books_of Q5 (getCorrection i) v"
  "(\<And>x. Q6 x (v + book_step)) \<Longrightarrow> books_of Q6 (exec_Current i) v"
  "(\<And>x. Q7 x (v + book_step)) \<Longrightarrow> books_of Q7 (provider_lookup p) v"
  unfolding ledger_Verify_def ledger_Export_def isTerminated_def isInterrupted_def getCorrection_def exec_Current_def
    provider_lookup_def
  by (rule books_of_gets, simp)+

lemma books_of_metric [tally_intros]: "call_fits c \<Longrightarrow> Q () (v + (book_metric c + book_step)) \<Longrightarrow> books_of Q (metric c) v"
  unfolding metric_def by (rule tally_modify) (simp add: orderly_def bill_def audit_def algebra_simps)

lemma books_of_inc [tally_intros]:
  "call_fits (MInc m ls) \<Longrightarrow> Q () (v + (book_metric (MInc m ls) + book_step)) \<Longrightarrow> books_of Q (inc m ls) v"
  unfolding inc_def by (rule books_of_metric)

lemma books_of_observe_since [tally_intros]:
  "call_fits (MObserve m ls 0) \<Longrightarrow> (\<And>d. Q () (v + book_step + (book_metric (MObserve m ls d) + book_step))) \<Longrightarrow>
     books_of Q (observe_since m ls t) v"
  unfolding observe_since_def by (intro tally_intros) simp_all

subsection \<open>Ledger entries\<close>

lemma hex_digit_mod: "hex_digit (n mod 16) = hex_digit n"
  by (simp add: hex_digit_def)

lemma hex_digits: "set (hex_EncodeToString bs) \<subseteq> range hex_digit"
  by (induction bs) auto

lemma range_hex_digit: "range hex_digit = set (map hex_digit [0..<16])"
proof -
  have "hex_digit n \<in> hex_digit ` {0..<16}" for n
    by (rule image_eqI [of _ _ "n mod 16"]) (simp_all add: hex_digit_mod)
  then show ?thesis by auto
qed

lemma hex_digest_sha256 [simp]: "hex_digest (sha256_hex s)"
  unfolding hex_digest_def range_hex_digit [symmetric] by (simp add: length_sha256_hex) (simp add: sha256_hex_def hex_digits)

lemma book_entry_seal [simp]:
  "book_entry (e\<lparr>le_Index := n, le_Timestamp := t, le_PrevHash := p, le_Hash := h\<rparr>) = book_entry e"
  by (simp add: book_entry_def)

lemma books_of_ledger_Append:
  assumes "typed_decision e \<or> typed_execution e" and "\<And>e'. Q e' (v + (book_entry e + book_step))"
  shows "books_of Q (ledger_Append e) v"
  unfolding ledger_Append_def
proof (rule tally_atomic)
  fix w
  show "orderly w (snd (let (e', l) = Append (w_clock w (w_pos w)) e (w_ledger w) in (e', tick w\<lparr>w_ledger := l\<rparr>)))
    \<and> Q (fst (let (e', l) = Append (w_clock w (w_pos w)) e (w_ledger w) in (e', tick w\<lparr>w_ledger := l\<rparr>)))
        (v + bill w (snd (let (e', l) = Append (w_clock w (w_pos w)) e (w_ledger w) in (e', tick w\<lparr>w_ledger := l\<rparr>))))"
    using assms
    by (simp add: Append_def Let_def orderly_def bill_def audit_def tick_def typed_entry_def typed_decision_def
        typed_execution_def hashEntry_def algebra_simps)
qed

lemma books_of_WriteDecision:
  assumes "res \<in> {Admit, Deny, Quarantine}" and "a \<longleftrightarrow> res = Admit"
    and "\<And>e e'. le_ExecutionHash e = [] \<Longrightarrow> le_Result e = res \<Longrightarrow> Q e' (v + book_step + (book_entry e + book_step))"
  shows "books_of Q (WriteDecision req a res reason rule did lg) v"
  unfolding WriteDecision_def
  by (intro tally_intros books_of_ledger_Append)
    (use assms in \<open>auto simp: decision_entry_def typed_decision_def zero_LedgerEntry_def\<close>)

lemma books_of_WriteExecution:
  assumes "hex_digest h" and "\<And>e e'. le_ExecutionHash e = h \<Longrightarrow> le_Result e = Admit \<Longrightarrow> Q e' (v + book_step + (book_entry e + book_step))"
  shows "books_of Q (WriteExecution req did h) v"
  unfolding WriteExecution_def
  by (intro tally_intros books_of_ledger_Append)
    (use assms in \<open>auto simp: execution_entry_def typed_execution_def zero_LedgerEntry_def\<close>)

lemma books_of_new_decision [tally_intros]:
  "(\<And>d. ad_Result d = res \<Longrightarrow> Q d (v + book_step + book_step)) \<Longrightarrow> books_of Q (new_decision req res reason rule) v"
  unfolding new_decision_def decID_def admittedDecision_def by (intro tally_intros) simp

lemma books_of_write_decision:
  "ad_Result d \<in> {Admit, Deny, Quarantine} \<Longrightarrow> a \<longleftrightarrow> ad_Result d = Admit \<Longrightarrow>
     (\<And>e e'. le_ExecutionHash e = [] \<Longrightarrow> le_Result e = ad_Result d \<Longrightarrow> Q e' (v + book_step + (book_entry e + book_step))) \<Longrightarrow>
     books_of Q (write_decision req a d lg) v"
  unfolding write_decision_def by (rule books_of_WriteDecision)

section \<open>The pipeline\<close>

lemma settled_metric: "unrelated m \<Longrightarrow> settled v (Suc k) (v + (book_metric (MInc m ls) + book_step))"
  by (rule settledI) (auto simp: unrelated_def)

lemma books_of_inc_all:
  "list_all (\<lambda>m. unrelated m \<and> call_fits (MInc m [])) ms \<Longrightarrow> settled v0 k v \<Longrightarrow> (\<And>v'. settled v0 (k + length ms) v' \<Longrightarrow> Q () v') \<Longrightarrow> books_of Q (inc_all ms) v"
proof (induction ms arbitrary: v k)
  case (Cons m ms)
  have "settled v0 (k + 1) (v + (book_metric (MInc m []) + book_step))"
    by (rule settled_trans [OF Cons.prems(2)]) (use Cons.prems(1) settled_metric [of m v 0] in simp)
  from Cons.IH [OF _ this] Cons.prems(1,3) show ?case by (auto intro!: tally_intros simp del: call_fits.simps)
qed simp

lemma usl_verdict_metrics:
  "list_all (\<lambda>m. unrelated m \<and> call_fits (MInc m [])) (snd (snd (snd (usl_verdict u req))))
     \<and> length (snd (snd (snd (usl_verdict u req)))) \<le> 2"
  by (auto simp: usl_verdict_def unrelated_def split: option.splits)

lemma books_of_USLGate_Check:
  assumes "\<And>d v'. settled v 4 v' \<Longrightarrow> Q d v'"
  shows "books_of Q (USLGate_Check u req) v"
proof -
  obtain result reason rule ms where verdict: "usl_verdict u req = (result, reason, rule, ms)" by (metis prod_cases4)
  with usl_verdict_metrics [of u req] have ms: "list_all (\<lambda>m. unrelated m \<and> call_fits (MInc m [])) ms" "length ms \<le> 2" by auto
  have "settled v 1 (v + book_step)" by (rule settledI) simp_all
  moreover have "books_of Q (decision result reason rule rid t) v'" if "settled v (1 + length ms) v'" for v' rid t
    unfolding decision_def decisionID_def
    by (intro tally_intros assms) (use that ms in \<open>auto simp: settled_def\<close>)
  ultimately show ?thesis
    unfolding USLGate_Check_def verdict prod.case by (intro tally_intros books_of_inc_all [OF ms(1)])
qed

lemma books_of_stage:
  assumes "s \<in> set (gre_Stages (NewGRE1001 usl))" and "\<And>out v'. settled v 4 v' \<Longrightarrow> Q out v'"
  shows "books_of Q (ss_Check s si) v"
proof -
  have checks: "books_of Q (stageIdentitySeparation si) v" "books_of Q (stageUSLGate si) v"
    "books_of Q (stageDriftCheck si) v" "books_of Q (stageOperatorCorrigibility si) v"
    unfolding stageIdentitySeparation_def stageUSLGate_def stageDriftCheck_def stageOperatorCorrigibility_def Let_def
    by (auto intro!: tally_intros books_of_USLGate_Check assms(2) settledI split: prod.splits)
  then show ?thesis using assms by (auto simp: NewGRE1001_def step_def settled_refl)
qed

lemma books_of_run_stages:
  assumes "set ss \<subseteq> set (gre_Stages (NewGRE1001 usl))" and "settled v0 k v"
    and "\<And>r v'. settled v0 (k + 8 * length ss + 1) v' \<Longrightarrow> Q r v'"
  shows "books_of Q (run_stages ss si outs) v"
  using assms
proof (induction ss arbitrary: v k outs)
  case Nil
  then show ?case using settled_mono [of v0 k v "k + 1"] by simp
next
  case (Cons s ss)
  have s: "s \<in> set (gre_Stages (NewGRE1001 usl))" using Cons.prems(1) by simp
  have later: "settled v0 (k + 8) (v' + book_step + (book_metric (MObserve MetricStageDuration ls d) + book_step)
      + (book_metric (MInc MetricLambdaCheck ls') + book_step))" if "settled (v + book_step) 4 v'" for v' ls ls' d
    using that Cons.prems(2) by (simp add: settled_def unrelated_def)
  show ?case
    unfolding run_stages.simps
  proof (intro tally_intros books_of_stage [OF s], goal_cases)
    case (4 t out v' d)
    then show ?case using later [OF 4(1)] Cons.prems(3)
      by (auto intro!: tally_intros simp: settled_def unrelated_def)
  next
    case (5 t out v' d)
    show ?case
      by (rule Cons.IH [OF _ later [OF 5(1)]]) (use Cons.prems in \<open>auto simp: algebra_simps\<close>)
  qed simp_all
qed

lemma books_of_GRE_Run:
  assumes "\<And>r v'. settled v 73 v' \<Longrightarrow> Q r v'"
  shows "books_of Q (GRE_Run (NewGRE1001 usl) si) v"
  unfolding GRE_Run_def
  by (rule books_of_run_stages [where k = 0 and usl = usl]) (use assms in \<open>auto simp: settled_refl NewGRE1001_def\<close>)

section \<open>Admission and execution\<close>

text \<open>Every way out of \<open>Admit\<close> writes one decision and counts it.\<close>

lemma books_of_verdict:
  assumes "\<And>x v'. settled v 10 v' \<Longrightarrow> Q x v'"
  shows "books_of Q (admit_ledger_break req) v" "books_of Q (admit_terminated req) v"
    "books_of Q (admit_interrupted req start) v" "books_of Q (admit_halted req stages) v"
    "books_of Q (admit_quarantined req recs im) v" "books_of Q (admit_no_provider req recs) v"
    "books_of Q (admit_refused req recs reason) v" "books_of Q (admit_terminated_in_flight req recs) v"
    "books_of Q (admit_interrupted_in_flight req start recs) v" "books_of Q (admit_commit req recs) v"
  unfolding admit_ledger_break_def admit_terminated_def admit_interrupted_def admit_halted_def
    admit_quarantined_def admit_no_provider_def admit_refused_def admit_terminated_in_flight_def
    admit_interrupted_in_flight_def admit_commit_def Let_def
  by (auto intro!: tally_intros books_of_write_decision books_of_ledger_Append assms settledI
      simp: typed_decision_def zero_LedgerEntry_def)

lemma books_of_admit_provider:
  assumes "\<And>x v'. settled v 14 v' \<Longrightarrow> Q x v'"
  shows "books_of Q (admit_provider req start recs) v"
  unfolding admit_provider_def admit_in_flight_def
  by (auto intro!: tally_intros books_of_verdict assms split: option.splits) (simp_all add: settled_def)

lemma books_of_admit_pipeline:
  assumes "\<And>x v'. settled v 88 v' \<Longrightarrow> Q x v'"
  shows "books_of Q (admit_pipeline (make_Router ts lat) req start) v"
  unfolding admit_pipeline_def make_Router_gre Immune_Classify_def Let_def
  by (auto intro!: tally_intros books_of_GRE_Run books_of_verdict books_of_admit_provider assms)
    (simp_all add: settled_def unrelated_def)

lemma books_of_Router_Admit:
  assumes "\<And>x v'. settled v 94 v' \<Longrightarrow> Q x v'"
  shows "books_of Q (Router_Admit (make_Router ts lat) req) v"
  unfolding Router_Admit_def admit_gates_def
  by (auto intro!: tally_intros books_of_verdict books_of_admit_pipeline assms) (simp_all add: settled_def unrelated_def)

text \<open>
  What an execution leaves: its own ledger entry, counted as a write and as an execution, if there is a
  result hash; otherwise nothing.
\<close>

definition executed_books :: "books \<Rightarrow> nat \<Rightarrow> ExecutionResult \<Rightarrow> books \<Rightarrow> bool" where
  "executed_books v k ex v' \<longleftrightarrow>
     (\<forall>a. a \<noteq> Steps \<longrightarrow> amount v' a = amount v a + (if a = Executed \<and> er_Hash ex \<noteq> [] then 1 else 0))
     \<and> amount v' Steps \<le> amount v Steps + int k"

lemma HashResult_nonempty [simp]: "HashResult g \<noteq> []"
  using length_sha256_hex [of "case g of None \<Rightarrow> json_text JNull | Some kvs \<Rightarrow> json_text (JMap kvs)"]
  by (auto simp: HashResult_def simp del: length_0_conv)

lemma settled_executed: "settled v k v' \<Longrightarrow> er_Hash ex = [] \<Longrightarrow> executed_books v k ex v'"
  by (simp add: settled_def executed_books_def)

lemma books_of_boundedGenerate:
  assumes "\<And>x. Q x (v + book_step + book_step + book_step)"
  shows "books_of Q (boundedGenerate a req) v"
  unfolding boundedGenerate_def by (auto intro!: tally_intros assms)

lemma books_of_execute_refused:
  assumes "\<And>out ex err v'. settled v 7 v' \<Longrightarrow> er_Hash ex = [] \<Longrightarrow> Q (out, ex, err) v'"
  shows "books_of Q (execute_no_provider req) v" "books_of Q (execute_failed req e) v"
  unfolding execute_no_provider_def execute_failed_def Let_def
  by (auto intro!: tally_intros books_of_write_decision assms settledI simp: zero_ExecutionResult_def)

lemma executed_booksI:
  assumes "amount v' Writes = amount v Writes" and "\<And>r. amount v' (Verdicts r) = amount v (Verdicts r)"
    and "amount v' Executions = amount v Executions" and "amount v' Executed = amount v Executed + (if er_Hash ex \<noteq> [] then 1 else 0)"
    and "amount v' Steps \<le> amount v Steps + int k"
  shows "executed_books v k ex v'"
  unfolding executed_books_def
proof (intro conjI allI impI)
  fix a
  assume "a \<noteq> Steps"
  then show "amount v' a = amount v a + (if a = Executed \<and> er_Hash ex \<noteq> [] then 1 else 0)" using assms by (cases a) simp_all
qed (use assms in simp)

lemma books_of_execute_done:
  assumes "\<And>out ex err v'. executed_books v 4 ex v' \<Longrightarrow> Q (out, ex, err) v'"
  shows "books_of Q (execute_done req out g) v"
proof -
  have "hex_digest (HashResult g)" by (simp add: HashResult_def)
  then show ?thesis
    unfolding execute_done_def Let_def
    by (auto intro!: tally_intros books_of_WriteExecution assms executed_booksI)
qed

lemma books_of_execute_admitted:
  assumes "\<And>out ex err v'. executed_books v 16 ex v' \<Longrightarrow> Q (out, ex, err) v'"
  shows "books_of Q (execute_admitted req out) v"
  unfolding execute_admitted_def execute_provider_def
  by (auto intro!: tally_intros books_of_boundedGenerate books_of_execute_refused books_of_execute_done assms
      split: option.splits prod.splits)
    (simp_all add: settled_def executed_books_def zero_ExecutionResult_def)

lemma books_of_GovernAndExecute:
  assumes "\<And>out ex err v'. executed_books v 110 ex v' \<Longrightarrow> Q (out, ex, err) v'"
  shows "books_of Q (GovernAndExecute (make_Router ts lat) req) v"
  unfolding GovernAndExecute_def
  by (auto intro!: tally_intros books_of_Router_Admit books_of_execute_admitted assms split: prod.splits)
    (simp_all add: settled_def executed_books_def zero_ExecutionResult_def)

section \<open>The endpoints\<close>

text \<open>What a response says about the books.\<close>

definition operator_answer :: "Response \<Rightarrow> bool" where
  "operator_answer r = (case rp_Body r of BOperator _ _ \<Rightarrow> True | _ \<Rightarrow> False)"

definition executed_answer :: "Response \<Rightarrow> bool" where
  "executed_answer r = (case rp_Body r of BWorkflow _ _ ex _ _ \<Rightarrow> er_Hash ex \<noteq> [] | _ \<Rightarrow> False)"

definition documented_status :: "nat \<Rightarrow> bool" where
  "documented_status n \<longleftrightarrow>
     n \<in> {StatusOK, StatusMovedPermanently, StatusBadRequest, StatusUnauthorized, StatusForbidden, StatusNotFound,
           StatusMethodNotAllowed, StatusConflict, StatusInternalServerError}"

definition request_bound :: nat where
  "request_bound = 110"

definition answer_books :: "Response \<Rightarrow> books \<Rightarrow> bool" where
  "answer_books r v \<longleftrightarrow>
     amount v Writes = (if operator_answer r then 1 else 0)
     \<and> (\<forall>x. amount v (Verdicts x) = (if operator_answer r \<and> x = Deny then 1 else 0))
     \<and> amount v Executions = 0 \<and> amount v Executed = (if executed_answer r then 1 else 0)"

definition answer :: "Response \<Rightarrow> books \<Rightarrow> bool" where
  "answer r v \<longleftrightarrow> (documented_status (rp_Status r) \<and> answer_books r v) \<and> amount v Steps \<le> int request_bound"

lemma books_of_respond [tally_intros]: "Q \<lparr>rp_Status = st, rp_Body = b\<rparr> v \<Longrightarrow> books_of Q (respond st b) v"
  by (simp add: respond_def)

lemma books_of_Workflow_Run:
  assumes "\<And>out ex err v'. executed_books v 110 ex v' \<Longrightarrow> Q (out, ex, err) v'"
  shows "books_of Q (Workflow_Run (NewWorkflowService (make_Router ts lat)) wid req) v"
  unfolding Workflow_Run_def
  by (auto simp: NewWorkflowService_def executed_books_def zero_ExecutionResult_def
      intro!: books_of_GovernAndExecute assms split: option.splits)

lemma books_of_operator_call:
  "books_of answer (seqP (override f) (seqP (exec_Forcibly i s) (seqP (operatorLedger ir reason Lambda6)
    (respond StatusOK (BOperator t i))))) 0"
  unfolding operatorLedger_def
  by (auto intro!: tally_intros books_of_WriteDecision
      simp: answer_def answer_books_def operator_answer_def executed_answer_def documented_status_def request_bound_def)

lemma books_of_operator_frame:
  assumes "\<And>ir. books_of answer (act ir) 0"
  shows "books_of answer (operator_frame s r filled missing act) 0"
  using operator_frame_cases [of s r filled missing act] assms
  by (auto intro!: tally_intros
      simp: answer_def answer_books_def operator_answer_def executed_answer_def documented_status_def)

lemma books_of_muxRouter: "books_of answer (muxRouter (make_Server ts lat token) c) 0"
proof (cases c)
  case (Route r)
  then show ?thesis
    by (auto simp: RouteHandler_def make_Server_def WithAuth_def NewServer_def route_status_def documented_status_def
        answer_def answer_books_def operator_answer_def executed_answer_def settled_def request_bound_def
        intro!: tally_intros books_of_Router_Admit split: body.splits)
next
  case (WorkflowCall r)
  then show ?thesis
    by (auto simp: workflowHandler_def make_Server_def WithAuth_def NewServer_def workflow_status_def documented_status_def
        answer_def answer_books_def operator_answer_def executed_answer_def executed_books_def request_bound_def
        intro!: tally_intros books_of_Workflow_Run split: body.splits)
qed (auto simp: VerifyHandler_def LedgerHandler_def plain_handlers InterruptHandler_def CorrectHandler_def TerminateHandler_def
    answer_def answer_books_def operator_answer_def executed_answer_def documented_status_def request_bound_def
    intro!: tally_intros books_of_operator_frame books_of_operator_call split: sum.splits)

interpretation service_books: pool_accounts "endpoints ts lat token" orderly audit book_step answer for ts lat token
  using books_of_muxRouter by unfold_locales (auto simp: endpoints_def bill_def [abs_def])

section \<open>Sums\<close>

definition counted :: "Metric \<Rightarrow> string list \<Rightarrow> world \<Rightarrow> nat" where
  "counted m ls w = count_list (w_metrics w) (MInc m ls)"

definition decisions :: "AdmitResult \<Rightarrow> world \<Rightarrow> nat" where
  "decisions r w = length (filter (\<lambda>e. le_ExecutionHash e = [] \<and> le_Result e = r) (lg_entries (w_ledger w)))"

definition executions :: "world \<Rightarrow> nat" where
  "executions w = length (filter (\<lambda>e. le_ExecutionHash e \<noteq> []) (lg_entries (w_ledger w)))"

lemma amount_entries:
  "amount (\<Sum>e\<leftarrow>es. book_entry e) Writes = int (length es)"
  "amount (\<Sum>e\<leftarrow>es. book_entry e) (Verdicts r) = int (length (filter (\<lambda>e. le_ExecutionHash e = [] \<and> le_Result e = r) es))"
  "amount (\<Sum>e\<leftarrow>es. book_entry e) Executions = int (length (filter (\<lambda>e. le_ExecutionHash e \<noteq> []) es))"
  "amount (\<Sum>e\<leftarrow>es. book_entry e) Executed = int (length (filter (\<lambda>e. le_ExecutionHash e \<noteq> []) es))"
  by (induction es) simp_all

lemma amount_metrics:
  "amount (\<Sum>c\<leftarrow>cs. book_metric c) Writes = - int (count_list cs (MInc MetricLedgerWrites []))"
  "amount (\<Sum>c\<leftarrow>cs. book_metric c) (Verdicts r) = - int (count_list cs (MInc MetricAdmissions [r]))"
  "amount (\<Sum>c\<leftarrow>cs. book_metric c) Executions = - int (count_list cs (MInc MetricExecutions []))"
  "amount (\<Sum>c\<leftarrow>cs. book_metric c) Executed = 0"
  by (induction cs) simp_all

lemma audit_amounts:
  "amount (audit w) Writes = int (Count (w_ledger w)) - int (counted MetricLedgerWrites [] w)"
  "amount (audit w) (Verdicts r) = int (decisions r w) - int (counted MetricAdmissions [r] w)"
  "amount (audit w) Executions = int (executions w) - int (counted MetricExecutions [] w)"
  "amount (audit w) Executed = int (executions w)"
  by (simp_all add: audit_def amount_entries amount_metrics Count_def counted_def decisions_def executions_def)

lemma sum_answers:
  assumes "list_all2 answer rs spent"
  shows "amount (sum_list spent) Writes = int (length (filter operator_answer rs))"
    "amount (sum_list spent) (Verdicts r) = (if r = Deny then int (length (filter operator_answer rs)) else 0)"
    "amount (sum_list spent) Executions = 0"
    "amount (sum_list spent) Executed = int (length (filter executed_answer rs))"
  using assms by (induction rule: list_all2_induct) (auto simp: answer_def answer_books_def)

lemma amount_units: "a \<noteq> Steps \<Longrightarrow> amount (service_books.units n) a = 0"
  by (induction n) simp_all

text \<open>The books of a pool in which every request has been answered.\<close>

lemma settled_accounts:
  assumes "pool_run (endpoints ts lat token) (w, []) (w', map Ret rs)" and "audit w = 0"
  shows "Count (w_ledger w') = counted MetricLedgerWrites [] w' + length (filter operator_answer rs)"
    "decisions r w' = counted MetricAdmissions [r] w' + (if r = Deny then length (filter operator_answer rs) else 0)"
    "executions w' = counted MetricExecutions [] w'" "executions w' = length (filter executed_answer rs)"
proof -
  from service_books.all_returned [OF assms(1)] obtain n spent where
    each: "list_all2 answer rs spent" and total: "sum_list spent = audit w' - audit w + service_books.units n" by blast
  have sums: "amount (sum_list spent) a = amount (audit w') a" if "a \<noteq> Steps" for a
    using that by (simp add: total assms(2) amount_units)
  note facts = sums [of Writes] sums [of "Verdicts r"] sums [of Executions] sums [of Executed]
    sum_answers [OF each] audit_amounts [of w']
  show "Count (w_ledger w') = counted MetricLedgerWrites [] w' + length (filter operator_answer rs)" using facts by simp
  show "decisions r w' = counted MetricAdmissions [r] w' + (if r = Deny then length (filter operator_answer rs) else 0)"
    using facts by (simp split: if_splits)
  show "executions w' = counted MetricExecutions [] w'" "executions w' = length (filter executed_answer rs)"
    using facts by simp_all
qed

lemma fresh_books: "w_ledger w = NewLedger \<Longrightarrow> w_metrics w = [] \<Longrightarrow> audit w = 0"
  by (simp add: audit_def NewLedger_def)

text \<open>Typed entries, and the number of moves a request needs.\<close>

lemma keeps_typed:
  "keeps (\<lambda>w. list_all typed_entry (Export (w_ledger w))) (muxRouter (make_Server ts lat token) c)"
  "keeps (\<lambda>w. list_all call_fits (w_metrics w)) (muxRouter (make_Server ts lat token) c)"
  by (rule tally_keeps [OF books_of_muxRouter]; auto simp: orderly_def Export_def)+

interpretation typed_inv: pool_invariant "endpoints ts lat token" "\<lambda>w. list_all typed_entry (Export (w_ledger w))" for ts lat token
  by unfold_locales (auto simp: endpoints_def keeps_typed)

interpretation fits_inv: pool_invariant "endpoints ts lat token" "\<lambda>w. list_all call_fits (w_metrics w)" for ts lat token
  by unfold_locales (auto simp: endpoints_def keeps_typed)

lemma muxRouter_finishes:
  "finishes (\<lambda>r. documented_status (rp_Status r)) (muxRouter (make_Server ts lat token) c) request_bound"
proof -
  have "books_of (\<lambda>r v. documented_status (rp_Status r) \<and> amount v Steps \<le> int request_bound) (muxRouter (make_Server ts lat token) c) 0"
    by (rule tally_weaken [OF books_of_muxRouter]) (simp add: answer_def)
  moreover have "amount (v + bill w w') Steps = amount v Steps + 1" for v w w'
  proof -
    have "amount (\<Sum>e\<leftarrow>es. book_entry e) Steps = 0" "amount (\<Sum>c\<leftarrow>cs. book_metric c) Steps = 0" for es cs
      by (induction es; simp) (induction cs; simp)
    then show ?thesis by (simp add: bill_def audit_def)
  qed
  ultimately show ?thesis using tally_finishes [of "\<lambda>v. amount v Steps" bill orderly "\<lambda>r. documented_status (rp_Status r)"] by fastforce
qed

end
