(* ===== verification/GoStream.thy ===== *)
theory GoStream
  imports GoAssign
begin

text \<open>
  \<open>json.NewDecoder(r).Decode\<close>: the first JSON value of a stream.  \<open>next_token\<close> cuts one token off the
  text, \<open>stream\<close> runs the scanner of \<open>GoJson\<close> until its value is complete and returns what is left of the
  text unread; \<open>object_members\<close> gives the members of an object with the text of each value, which is what
  a \<open>json.RawMessage\<close> holds.

  A number at the top level ends in Go where no longer number could follow; here the whole run of number
  characters has to be a number.  The program decodes into structures only, where both refuse.

  The facts relate the stream to \<open>json_parse\<close>: they agree on a text that holds one value, and the stream
  does not look at what comes after a complete value.
\<close>

section \<open>Definitions\<close>

definition next_token :: "string \<Rightarrow> (tok \<times> string) option" where
  "next_token s =
     (case dropWhile is_space s of
        [] \<Rightarrow> None
      | c # cs \<Rightarrow>
          if c = CHR 0x22 then map_option (apfst TStr) (scan_string cs)
          else if c = CHR ''-'' \<or> is_digit c then
            (let n = takeWhile is_numchar (c # cs) in
             if valid_number n then Some (TNum n, dropWhile is_numchar (c # cs)) else None)
          else first_prefix fixed_tokens (c # cs))"

lemma next_token_shorter: "next_token s = Some (t, r) \<Longrightarrow> length r < length s"
proof -
  assume a: "next_token s = Some (t, r)"
  obtain c cs where c: "dropWhile is_space s = c # cs" using a by (cases "dropWhile is_space s") (auto simp: next_token_def)
  have len: "length (c # cs) \<le> length s" unfolding c [symmetric] by (rule length_dropWhile_le)
  have "length r < length (c # cs)"
    using a c scan_string_shorter [of cs] first_prefix_shorter [of fixed_tokens "c # cs" t r]
      length_dropWhile_le [of is_numchar cs]
    by (fastforce simp: next_token_def fixed_tokens_def is_numchar_def Let_def split: if_splits option.splits)
  with len show ?thesis by simp
qed

function stream :: "scanner \<Rightarrow> string \<Rightarrow> (jdata \<times> string) option" where
  "stream sc s =
     (case next_token s of
        None \<Rightarrow> None
      | Some (t, r) \<Rightarrow>
          (case parse_step sc t of
             None \<Rightarrow> None
           | Some sc' \<Rightarrow> (case parsed_value sc' of Some v \<Rightarrow> Some (v, r) | None \<Rightarrow> stream sc' r)))"
  by pat_completeness auto
termination
  by (relation "measure (length \<circ> snd)") (auto dest: next_token_shorter)

declare stream.simps [simp del]

definition Decode_value :: "string \<Rightarrow> (jdata \<times> string) option" where
  "Decode_value s = stream (BeginValue, []) s"

text \<open>The text of the first value, without the space before it.\<close>

definition value_text :: "string \<Rightarrow> (string \<times> string) option" where
  "value_text s =
     map_option (\<lambda>(v, r). let t = dropWhile is_space s in (take (length t - length r) t, r)) (Decode_value s)"

lemma stream_shorter: "stream sc s = Some (v, r) \<Longrightarrow> length r < length s"
proof (induction sc s rule: stream.induct)
  case (1 sc s)
  obtain t r1 where t: "next_token s = Some (t, r1)"
    using "1.prems" by (subst (asm) stream.simps) (auto split: option.splits prod.splits)
  obtain sc' where sc': "parse_step sc t = Some sc'"
    using "1.prems" t by (subst (asm) stream.simps) (auto split: option.splits)
  show ?case
  proof (cases "parsed_value sc'")
    case None
    then have "stream sc' r1 = Some (v, r)" using "1.prems" t sc' by (subst (asm) stream.simps) simp
    from "1.IH" [OF t refl sc' None this] next_token_shorter [OF t] show ?thesis by simp
  next
    case (Some v')
    then show ?thesis using "1.prems" t sc' next_token_shorter [OF t] by (subst (asm) stream.simps) simp
  qed
qed

function raw_members :: "string \<Rightarrow> (string \<times> string) list" where
  "raw_members s =
     (case next_token s of
        Some (TStr k, r1) \<Rightarrow>
          (case next_token r1 of
             Some (TColon, r2) \<Rightarrow>
               (case value_text r2 of
                  Some (raw, r3) \<Rightarrow>
                    (k, raw) # (case next_token r3 of Some (TComma, r4) \<Rightarrow> raw_members r4 | _ \<Rightarrow> [])
                | None \<Rightarrow> [])
           | _ \<Rightarrow> [])
      | _ \<Rightarrow> [])"
  by pat_completeness auto
termination
proof (relation "measure length", goal_cases)
  case (2 s p1 t1 r1 k p2 t2 r2 p3 raw r3 p4 t4 r4)
  have "length r1 < length s" "length r2 < length r1" "length r4 < length r3" using 2 by (auto dest: next_token_shorter)
  moreover have "length r3 < length r2"
    using 2 stream_shorter by (fastforce simp: value_text_def Decode_value_def Let_def)
  ultimately show ?case by simp
qed simp

declare raw_members.simps [simp del]

text \<open>The members of an object: raw key and text of the value, in order.\<close>

definition object_members :: "string \<Rightarrow> (string \<times> string) list" where
  "object_members s = (case next_token s of Some (TLBrace, r) \<Rightarrow> raw_members r | _ \<Rightarrow> [])"

section \<open>Tokens one by one\<close>

inductive tokens :: "string \<Rightarrow> tok list \<Rightarrow> string \<Rightarrow> bool" where
  t_none: "tokens s [] s"
| t_one: "next_token s = Some (t, s') \<Longrightarrow> tokens s' ts r \<Longrightarrow> tokens s (t # ts) r"

inductive_simps tokens_simps [simp]: "tokens s [] r" "tokens s (t # ts) r"

lemma next_token_Nil [simp]: "next_token [] = None"
  by (simp add: next_token_def)

lemma next_token_spaces: "next_token (dropWhile is_space s) = next_token s"
  by (simp add: next_token_def)

lemma next_token_space: "is_space c \<Longrightarrow> next_token (c # s) = next_token s"
  by (simp add: next_token_def)

lemma lex_spaces: "lex (dropWhile is_space s) = lex s"
  by (induction s) (simp_all add: lex.simps(2))

lemma lex_all_space: "list_all is_space s \<Longrightarrow> lex s = Some []"
  by (induction s) (simp_all add: lex.simps(2))

text \<open>The lexer takes tokens off one by one.\<close>

lemma lex_next:
  "lex s = (if list_all is_space s then Some []
            else case next_token s of None \<Rightarrow> None | Some (t, r) \<Rightarrow> consT t (lex r))"
proof (cases "dropWhile is_space s")
  case Nil
  then have "list_all is_space s" by (simp add: list_all_iff dropWhile_eq_Nil_conv)
  then show ?thesis by (simp add: lex_all_space)
next
  case (Cons c cs)
  then have c: "\<not> is_space c" using hd_dropWhile [of is_space s] by simp
  have "\<not> list_all is_space s" using Cons by (metis Ball_set dropWhile_eq_Nil_conv list.discI)
  moreover have "lex (c # cs) = (case next_token s of None \<Rightarrow> None | Some (t, r) \<Rightarrow> consT t (lex r))"
    using c by (subst lex.simps) (auto simp: next_token_def Cons Let_def is_numchar_def split: option.splits)
  ultimately show ?thesis using lex_spaces [of s] Cons by simp
qed

lemma lex_tokens: "lex s = Some ts \<longleftrightarrow> (\<exists>r. tokens s ts r \<and> list_all is_space r)"
proof (induction ts arbitrary: s)
  case Nil
  show ?case by (subst lex_next) (auto simp: consT_def split: option.splits)
next
  case (Cons t ts)
  have no: "next_token s = None" if "list_all is_space s"
  proof -
    have "dropWhile is_space s = []" using that by (simp add: list_all_iff dropWhile_eq_Nil_conv)
    then show ?thesis by (simp only: next_token_def list.case)
  qed
  show ?case
    by (subst lex_next) (auto simp: consT_def Cons.IH no split: option.splits)
qed

subsection \<open>What follows a token does not matter\<close>

lemma scan_string_split: "scan_string s = Some (raw, r) \<Longrightarrow> s = raw @ CHR 0x22 # r \<and> scannable raw"
proof (induction s arbitrary: raw r rule: scan_string.induct)
  case (2 c cs)
  have some: "\<exists>q. scan_string y = Some (q, r) \<and> raw = p @ q" if "prepend p (scan_string y) = Some (raw, r)" for p y
    using that by (auto simp: prepend_def)
  consider (quote) "c = CHR 0x22" | (escape) e cs' where "c = CHR 0x5C" "cs = e # cs'" "is_escape e"
    | (unicode) h1 h2 h3 h4 cs' where "c = CHR 0x5C" "cs = CHR ''u'' # h1 # h2 # h3 # h4 # cs'" "\<not> is_escape CHR ''u''"
        "is_hex h1 \<and> is_hex h2 \<and> is_hex h3 \<and> is_hex h4"
    | (plain) "c \<noteq> CHR 0x22" "c \<noteq> CHR 0x5C" "\<not> (of_char c :: nat) < 32"
    using "2.prems" by (auto split: if_splits list.splits)
  then show ?case
  proof cases
    case quote
    with "2.prems" show ?thesis by (simp add: scannable_def)
  next
    case escape
    with "2.prems" obtain q where q: "scan_string cs' = Some (q, r)" "raw = [c, e] @ q" using some by fastforce
    with escape "2.IH"(1) [OF _ _ escape(2,3) q(1)] show ?thesis by (simp add: scannable_def)
  next
    case unicode
    with "2.prems" obtain q where q: "scan_string cs' = Some (q, r)" "raw = [c, CHR ''u'', h1, h2, h3, h4] @ q"
      using some by fastforce
    with unicode "2.IH"(2) [OF _ _ unicode(2,3) refl refl refl refl refl unicode(4) q(1)] show ?thesis by (simp add: scannable_def)
  next
    case plain
    with "2.prems" obtain q where q: "scan_string cs = Some (q, r)" "raw = [c] @ q" using some by fastforce
    with plain "2.IH"(3) [OF plain q(1)] show ?thesis by (simp add: scannable_def)
  qed
qed simp

lemma scan_string_append: "scan_string s = Some (raw, r) \<Longrightarrow> scan_string (s @ x) = Some (raw, r @ x)"
  using scan_string_split [of s raw r] by (simp add: scannable_def)

lemma first_prefix_sound: "first_prefix ps s = Some (a, r) \<Longrightarrow> \<exists>p. (p, a) \<in> set ps \<and> s = p @ r"
  by (induction ps s rule: first_prefix.induct) (auto split: if_splits, metis append_take_drop_id)

lemma first_prefix_complete:
  assumes "distinct (map (\<lambda>p. hd (fst p)) ps)" and "\<forall>p\<in>set ps. fst p \<noteq> []"
  shows "(p, a) \<in> set ps \<Longrightarrow> first_prefix ps (p @ r) = Some (a, r)"
  using assms
proof (induction ps)
  case (Cons q ps)
  obtain q' b where q: "q = (q', b)" by (cases q)
  show ?case
  proof (cases "(p, a) = q")
    case False
    then have mem: "(p, a) \<in> set ps" using Cons.prems(1) by auto
    then have "hd p \<noteq> hd q'" using Cons.prems(2) q by force
    moreover have "p \<noteq> []" "q' \<noteq> []" using mem Cons.prems(3) q by force+
    ultimately have "take (length q') (p @ r) \<noteq> q'" by (cases p; cases q') auto
    then show ?thesis using Cons mem q by auto
  qed (simp add: q)
qed simp

lemma fixed_tokens_distinct: "distinct (map (\<lambda>p. hd (fst p)) fixed_tokens)" "\<forall>p\<in>set fixed_tokens. fst p \<noteq> []"
  by (simp_all add: fixed_tokens_def)

lemma first_prefix_append: "first_prefix fixed_tokens s = Some (t, r) \<Longrightarrow> first_prefix fixed_tokens (s @ x) = Some (t, r @ x)"
  using first_prefix_sound [of fixed_tokens s t r] first_prefix_complete [OF fixed_tokens_distinct, of _ t "r @ x"] by auto

fun number_token :: "tok \<Rightarrow> bool" where
  "number_token (TNum n) = True"
| "number_token _ = False"

lemma next_token_append:
  assumes "next_token s = Some (t, r)" and "number_token t \<Longrightarrow> r \<noteq> [] \<or> delimits x"
  shows "next_token (s @ x) = Some (t, r @ x)"
proof -
  obtain c cs where c: "dropWhile is_space s = c # cs" using assms(1) by (cases "dropWhile is_space s") (auto simp: next_token_def)
  then have drop: "dropWhile is_space (s @ x) = (c # cs) @ x" by (metis dropWhile_append dropWhile_eq_Nil_conv list.distinct(1))
  show ?thesis
  proof (cases "c = CHR 0x22")
    case True
    then show ?thesis using assms(1) c drop scan_string_append by (fastforce simp: next_token_def)
  next
    case quote: False
    show ?thesis
    proof (cases "c = CHR ''-'' \<or> is_digit c")
      case True
      let ?n = "takeWhile is_numchar (c # cs)"
      have t: "t = TNum ?n" "r = dropWhile is_numchar (c # cs)" "valid_number ?n"
        using assms(1) c quote True by (auto simp: next_token_def Let_def split: if_splits)
      then have "r \<noteq> [] \<or> delimits x" using assms(2) by simp
      moreover have "delimits r" unfolding t(2) delimits_def using hd_dropWhile [of is_numchar "c # cs"] by blast
      ultimately have rx: "delimits (r @ x)" by (cases r) (auto simp: delimits_def)
      have n: "list_all is_numchar ?n" by (simp add: list_all_iff) (meson set_takeWhileD)
      have "(c # cs) @ x = ?n @ (r @ x)" unfolding t(2) append_assoc [symmetric] takeWhile_dropWhile_id ..
      then have run: "takeWhile is_numchar (c # cs @ x) = ?n" "dropWhile is_numchar (c # cs @ x) = r @ x"
        using takeWhile_delimits [OF n rx] by (simp_all only: append_Cons)
      have "next_token (s @ x) = (let n = takeWhile is_numchar (c # cs @ x) in
          if valid_number n then Some (TNum n, dropWhile is_numchar (c # cs @ x)) else None)"
        using quote True by (simp only: next_token_def drop append_Cons list.case if_False if_True)
      then show ?thesis unfolding run t(1) by (simp only: Let_def t(3) if_True)
    next
      case False
      then show ?thesis using assms(1) c drop quote first_prefix_append [of "c # cs" t r x] by (simp add: next_token_def)
    qed
  qed
qed

lemma tokens_append:
  "tokens s ts r \<Longrightarrow> r \<noteq> [] \<or> delimits x \<or> (ts \<noteq> [] \<and> \<not> number_token (last ts)) \<Longrightarrow> tokens (s @ x) ts (r @ x)"
proof (induction rule: tokens.induct)
  case (t_one s t s' ts r)
  have "s' \<noteq> []" if "ts \<noteq> []" using t_one.hyps(2) that by (cases ts) auto
  then have "next_token (s @ x) = Some (t, s' @ x)"
    using t_one.hyps t_one.prems by (intro next_token_append) (cases "ts = []"; auto)+
  moreover have "tokens (s' @ x) ts (r @ x)"
    using t_one by (cases "ts = []") auto
  ultimately show ?case by simp
qed simp

section \<open>The first value of a text\<close>

lemma stream_next:
  "next_token s = Some (t, r) \<Longrightarrow> stream sc s =
     Option.bind (parse_step sc t) (\<lambda>sc'. case parsed_value sc' of Some v \<Rightarrow> Some (v, r) | None \<Rightarrow> stream sc' r)"
  by (subst stream.simps) (auto split: option.splits)

lemma parsed_value_Some [simp]: "parsed_value sc = Some v \<longleftrightarrow> sc = (EndValue v, [])"
  by (auto simp: parsed_value_def split: prod.splits list.splits mode.splits)

lemma parsed_value_end [simp]: "parsed_value (EndValue v, []) = Some v"
  by (simp add: parsed_value_def)

lemma stream_tokens:
  "stream sc s = Some (v, r) \<longleftrightarrow> (\<exists>ts. ts \<noteq> [] \<and> tokens s ts r \<and> parse_run sc ts = Some (EndValue v, []))"
proof (induction sc s rule: stream.induct)
  case (1 sc s)
  show ?case
  proof (cases "next_token s")
    case None
    then have "stream sc s = None" by (subst stream.simps) simp
    moreover have "\<not> tokens s ts r" if "ts \<noteq> []" for ts using that None by (cases ts) auto
    ultimately show ?thesis by auto
  next
    case (Some tr)
    then obtain t r1 where t: "next_token s = Some (t, r1)" by (cases tr) auto
    have split: "(\<exists>ts. ts \<noteq> [] \<and> tokens s ts r \<and> P ts) \<longleftrightarrow> (\<exists>ts. tokens r1 ts r \<and> P (t # ts))" for P
      using t by (metis list.exhaust list.distinct(1) old.prod.inject option.inject tokens_simps(2))
    show ?thesis
    proof (cases "parse_step sc t")
      case None
      then show ?thesis using t split [of "\<lambda>ts. parse_run sc ts = Some (EndValue v, [])"] by (simp add: stream_next)
    next
      case sc': (Some sc')
      show ?thesis
      proof (cases "parsed_value sc'")
        case None
        then have "\<not> parse_run sc' [] = Some (EndValue v, [])" by (metis option.distinct(1) option.inject parse_run.simps(1) parsed_value_Some)
        then have "(\<exists>ts. tokens r1 ts r \<and> parse_run sc' ts = Some (EndValue v, [])) \<longleftrightarrow> stream sc' r1 = Some (v, r)"
          using "1.IH" [OF t refl sc' None] by metis
        then show ?thesis using None t sc' split [of "\<lambda>ts. parse_run sc ts = Some (EndValue v, [])"] by (simp add: stream_next)
      next
        case v': (Some v')
        then have fin: "sc' = (EndValue v', [])" by simp
        then have "parse_run sc' ts = Some (EndValue v, []) \<longleftrightarrow> ts = [] \<and> v = v'" for ts by (cases ts) auto
        then have "(\<exists>ts. tokens r1 ts r \<and> parse_run sc' ts = Some (EndValue v, [])) \<longleftrightarrow> r = r1 \<and> v = v'" by auto
        moreover have "parse_run sc (t # ts) = parse_run sc' ts" for ts by (simp add: sc')
        moreover have "stream sc s = Some (v', r1)" using t sc' v' by (simp add: stream_next)
        ultimately show ?thesis unfolding split by auto
      qed
    qed
  qed
qed

text \<open>On a text that holds one value, \<open>Decode\<close> and \<open>Unmarshal\<close> read the same.\<close>

theorem Decode_json_parse:
  "json_parse s = Some v \<longleftrightarrow> (\<exists>r. Decode_value s = Some (v, r) \<and> list_all is_space r)"
proof -
  have "parse_run (BeginValue, []) [] \<noteq> Some (EndValue v, [])" by simp
  then have "json_parse s = Some v \<longleftrightarrow> (\<exists>ts. ts \<noteq> [] \<and> lex s = Some ts \<and> parse_run (BeginValue, []) ts = Some (EndValue v, []))"
    unfolding json_parse_def by (auto simp: bind_eq_Some_conv)
  then show ?thesis unfolding Decode_value_def stream_tokens lex_tokens by blast
qed

text \<open>A complete array or object is read without looking at what follows.\<close>

lemma parse_run_last:
  "parse_run sc ts = Some (EndValue v, []) \<Longrightarrow> ts \<noteq> [] \<Longrightarrow> number_token (last ts) \<Longrightarrow> \<exists>n. v = DNum n"
proof (induction ts arbitrary: sc)
  case (Cons t ts)
  then obtain sc' where sc': "parse_step sc t = Some sc'" "parse_run sc' ts = Some (EndValue v, [])"
    by (auto split: option.splits)
  show ?case
  proof (cases "ts = []")
    case True
    with Cons.prems(3) obtain n where "t = TNum n" by (cases t) auto
    then show ?thesis using sc' True
      by (cases "(sc, t)" rule: parse_step.cases)
        (auto elim!: end_value.elims begin_string.elims split: if_splits)
  next
    case False
    with Cons.IH [OF sc'(2)] Cons.prems(3) show ?thesis by simp
  qed
qed simp

fun numeric :: "jdata \<Rightarrow> bool" where
  "numeric (DNum n) = True"
| "numeric _ = False"

theorem Decode_value_append:
  assumes "Decode_value s = Some (v, r)" and "\<not> numeric v \<or> r \<noteq> [] \<or> delimits x"
  shows "Decode_value (s @ x) = Some (v, r @ x)"
proof -
  obtain ts where ts: "ts \<noteq> []" "tokens s ts r" "parse_run (BeginValue, []) ts = Some (EndValue v, [])"
    using assms(1) by (auto simp: Decode_value_def stream_tokens)
  have "\<not> number_token (last ts)" if "\<not> numeric v" using parse_run_last [OF ts(3,1)] that by auto
  then have "tokens (s @ x) ts (r @ x)" using ts assms(2) by (intro tokens_append) auto
  with ts show ?thesis by (auto simp: Decode_value_def stream_tokens)
qed

section \<open>The text of a value\<close>

lemma next_token_split:
  assumes "next_token s = Some (t, r)"
  shows "\<exists>p. dropWhile is_space s = p @ r \<and> next_token p = Some (t, []) \<and> (number_token t \<longrightarrow> delimits r)"
proof -
  obtain c cs where c: "dropWhile is_space s = c # cs" using assms by (cases "dropWhile is_space s") (auto simp: next_token_def)
  then have ns: "\<not> is_space c" using hd_dropWhile [of is_space s] by simp
  show ?thesis
  proof (cases "c = CHR 0x22")
    case True
    then obtain raw where raw: "scan_string cs = Some (raw, r)" "t = TStr raw" using assms c by (auto simp: next_token_def)
    then show ?thesis using c ns True scan_string_split [OF raw(1)]
      by (intro exI [of _ "c # raw @ [CHR 0x22]"]) (simp add: next_token_def scannable_def)
  next
    case quote: False
    show ?thesis
    proof (cases "c = CHR ''-'' \<or> is_digit c")
      case True
      define n where "n = takeWhile is_numchar (c # cs)"
      have t: "t = TNum n" "r = dropWhile is_numchar (c # cs)" "valid_number n"
        using assms c quote True by (auto simp: next_token_def Let_def n_def split: if_splits)
      have n: "list_all is_numchar n" unfolding n_def by (simp add: list_all_iff) (meson set_takeWhileD)
      have "is_numchar c" using True by (auto simp: is_numchar_def)
      then obtain m where m: "n = c # m" by (simp add: n_def)
      have run: "takeWhile is_numchar n = n" "dropWhile is_numchar n = []"
        using takeWhile_delimits [OF n, of "[]"] by (simp_all add: delimits_def)
      have "dropWhile is_space n = n" using ns by (simp add: m)
      then have "next_token n = (let k = takeWhile is_numchar n in if valid_number k then Some (TNum k, dropWhile is_numchar n) else None)"
        using quote True by (simp only: next_token_def m list.case if_False if_True)
      then have "next_token n = Some (t, [])" by (simp only: run Let_def t(1,3) if_True)
      moreover have "dropWhile is_space s = n @ r" unfolding c n_def t(2) takeWhile_dropWhile_id ..
      moreover have "delimits r" unfolding t(2) delimits_def using hd_dropWhile [of is_numchar "c # cs"] by blast
      ultimately show ?thesis by blast
    next
      case False
      then have "first_prefix fixed_tokens (c # cs) = Some (t, r)" using assms c quote by (simp add: next_token_def)
      then obtain p where p: "(p, t) \<in> set fixed_tokens" "c # cs = p @ r"
        using first_prefix_sound [of fixed_tokens "c # cs" t r] by metis
      from p(1) have "p \<noteq> []" "\<not> number_token t" by (auto simp: fixed_tokens_def)
      then obtain p' where p': "p = c # p'" using p(2) by (cases p) auto
      have "first_prefix fixed_tokens p = Some (t, [])" using first_prefix_complete [OF fixed_tokens_distinct p(1), of "[]"] by simp
      then have "next_token p = Some (t, [])" using quote False ns by (simp add: next_token_def p')
      with p(2) c \<open>\<not> number_token t\<close> show ?thesis by auto
    qed
  qed
qed

lemma tokens_split: "tokens s ts r \<Longrightarrow> ts \<noteq> [] \<Longrightarrow> \<exists>p. dropWhile is_space s = p @ r \<and> tokens p ts [] \<and> (number_token (last ts) \<longrightarrow> delimits r)"
proof (induction rule: tokens.induct)
  case (t_one s t s' ts r)
  from next_token_split [OF t_one.hyps(1)] obtain p where
    p: "dropWhile is_space s = p @ s'" "next_token p = Some (t, [])" "number_token t \<longrightarrow> delimits s'" by blast
  show ?case
  proof (cases "ts = []")
    case True
    with t_one.hyps(2) p show ?thesis by auto
  next
    case False
    then obtain q where q: "dropWhile is_space s' = q @ r" "tokens q ts []" "number_token (last ts) \<longrightarrow> delimits r"
      using t_one.IH by blast
    define ws where "ws = takeWhile is_space s'"
    have s': "s' = (ws @ q) @ r" using takeWhile_dropWhile_id [of is_space s'] q(1) by (simp add: ws_def)
    have "q \<noteq> []" using q(2) False by (cases ts) auto
    then have "number_token t \<Longrightarrow> delimits (ws @ q)" using p(3) unfolding s' by (auto simp: delimits_def hd_append split: if_splits)
    then have "next_token (p @ (ws @ q)) = Some (t, [] @ (ws @ q))" by (intro next_token_append [OF p(2)]) simp
    moreover have "tokens (ws @ q) ts []"
    proof -
      have "list_all is_space ws" unfolding ws_def by (simp add: list_all_iff) (meson set_takeWhileD)
      then have "next_token (ws @ q) = next_token q" by (induction ws) (simp_all add: next_token_space)
      with q(2) False show ?thesis by (cases ts) auto
    qed
    ultimately have "tokens (p @ ws @ q) (t # ts) []" by auto
    moreover have "dropWhile is_space s = (p @ ws @ q) @ r" using p(1) s' by simp
    ultimately show ?thesis using q(3) False by auto
  qed
qed simp

text \<open>The text of a value parses to the value.\<close>

lemma value_text_parse:
  assumes "Decode_value s = Some (v, r)"
  shows "\<exists>raw. value_text s = Some (raw, r) \<and> json_parse raw = Some v \<and> dropWhile is_space s = raw @ r"
proof -
  obtain ts where ts: "ts \<noteq> []" "tokens s ts r" "parse_run (BeginValue, []) ts = Some (EndValue v, [])"
    using assms by (auto simp: Decode_value_def stream_tokens)
  from tokens_split [OF ts(2,1)] obtain p where p: "dropWhile is_space s = p @ r" "tokens p ts []" by blast
  have "Decode_value p = Some (v, [])" using ts p(2) by (auto simp: Decode_value_def stream_tokens)
  then have "json_parse p = Some v" by (auto simp: Decode_json_parse)
  moreover have "value_text s = Some (p, r)" using assms p(1) by (simp add: value_text_def)
  ultimately show ?thesis using p(1) by blast
qed

section \<open>The members of an object\<close>

text \<open>The scanner reads a value inside open arrays and objects as it reads it alone.\<close>

fun inside :: "scanner \<Rightarrow> bool" where
  "inside (BeginValue, st) = True"
| "inside (EndValue v, st) = (st \<noteq> [])"
| "inside (m, st) = (st \<noteq> [])"

lemma parse_step_framed:
  assumes "parse_step (m, st @ base) t = Some (m', st')" and "inside (m, st)"
  shows "\<exists>st1. st' = st1 @ base \<and> parse_step (m, st) t = Some (m', st1) \<and> (inside (m', st1) \<or> (\<exists>v. (m', st1) = (EndValue v, [])))"
proof (cases m)
  case BeginValue
  then show ?thesis using assms by (cases t) (auto simp: push_frame_def split: if_splits)
next
  case BeginValueOrEmpty
  then show ?thesis using assms by (cases st; cases t) (auto simp: push_frame_def split: if_splits)
next
  case BeginString
  then obtain f st2 where st: "st = f # st2" using assms(2) by (cases st) auto
  then show ?thesis using assms BeginString by (cases f; cases t) auto
next
  case BeginStringOrEmpty
  then obtain f st2 where st: "st = f # st2" using assms(2) by (cases st) auto
  then show ?thesis using assms BeginStringOrEmpty by (cases f; cases t) (auto split: if_splits)
next
  case WantColon
  then show ?thesis using assms by (auto split: if_splits)
next
  case (EndValue v)
  then obtain f st2 where st: "st = f # st2" using assms(2) by (cases st) auto
  then show ?thesis using assms EndValue by (cases f) (auto split: if_splits)
qed

lemma parse_run_framed:
  assumes "parse_run (m, st @ base) ts = Some (EndValue w, [])" and "inside (m, st)" and "base \<noteq> []"
  shows "\<exists>ts1 ts2 v. ts = ts1 @ ts2 \<and> ts1 \<noteq> [] \<and> parse_run (m, st) ts1 = Some (EndValue v, [])
    \<and> parse_run (EndValue v, base) ts2 = Some (EndValue w, [])"
  using assms
proof (induction ts arbitrary: m st)
  case (Cons t ts)
  then obtain m' st' where step: "parse_step (m, st @ base) t = Some (m', st')" "parse_run (m', st') ts = Some (EndValue w, [])"
    by (auto split: option.splits)
  obtain st1 where st1: "st' = st1 @ base" "parse_step (m, st) t = Some (m', st1)" "inside (m', st1) \<or> (\<exists>v. (m', st1) = (EndValue v, []))"
    using parse_step_framed [OF step(1) Cons.prems(2)] by blast
  show ?case
  proof (cases "inside (m', st1)")
    case True
    from Cons.IH [OF step(2) [unfolded st1(1)] True Cons.prems(3)]
    obtain ts1 ts2 v where ih: "ts = ts1 @ ts2" "parse_run (m', st1) ts1 = Some (EndValue v, [])"
      "parse_run (EndValue v, base) ts2 = Some (EndValue w, [])" by blast
    then show ?thesis using st1(2) by (intro exI [of _ "t # ts1"] exI [of _ ts2] exI [of _ v]) simp
  next
    case False
    then obtain v where v: "m' = EndValue v" "st1 = []" using st1(3) by auto
    then show ?thesis using step(2) st1 by (intro exI [of _ "[t]"] exI [of _ ts] exI [of _ v]) simp
  qed
qed simp

lemma tokens_append_iff: "tokens s (ts1 @ ts2) r \<longleftrightarrow> (\<exists>m. tokens s ts1 m \<and> tokens m ts2 r)"
  by (induction ts1 arbitrary: s) auto

definition member_parses :: "string \<times> string \<Rightarrow> string \<times> jdata \<Rightarrow> bool" where
  "member_parses m kv \<longleftrightarrow> fst m = fst kv \<and> json_parse (snd m) = Some (snd kv)"

lemma raw_members_parse:
  assumes "tokens s ts r" and "parse_run (m, [FObj acc k0]) ts = Some (EndValue w, [])"
    and "m = BeginString \<or> m = BeginStringOrEmpty \<and> acc = []"
  shows "\<exists>kvs. w = DObj (rev acc @ kvs) \<and> list_all2 member_parses (raw_members s) kvs"
  using assms
proof (induction s arbitrary: ts m acc k0 rule: raw_members.induct)
  case (1 s)
  obtain t ts' where ts: "ts = t # ts'" using "1.prems"(2,3) by (cases ts) auto
  then obtain r1 where t: "next_token s = Some (t, r1)" "tokens r1 ts' r" using "1.prems"(1) by auto
  consider (empty) "t = TRBrace" "m = BeginStringOrEmpty" | (key) k where "t = TStr k"
    using "1.prems"(2,3) by (cases t) (auto simp: ts)
  then show ?case
  proof cases
    case empty
    then have "ts' = []" "w = DObj []" using "1.prems"(2) by (cases ts'; auto simp: ts)+
    moreover have "acc = []" using "1.prems"(3) empty(2) by simp
    ultimately show ?thesis using t(1) empty by (subst raw_members.simps) simp
  next
    case key
    then have "parse_run (WantColon, [FObj acc k]) ts' = Some (EndValue w, [])" using "1.prems"(2,3) by (auto simp: ts)
    then obtain ts2 where ts2: "ts' = TColon # ts2" "parse_run (BeginValue, [] @ [FObj acc k]) ts2 = Some (EndValue w, [])"
      by (cases ts') (auto split: if_splits)
    then obtain r2 where r2: "next_token r1 = Some (TColon, r2)" "tokens r2 ts2 r" using t(2) by auto
    obtain us vs v where uv: "ts2 = us @ vs" "us \<noteq> []" "parse_run (BeginValue, []) us = Some (EndValue v, [])"
        "parse_run (EndValue v, [FObj acc k]) vs = Some (EndValue w, [])"
      using parse_run_framed [OF ts2(2)] by auto
    obtain r3 where r3: "tokens r2 us r3" "tokens r3 vs r" using r2(2) uv(1) by (auto simp: tokens_append_iff)
    have "Decode_value r2 = Some (v, r3)" using r3(1) uv(2,3) by (auto simp: Decode_value_def stream_tokens)
    from value_text_parse [OF this] obtain raw where raw: "value_text r2 = Some (raw, r3)" "json_parse raw = Some v" by blast
    obtain u vs' where vs: "vs = u # vs'" using uv(4) by (cases vs) auto
    then obtain r4 where r4: "next_token r3 = Some (u, r4)" "tokens r4 vs' r" using r3(2) by auto
    consider (last) "u = TRBrace" | (more) "u = TComma" using uv(4) vs by (auto split: if_splits)
    then show ?thesis
    proof cases
      case last
      then have "w = DObj (rev ((k, v) # acc))" using uv(4) vs by (cases vs') auto
      moreover have "raw_members s = [(k, raw)]" using t(1) key r2(1) raw(1) r4(1) last by (subst raw_members.simps) simp
      ultimately show ?thesis using raw(2) by (simp add: member_parses_def)
    next
      case more
      then have "parse_run (BeginString, [FObj ((k, v) # acc) []]) vs' = Some (EndValue w, [])" using uv(4) vs by simp
      from "1.IH" [OF t(1) refl key r2(1) refl refl raw(1) refl r4(1) refl more r4(2) this]
      obtain kvs where "w = DObj (rev ((k, v) # acc) @ kvs)" "list_all2 member_parses (raw_members r4) kvs"
        by blast
      moreover have "raw_members s = (k, raw) # raw_members r4" using t(1) key r2(1) raw(1) r4(1) more by (subst raw_members.simps) simp
      ultimately show ?thesis using raw(2)
        by (intro exI [of _ "(k, v) # kvs"]) (simp add: member_parses_def [of "(k, raw)"])
    qed
  qed
qed

lemma array_of_array:
  "parse_run (m, [FArr acc]) ts = Some (EndValue w, []) \<Longrightarrow> m = BeginValue \<or> m = BeginValueOrEmpty \<Longrightarrow> \<exists>vs. w = DArr vs"
proof (induction ts arbitrary: m acc rule: length_induct)
  case (1 ts)
  show ?case
  proof (cases "m = BeginValueOrEmpty \<and> ts \<noteq> [] \<and> hd ts = TRBrack")
    case True
    then obtain ts' where "ts = TRBrack # ts'" by (cases ts) auto
    with "1.prems"(1) True show ?thesis by (cases ts') auto
  next
    case False
    then have "parse_run (BeginValue, [] @ [FArr acc]) ts = Some (EndValue w, [])"
      using "1.prems" by (cases ts) auto
    from parse_run_framed [OF this] obtain us vs v where uv: "ts = us @ vs" "us \<noteq> []"
        "parse_run (EndValue v, [FArr acc]) vs = Some (EndValue w, [])" by auto
    obtain u vs' where vs: "vs = u # vs'" using uv(3) by (cases vs) auto
    consider (last) "u = TRBrack" | (more) "u = TComma" using uv(3) vs by (auto split: if_splits)
    then show ?thesis
    proof cases
      case last
      then show ?thesis using uv(3) vs by (cases vs') auto
    next
      case more
      then have "parse_run (BeginValue, [FArr (v # acc)]) vs' = Some (EndValue w, [])" using uv(3) vs by simp
      moreover have "length vs' < length ts" using uv(1) vs by simp
      ultimately show ?thesis using "1.IH" by blast
    qed
  qed
qed

text \<open>Key by key, the texts of the members parse to the values of the object.\<close>

theorem object_members_parse:
  assumes "Decode_value s = Some (DObj kvs, r)"
  shows "list_all2 member_parses (object_members s) kvs"
proof -
  obtain ts where ts: "ts \<noteq> []" "tokens s ts r" "parse_run (BeginValue, []) ts = Some (EndValue (DObj kvs), [])"
    using assms by (auto simp: Decode_value_def stream_tokens)
  obtain t ts' where t: "ts = t # ts'" using ts(1) by (cases ts) auto
  have brace: "t = TLBrace"
  proof (cases "t = TLBrack")
    case True
    then have "parse_run (BeginValueOrEmpty, [FArr []]) ts' = Some (EndValue (DObj kvs), [])"
      using ts(3) t by (simp add: push_frame_def maxNestingDepth_def)
    then show ?thesis using array_of_array by blast
  next
    case False
    then show ?thesis using ts(3) t by (cases t; cases ts') auto
  qed
  then obtain s' where s': "next_token s = Some (TLBrace, s')" "tokens s' ts' r" using ts(2) t by auto
  have "parse_run (BeginStringOrEmpty, [FObj [] []]) ts' = Some (EndValue (DObj kvs), [])"
    using ts(3) t brace by (simp add: push_frame_def maxNestingDepth_def)
  from raw_members_parse [OF s'(2) this] show ?thesis by (simp add: object_members_def s'(1))
qed

section \<open>The members of a rendered object\<close>

lemma json_text_ends: "json_numbers v \<Longrightarrow> json_text v \<noteq> [] \<and> \<not> is_space (hd (json_text v)) \<and> \<not> is_space (last (json_text v))"
proof (cases v)
  case (JNum n)
  have num: "\<not> is_space c" if "is_numchar c" for c
    using that by (auto simp: is_numchar_def is_space_def is_digit_def)
  assume "json_numbers v"
  with JNum have n: "n \<noteq> []" "list_all is_numchar n" by auto
  then have "is_numchar (hd n)" "is_numchar (last n)" by (auto simp: list_all_iff)
  with n(1) JNum num show ?thesis by simp
qed (auto simp: is_space_def json_quote_def json_fields_def)

lemma Decode_text:
  assumes "json_numbers v" and "nests maxNestingDepth v"
  shows "Decode_value (json_text v) = Some (raw_tree v, [])"
proof -
  obtain r where r: "Decode_value (json_text v) = Some (raw_tree v, r)" "list_all is_space r"
    using parse_text [OF assms] by (auto simp: Decode_json_parse)
  obtain raw where raw: "dropWhile is_space (json_text v) = raw @ r"
    using value_text_parse [OF r(1)] by blast
  have "dropWhile is_space (json_text v) = json_text v"
    using json_text_ends [OF assms(1)] by (cases "json_text v") auto
  with raw have t: "json_text v = raw @ r" by simp
  have "r = []"
  proof (rule ccontr)
    assume "r \<noteq> []"
    then have "last (json_text v) = last r" "last r \<in> set r" unfolding t by simp_all
    then show False using json_text_ends [OF assms(1)] r(2) by (auto simp: list_all_iff)
  qed
  with r(1) show ?thesis by simp
qed

lemma value_text_rendered:
  assumes "json_numbers v" and "nests maxNestingDepth v" and "\<not> numeric (raw_tree v) \<or> delimits x"
  shows "value_text (json_text v @ x) = Some (json_text v, x)"
proof -
  have dec: "Decode_value (json_text v @ x) = Some (raw_tree v, x)"
    using Decode_value_append [OF Decode_text [OF assms(1,2)], of x] assms(3) by auto
  have "dropWhile is_space (json_text v @ x) = json_text v @ x"
    using json_text_ends [OF assms(1)] by (cases "json_text v") auto
  then show ?thesis using dec by (simp add: value_text_def)
qed

lemma next_token_quote: "next_token (json_quote k @ r) = Some (TStr (json_chars k), r)"
  using scannable_json_chars [of k] by (simp add: next_token_def json_quote_def is_space_def scannable_def)

lemma next_token_punctuation:
  "next_token (CHR '','' # r) = Some (TComma, r)" "next_token (CHR '':'' # r) = Some (TColon, r)"
  "next_token (CHR 0x7D # r) = Some (TRBrace, r)" "next_token (CHR 0x7B # r) = Some (TLBrace, r)"
  by (simp_all add: next_token_def is_space_def is_digit_def fixed_tokens_def)

definition member_text :: "string \<times> json \<Rightarrow> string" where
  "member_text kv = json_quote (fst kv) @ CHR '':'' # json_text (snd kv)"

lemma raw_members_rendered:
  assumes "kvs \<noteq> []" and "\<forall>kv\<in>set kvs. json_numbers (snd kv) \<and> nests maxNestingDepth (snd kv)"
  shows "raw_members (json_commas (map member_text kvs) @ CHR 0x7D # x) = map (\<lambda>kv. (json_chars (fst kv), json_text (snd kv))) kvs"
  using assms
proof (induction kvs)
  case (Cons kv kvs)
  define y where "y = (if kvs = [] then CHR 0x7D # x else CHR '','' # json_commas (map member_text kvs) @ CHR 0x7D # x)"
  have split: "json_commas (map member_text (kv # kvs)) @ CHR 0x7D # x = json_quote (fst kv) @ CHR '':'' # json_text (snd kv) @ y"
    by (cases kvs) (simp_all add: y_def member_text_def)
  have "delimits y" by (simp add: y_def)
  then have vt: "value_text (json_text (snd kv) @ y) = Some (json_text (snd kv), y)"
    using value_text_rendered [of "snd kv" y] Cons.prems(2) by simp
  show ?case
  proof (cases "kvs = []")
    case True
    then have "y = CHR 0x7D # x" by (simp add: y_def)
    with vt True show ?thesis
      unfolding split by (subst raw_members.simps) (simp add: next_token_quote next_token_punctuation)
  next
    case False
    have y: "y = CHR '','' # json_commas (map member_text kvs) @ CHR 0x7D # x" using False by (simp add: y_def)
    have "raw_members (json_quote (fst kv) @ CHR '':'' # json_text (snd kv) @ y) =
        (json_chars (fst kv), json_text (snd kv)) # raw_members (json_commas (map member_text kvs) @ CHR 0x7D # x)"
      by (subst raw_members.simps) (simp add: next_token_quote next_token_punctuation vt, simp add: y next_token_punctuation)
    with Cons.IH False Cons.prems(2) show ?thesis unfolding split by simp
  qed
qed simp

lemma object_text: "json_text (JObj kvs) = CHR 0x7B # json_commas (map member_text kvs) @ [CHR 0x7D]"
  by (simp add: json_fields_def member_text_def [abs_def] case_prod_beta comp_def)

theorem object_members_rendered:
  assumes "\<forall>kv\<in>set kvs. json_numbers (snd kv) \<and> nests maxNestingDepth (snd kv)"
  shows "object_members (json_text (JObj kvs)) = map (\<lambda>kv. (json_chars (fst kv), json_text (snd kv))) kvs"
proof (cases "kvs = []")
  case True
  have "raw_members [CHR 0x7D] = []" by (subst raw_members.simps) (simp add: next_token_punctuation)
  with True show ?thesis unfolding object_text by (simp add: object_members_def next_token_punctuation)
next
  case False
  have "next_token (CHR 0x7B # r) = Some (TLBrace, r)" for r by (rule next_token_punctuation)
  with False raw_members_rendered [OF False assms, of "[]"] show ?thesis unfolding object_text by (simp add: object_members_def)
qed

end
