(* ===== verification/RequestCodec.thy ===== *)
theory RequestCodec
  imports GoStream LedgerCodec Server
begin

text \<open>
  The JSON bodies of the service: the request of \<open>/route\<close>, \<open>/workflow\<close>, \<open>/check\<close> and \<open>/run\<close>, the operator
  request, the ledger entry of \<open>/append\<close>.  A field is set from the text of its value, because the payload
  of a request, a \<open>json.RawMessage\<close>, keeps that text as it is.

  The facts show that what \<open>json.Marshal\<close> writes for a request is decoded to that request, whatever comes
  after it, and that a member that is no field of the structure is refused.
\<close>

section \<open>Decoding from text\<close>

definition on_value :: "(jdata \<Rightarrow> 'a \<Rightarrow> 'a option) \<Rightarrow> string \<Rightarrow> 'a \<Rightarrow> 'a option" where
  "on_value dec raw x = Option.bind (json_parse raw) (\<lambda>v. dec v x)"

definition dec_text_struct :: "bool \<Rightarrow> (string \<times> (string \<Rightarrow> 'r \<Rightarrow> 'r option)) list \<Rightarrow> string \<Rightarrow> 'r \<Rightarrow> 'r option" where
  "dec_text_struct strict fs raw r =
     (case json_parse raw of
        Some DNull \<Rightarrow> Some r
      | Some (DObj _) \<Rightarrow> dec_members strict fs (object_members raw) r
      | _ \<Rightarrow> None)"

text \<open>\<open>RawMessage.UnmarshalJSON\<close>: the text of the value, \<open>null\<close> included.\<close>

definition raw_message :: "string \<Rightarrow> string \<Rightarrow> string option" where
  "raw_message raw old = Some raw"

text \<open>An \<open>int\<close>: \<open>strconv.ParseInt\<close> in 64 bits.\<close>

definition parse_int :: "string \<Rightarrow> int option" where
  "parse_int s =
     (let neg = (s \<noteq> [] \<and> hd s = CHR ''-''); ds = (if neg then tl s else s); n = int (atoi ds) in
      if list_all is_digit ds \<and> n < 2 ^ 63 + (if neg then 1 else 0) then Some (if neg then - n else n) else None)"

fun dec_int :: "jdata \<Rightarrow> int \<Rightarrow> int option" where
  "dec_int DNull old = Some old"
| "dec_int (DNum s) old = parse_int s"
| "dec_int _ old = None"

text \<open>A map: the elements start from zero, a key that comes again overwrites.\<close>

fun dec_entries :: "(jdata \<Rightarrow> 'a \<Rightarrow> 'a option) \<Rightarrow> 'a \<Rightarrow> (string \<times> jdata) list \<Rightarrow> (string \<rightharpoonup> 'a) \<Rightarrow> (string \<rightharpoonup> 'a) option" where
  "dec_entries dec zero [] m = Some m"
| "dec_entries dec zero ((raw, v) # kvs) m =
     Option.bind (dec v zero) (\<lambda>x. dec_entries dec zero kvs (m(unquote raw \<mapsto> x)))"

fun dec_map :: "(jdata \<Rightarrow> 'a \<Rightarrow> 'a option) \<Rightarrow> 'a \<Rightarrow> jdata \<Rightarrow> (string \<rightharpoonup> 'a) \<Rightarrow> (string \<rightharpoonup> 'a) option" where
  "dec_map dec zero DNull m = Some Map.empty"
| "dec_map dec zero (DObj kvs) m = dec_entries dec zero kvs m"
| "dec_map dec zero _ m = None"

text \<open>A pointer: \<open>null\<close> clears it, a value is decoded on top of what it points to.\<close>

definition dec_pointer :: "(jdata \<Rightarrow> 'a \<Rightarrow> 'a option) \<Rightarrow> 'a \<Rightarrow> jdata \<Rightarrow> 'a option \<Rightarrow> 'a option option" where
  "dec_pointer dec zero v old =
     (if v = DNull then Some None
      else map_option Some (dec v (case old of None \<Rightarrow> zero | Some x \<Rightarrow> x)))"

section \<open>The types of the bodies\<close>

definition zero_ProjectionEntry :: ProjectionEntry where
  "zero_ProjectionEntry = \<lparr>pe_Key = [], pe_Source = [], pe_Classification = [], pe_Value = []\<rparr>"

definition projection_entry_fields :: "(string \<times> ProjectionEntry setter) list" where
  "projection_entry_fields =
     [(''key'', field dec_string pe_Key (\<lambda>x r. r\<lparr>pe_Key := x\<rparr>)),
      (''source'', field dec_string pe_Source (\<lambda>x r. r\<lparr>pe_Source := x\<rparr>)),
      (''classification'', field dec_string pe_Classification (\<lambda>x r. r\<lparr>pe_Classification := x\<rparr>)),
      (''value'', field dec_string pe_Value (\<lambda>x r. r\<lparr>pe_Value := x\<rparr>))]"

definition zero_CoherenceProjection :: CoherenceProjection where
  "zero_CoherenceProjection = \<lparr>cp_MaxEntries = 0, cp_Entries = None\<rparr>"

text \<open>The fields of the projection carry no tags, so they go by their Go names.\<close>

definition coherence_fields :: "(string \<times> CoherenceProjection setter) list" where
  "coherence_fields =
     [(''MaxEntries'', field dec_int cp_MaxEntries (\<lambda>x r. r\<lparr>cp_MaxEntries := x\<rparr>)),
      (''Entries'', field (dec_slice (dec_struct True projection_entry_fields) zero_ProjectionEntry) cp_Entries
                      (\<lambda>x r. r\<lparr>cp_Entries := x\<rparr>))]"

definition model_fields :: "(string \<times> ModelRef setter) list" where
  "model_fields =
     [(''provider_id'', field dec_string mr_ProviderID (\<lambda>x r. r\<lparr>mr_ProviderID := x\<rparr>)),
      (''model_id'', field dec_string mr_ModelID (\<lambda>x r. r\<lparr>mr_ModelID := x\<rparr>)),
      (''key_ref'', field dec_string mr_KeyRef (\<lambda>x r. r\<lparr>mr_KeyRef := x\<rparr>))]"

definition request_fields :: "(string \<times> (string \<Rightarrow> CapabilityRequest \<Rightarrow> CapabilityRequest option)) list" where
  "request_fields =
     [(''request_id'', field (on_value dec_string) rq_RequestID (\<lambda>x r. r\<lparr>rq_RequestID := x\<rparr>)),
      (''tenant_id'', field (on_value dec_string) rq_TenantID (\<lambda>x r. r\<lparr>rq_TenantID := x\<rparr>)),
      (''mlca_lane'', field (on_value dec_string) rq_MLCALane (\<lambda>x r. r\<lparr>rq_MLCALane := x\<rparr>)),
      (''capability_class'', field (on_value (dec_struct True capability_fields)) rq_CapabilityClass
                               (\<lambda>x r. r\<lparr>rq_CapabilityClass := x\<rparr>)),
      (''intent_id'', field (on_value dec_string) rq_IntentID (\<lambda>x r. r\<lparr>rq_IntentID := x\<rparr>)),
      (''operator_id'', field (on_value dec_string) rq_OperatorID (\<lambda>x r. r\<lparr>rq_OperatorID := x\<rparr>)),
      (''model_ref'', field (on_value (dec_struct True model_fields)) rq_ModelRef (\<lambda>x r. r\<lparr>rq_ModelRef := x\<rparr>)),
      (''payload'', field raw_message rq_Payload (\<lambda>x r. r\<lparr>rq_Payload := x\<rparr>)),
      (''metadata'', field (on_value (dec_map dec_string [])) rq_Metadata (\<lambda>x r. r\<lparr>rq_Metadata := x\<rparr>)),
      (''coherence'', field (on_value (dec_pointer (dec_struct True coherence_fields) zero_CoherenceProjection)) rq_Coherence
                        (\<lambda>x r. r\<lparr>rq_Coherence := x\<rparr>))]"

definition dec_request :: "string \<Rightarrow> CapabilityRequest \<Rightarrow> CapabilityRequest option" where
  "dec_request = dec_text_struct True request_fields"

text \<open>The anonymous structure of the workflow handler.\<close>

definition workflow_fields ::
  "(string \<times> (string \<Rightarrow> string \<times> CapabilityRequest \<Rightarrow> (string \<times> CapabilityRequest) option)) list" where
  "workflow_fields =
     [(''workflow'', field (on_value dec_string) fst (\<lambda>x (_, q). (x, q))),
      (''request'', field dec_request snd (\<lambda>x (w, _). (w, x)))]"

definition zero_operatorRequest :: operatorRequest where
  "zero_operatorRequest = \<lparr>or_IntentID = [], or_OperatorID = [], or_Directive = []\<rparr>"

definition operator_fields :: "(string \<times> operatorRequest setter) list" where
  "operator_fields =
     [(''intent_id'', field dec_string or_IntentID (\<lambda>x r. r\<lparr>or_IntentID := x\<rparr>)),
      (''operator_id'', field dec_string or_OperatorID (\<lambda>x r. r\<lparr>or_OperatorID := x\<rparr>)),
      (''directive'', field dec_string or_Directive (\<lambda>x r. r\<lparr>or_Directive := x\<rparr>))]"

section \<open>The first value of a body\<close>

text \<open>
  \<open>dec.Decode(&v)\<close> on a new variable: \<open>None\<close> is any error; what the error leaves in the variable is not
  looked at.
\<close>

definition Decode_into :: "(string \<Rightarrow> 'r \<Rightarrow> 'r option) \<Rightarrow> 'r \<Rightarrow> string \<Rightarrow> 'r option" where
  "Decode_into dec zero s = Option.bind (value_text s) (\<lambda>(raw, _). dec raw zero)"

definition Decode_request :: "string \<Rightarrow> CapabilityRequest option" where
  "Decode_request = Decode_into dec_request zero_CapabilityRequest"

definition Decode_workflow :: "string \<Rightarrow> (string \<times> CapabilityRequest) option" where
  "Decode_workflow = Decode_into (dec_text_struct True workflow_fields) ([], zero_CapabilityRequest)"

definition Decode_operator :: "string \<Rightarrow> operatorRequest option" where
  "Decode_operator = Decode_into (on_value (dec_struct False operator_fields)) zero_operatorRequest"

definition Decode_entry :: "string \<Rightarrow> LedgerEntry option" where
  "Decode_entry = Decode_into (on_value (dec_entry True)) zero_LedgerEntry"

section \<open>What a client writes\<close>

definition unless_empty :: "bool \<Rightarrow> 'a \<Rightarrow> 'a list" where
  "unless_empty e x = (if e then [] else [x])"

definition projection_entry_json :: "ProjectionEntry \<Rightarrow> json" where
  "projection_entry_json e =
     JObj ([(''key'', JStr (pe_Key e)), (''source'', JStr (pe_Source e)), (''classification'', JStr (pe_Classification e))]
       @ unless_empty (pe_Value e = []) (''value'', JStr (pe_Value e)))"

definition coherence_json :: "CoherenceProjection \<Rightarrow> json" where
  "coherence_json c =
     JObj [(''MaxEntries'', JNum (int_dec (cp_MaxEntries c))),
           (''Entries'', (case cp_Entries c of None \<Rightarrow> JNull | Some es \<Rightarrow> JArr (map projection_entry_json es)))]"

definition model_json :: "ModelRef \<Rightarrow> json" where
  "model_json m =
     JObj ([(''provider_id'', JStr (mr_ProviderID m)), (''model_id'', JStr (mr_ModelID m))]
       @ unless_empty (mr_KeyRef m = []) (''key_ref'', JStr (mr_KeyRef m)))"

definition metadata_json :: "(string \<times> string) list \<Rightarrow> json" where
  "metadata_json ms = JMap (map (\<lambda>(k, v). (k, JStr v)) ms)"

definition basic_members :: "CapabilityRequest \<Rightarrow> (string \<times> json) list" where
  "basic_members q =
     [(''request_id'', JStr (rq_RequestID q)), (''tenant_id'', JStr (rq_TenantID q)), (''mlca_lane'', JStr (rq_MLCALane q)),
      (''capability_class'', capability_json (rq_CapabilityClass q)), (''intent_id'', JStr (rq_IntentID q)),
      (''operator_id'', JStr (rq_OperatorID q)), (''model_ref'', model_json (rq_ModelRef q))]"

text \<open>
  \<open>json.Marshal\<close> of a request whose payload is the value \<open>p\<close> (absent if empty) and whose metadata are the
  bindings \<open>ms\<close>.
\<close>

definition request_members :: "json option \<Rightarrow> (string \<times> string) list \<Rightarrow> CapabilityRequest \<Rightarrow> (string \<times> json) list" where
  "request_members p ms q =
     basic_members q
     @ (case p of None \<Rightarrow> [] | Some v \<Rightarrow> [(''payload'', v)])
     @ unless_empty (ms = []) (''metadata'', metadata_json ms)
     @ (case rq_Coherence q of None \<Rightarrow> [] | Some c \<Rightarrow> [(''coherence'', coherence_json c)])"

definition request_text :: "json option \<Rightarrow> (string \<times> string) list \<Rightarrow> CapabilityRequest \<Rightarrow> string" where
  "request_text p ms q = json_text (JObj (request_members p ms q))"

section \<open>Facts\<close>

declare json_chars.simps(2) [simp del]

lemma dec_members_append:
  "dec_members strict fs (kvs @ kvs') r = Option.bind (dec_members strict fs kvs r) (dec_members strict fs kvs')"
  by (induction strict fs kvs r rule: dec_members.induct) (auto split: option.splits bind_splits)

lemma on_value_text:
  "json_numbers v \<Longrightarrow> nests maxNestingDepth v \<Longrightarrow> on_value dec (json_text v) x = dec (raw_tree v) x"
  by (simp add: on_value_def parse_text)

lemma on_value_string: "utf8_valid s \<Longrightarrow> on_value dec_string (json_quote s) x = Some s"
  using on_value_text [of "JStr s" dec_string x] by (simp add: unquote_json_chars)

subsection \<open>Integers\<close>

lemma parse_int_dec: "- (2 ^ 63) \<le> i \<Longrightarrow> i < 2 ^ 63 \<Longrightarrow> parse_int (int_dec i) = Some i"
proof -
  assume i: "- (2 ^ 63) \<le> i" "i < 2 ^ 63"
  obtain c s where cs: "nat_dec (nat i) = c # s" by (cases "nat_dec (nat i)") auto
  have "is_digit c" using digits_nat_dec [of "nat i"] by (simp add: cs)
  then have "c \<noteq> CHR ''-''" by (auto simp: is_digit_def)
  with i cs show ?thesis
    using digits_nat_dec [of "nat i"] digits_nat_dec [of "nat (- i)"] atoi_nat_dec [of "nat i"] atoi_nat_dec [of "nat (- i)"]
    by (auto simp: parse_int_def int_dec_def Let_def)
qed

lemma number_int_dec: "valid_number (int_dec i) \<and> list_all is_numchar (int_dec i)"
proof -
  have n: "valid_number (nat_dec n)" "list_all is_numchar (nat_dec n)" "list_all is_digit (nat_dec n)" for n
    using valid_number_nat_dec [of n] digits_nat_dec [of n] by simp_all
  have "valid_unsigned (nat_dec n)" for n
    using n(1,3) [of n] by (cases "nat_dec n") (auto simp: is_digit_def split: if_splits)
  then show ?thesis using n by (simp add: int_dec_def is_numchar_def)
qed

subsection \<open>The types inside a request\<close>

lemmas codec_simps = dec_members_Cons unquote_json_chars field_def

definition projection_entry_utf8 :: "ProjectionEntry \<Rightarrow> bool" where
  "projection_entry_utf8 e \<longleftrightarrow> list_all utf8_valid [pe_Key e, pe_Source e, pe_Classification e, pe_Value e]"

definition coherence_ok :: "CoherenceProjection \<Rightarrow> bool" where
  "coherence_ok c \<longleftrightarrow>
     - (2 ^ 63) \<le> cp_MaxEntries c \<and> cp_MaxEntries c < 2 ^ 63
     \<and> (case cp_Entries c of None \<Rightarrow> True | Some es \<Rightarrow> list_all projection_entry_utf8 es)"

definition model_utf8 :: "ModelRef \<Rightarrow> bool" where
  "model_utf8 m \<longleftrightarrow> list_all utf8_valid [mr_ProviderID m, mr_ModelID m, mr_KeyRef m]"

interpretation projection_entry_codec:
  codec projection_entry_json "dec_struct strict projection_entry_fields" zero_ProjectionEntry projection_entry_utf8 1 for strict
proof
  fix e
  assume "projection_entry_utf8 e"
  then show "dec_struct strict projection_entry_fields (raw_tree (projection_entry_json e)) zero_ProjectionEntry = Some e"
    by (cases e) (simp add: projection_entry_utf8_def projection_entry_json_def projection_entry_fields_def unless_empty_def
        zero_ProjectionEntry_def codec_simps del: dec_members.simps(2))
qed (simp_all add: projection_entry_json_def unless_empty_def)

interpretation model_codec: codec model_json "dec_struct strict model_fields" zero_ModelRef model_utf8 1 for strict
proof
  fix m
  assume "model_utf8 m"
  then show "dec_struct strict model_fields (raw_tree (model_json m)) zero_ModelRef = Some m"
    by (cases m) (simp add: model_utf8_def model_json_def model_fields_def unless_empty_def zero_ModelRef_def
        codec_simps del: dec_members.simps(2))
qed (simp_all add: model_json_def unless_empty_def)

lemma dec_projection_entries:
  "(case es0 of None \<Rightarrow> True | Some es \<Rightarrow> list_all projection_entry_utf8 es) \<Longrightarrow>
     dec_slice (dec_struct True projection_entry_fields) zero_ProjectionEntry
       (raw_tree (case es0 of None \<Rightarrow> JNull | Some es \<Rightarrow> JArr (map projection_entry_json es))) None = Some es0"
  using projection_entry_codec.dec_slice_enc [of "the es0" True] by (cases es0) (simp_all del: dec_slice.simps(2) raw_tree.simps(5))

interpretation coherence_codec:
  codec coherence_json "dec_struct True coherence_fields" zero_CoherenceProjection coherence_ok 3
proof
  fix c
  assume ok: "coherence_ok c"
  let ?entries = "case cp_Entries c of None \<Rightarrow> JNull | Some es \<Rightarrow> JArr (map projection_entry_json es)"
  have "dec_slice (dec_struct True projection_entry_fields) zero_ProjectionEntry (raw_tree ?entries) None = Some (cp_Entries c)"
    using ok by (intro dec_projection_entries) (simp add: coherence_ok_def)
  moreover have "parse_int (int_dec (cp_MaxEntries c)) = Some (cp_MaxEntries c)"
    using ok by (simp add: coherence_ok_def parse_int_dec)
  ultimately show "dec_struct True coherence_fields (raw_tree (coherence_json c)) zero_CoherenceProjection = Some c"
    by (cases c) (simp add: coherence_json_def coherence_fields_def zero_CoherenceProjection_def
        codec_simps del: dec_members.simps(2) dec_slice.simps)
  have "json_numbers ?entries \<and> nests 2 ?entries"
    using ok projection_entry_codec.array_numbers projection_entry_codec.array_nests
    by (auto simp: coherence_ok_def numeral_2_eq_2 split: option.splits)
  then show "json_numbers (coherence_json c)" and "nests 3 (coherence_json c)"
    using number_int_dec by (auto simp: coherence_json_def numeral_3_eq_3 numeral_2_eq_2)
qed

lemma dec_entries_strings:
  "\<forall>(k, v)\<in>set ms. utf8_valid k \<and> utf8_valid v \<Longrightarrow>
     dec_entries dec_string [] (map (\<lambda>(k, v). (json_chars k, DStr (json_chars v))) ms) m = Some (m ++ map_of (rev ms))"
proof (induction ms arbitrary: m)
  case (Cons kv ms)
  obtain k v where kv: "kv = (k, v)" by (cases kv)
  have "utf8_valid k" "utf8_valid v" using Cons.prems by (simp_all add: kv)
  then show ?case using Cons.IH [of "m(k \<mapsto> v)"] Cons.prems by (simp add: kv unquote_json_chars del: fun_upd_apply)
qed simp

lemma dec_metadata:
  assumes "distinct (map fst ms)" and "\<forall>(k, v)\<in>set ms. utf8_valid k \<and> utf8_valid v"
  shows "dec_map dec_string [] (raw_tree (metadata_json ms)) Map.empty = Some (map_of ms)"
proof -
  have "raw_tree (metadata_json ms) = DObj (map (\<lambda>(k, v). (json_chars k, DStr (json_chars v))) (sort_keys ms))"
  proof -
    have "map (\<lambda>(k, v). (k, raw_tree v)) (map (\<lambda>(k, v). (k, JStr v)) ms) = map (\<lambda>(k, v). (k, DStr (json_chars v))) ms"
      by (simp add: case_prod_beta')
    then show ?thesis
      unfolding metadata_json_def raw_tree.simps(7) by (simp only: sort_keys_map) (simp add: case_prod_beta')
  qed
  moreover have "map_of (rev (sort_keys ms)) = map_of ms"
    using assms(1) by (subst map_of_inject_set) (simp_all add: sort_keys_def distinct_map rev_map)
  ultimately show ?thesis using dec_entries_strings [of "sort_keys ms" Map.empty] assms(2) by simp
qed

subsection \<open>Requests\<close>

definition request_ok :: "json option \<Rightarrow> (string \<times> string) list \<Rightarrow> CapabilityRequest \<Rightarrow> bool" where
  "request_ok p ms q \<longleftrightarrow>
     list_all utf8_valid [rq_RequestID q, rq_TenantID q, rq_MLCALane q, rq_IntentID q, rq_OperatorID q]
     \<and> capability_utf8 (rq_CapabilityClass q) \<and> model_utf8 (rq_ModelRef q)
     \<and> (case p of None \<Rightarrow> rq_Payload q = []
         | Some v \<Rightarrow> rq_Payload q = json_text v \<and> json_numbers v \<and> nests 9999 v)
     \<and> rq_Metadata q = map_of ms \<and> distinct (map fst ms) \<and> (\<forall>(k, v)\<in>set ms. utf8_valid k \<and> utf8_valid v)
     \<and> (case rq_Coherence q of None \<Rightarrow> True | Some c \<Rightarrow> coherence_ok c)"

lemma deep: "3 \<le> (9999::nat)" "maxNestingDepth = Suc 9999"
  by (simp_all add: maxNestingDepth_def)

lemma nests_deep: "nests 3 v \<Longrightarrow> nests maxNestingDepth v" "nests 9999 v \<Longrightarrow> nests maxNestingDepth v"
  by (erule nests_mono, simp add: maxNestingDepth_def)+

lemma request_members_text:
  assumes "request_ok p ms q"
  shows "\<forall>kv\<in>set (request_members p ms q). json_numbers (snd kv) \<and> nests 9999 (snd kv)"
proof -
  note mono = nests_mono [OF _ deep(1)]
  have meta: "json_numbers (metadata_json ms)" "nests 3 (metadata_json ms)"
    by (auto simp: metadata_json_def numeral_3_eq_3)
  have cap: "json_numbers (capability_json c)" "nests 3 (capability_json c)" for c
    by (auto simp: capability_json_def numeral_3_eq_3)
  have mdl: "json_numbers (model_json m)" "nests 3 (model_json m)" for m
    by (auto simp: model_json_def unless_empty_def numeral_3_eq_3)
  have "nests 3 (coherence_json c)" "json_numbers (coherence_json c)" if "coherence_ok c" for c
    using that coherence_codec.enc_nests coherence_codec.enc_numbers by blast+
  then show ?thesis
    using assms by (auto simp: request_members_def basic_members_def request_ok_def unless_empty_def meta cap mdl intro: mono
        split: option.splits if_splits)
qed

abbreviation rendered :: "(string \<times> json) list \<Rightarrow> (string \<times> string) list" where
  "rendered kvs \<equiv> map (\<lambda>kv. (json_chars (fst kv), json_text (snd kv))) kvs"

lemma on_value_types:
  "capability_utf8 c \<Longrightarrow> on_value (dec_struct True capability_fields) (json_text (capability_json c)) zero_CapabilityClass = Some c"
  "model_utf8 m \<Longrightarrow> on_value (dec_struct True model_fields) (json_text (model_json m)) zero_ModelRef = Some m"
  by (simp_all add: on_value_text capability_codec.dec_enc model_codec.dec_enc
      capability_codec.enc_numbers capability_codec.enc_nests [THEN nests_mono]
      model_codec.enc_numbers model_codec.enc_nests [THEN nests_mono] maxNestingDepth_def)

lemma dec_basic_members:
  assumes "request_ok p ms q"
  shows "dec_members True request_fields (rendered (basic_members q)) zero_CapabilityRequest =
    Some (q\<lparr>rq_Payload := [], rq_Metadata := Map.empty, rq_Coherence := None\<rparr>)"
  using assms unfolding basic_members_def request_fields_def
  by (cases q) (simp add: request_ok_def zero_CapabilityRequest_def codec_simps on_value_string on_value_types
      del: dec_members.simps(2))

lemma dec_payload:
  "dec_members True request_fields (rendered [(''payload'', v)]) r = Some (r\<lparr>rq_Payload := json_text v\<rparr>)"
  by (simp add: request_fields_def codec_simps raw_message_def del: dec_members.simps(2))

lemma dec_metadata_member:
  assumes "distinct (map fst ms)" and "\<forall>(k, v)\<in>set ms. utf8_valid k \<and> utf8_valid v" and "rq_Metadata r = Map.empty"
  shows "dec_members True request_fields (rendered [(''metadata'', metadata_json ms)]) r = Some (r\<lparr>rq_Metadata := map_of ms\<rparr>)"
proof -
  have "json_numbers (metadata_json ms)" "nests 3 (metadata_json ms)"
    by (auto simp: metadata_json_def numeral_3_eq_3)
  then have "on_value (dec_map dec_string []) (json_text (metadata_json ms)) Map.empty = Some (map_of ms)"
    using dec_metadata [OF assms(1,2)] by (simp only: on_value_text nests_deep)
  then show ?thesis by (simp add: request_fields_def codec_simps assms(3) del: dec_members.simps(2))
qed

lemma raw_coherence: "raw_tree (coherence_json c) \<noteq> DNull"
  by (simp add: coherence_json_def)

lemma dec_coherence_member:
  assumes "coherence_ok c" and "rq_Coherence r = None"
  shows "dec_members True request_fields (rendered [(''coherence'', coherence_json c)]) r = Some (r\<lparr>rq_Coherence := Some c\<rparr>)"
proof -
  have "on_value (dec_pointer (dec_struct True coherence_fields) zero_CoherenceProjection) (json_text (coherence_json c)) None
      = Some (Some c)"
    using coherence_codec.dec_enc [OF assms(1)]
    by (simp add: on_value_text coherence_codec.enc_numbers [OF assms(1)] nests_deep(1) [OF coherence_codec.enc_nests [OF assms(1)]]
        dec_pointer_def raw_coherence del: dec_struct.simps)
  then show ?thesis by (simp add: request_fields_def codec_simps assms(2) del: dec_members.simps(2))
qed

lemma dec_request_text:
  assumes "request_ok p ms q"
  shows "dec_request (request_text p ms q) zero_CapabilityRequest = Some q"
proof -
  let ?kvs = "request_members p ms q"
  have whole: "json_numbers (JObj ?kvs)" "nests maxNestingDepth (JObj ?kvs)"
    using request_members_text [OF assms] by (simp_all add: deep(2))
  have members: "\<forall>kv\<in>set ?kvs. json_numbers (snd kv) \<and> nests maxNestingDepth (snd kv)"
    using request_members_text [OF assms] nests_deep(2) by auto
  have payload: "dec_members True request_fields (rendered (case p of None \<Rightarrow> [] | Some v \<Rightarrow> [(''payload'', v)])) r
      = Some (r\<lparr>rq_Payload := rq_Payload q\<rparr>)" if "rq_Payload r = []" for r
    using assms that dec_payload by (auto simp: request_ok_def split: option.splits simp del: list.map(2))
  have metadata: "dec_members True request_fields (rendered (unless_empty (ms = []) (''metadata'', metadata_json ms))) r
      = Some (r\<lparr>rq_Metadata := rq_Metadata q\<rparr>)" if "rq_Metadata r = Map.empty" for r
    using assms that dec_metadata_member [of ms r]
    by (cases "ms = []") (auto simp: request_ok_def unless_empty_def simp del: list.map(2))
  have coherence: "dec_members True request_fields (rendered (case rq_Coherence q of None \<Rightarrow> [] | Some c \<Rightarrow> [(''coherence'', coherence_json c)])) r
      = Some (r\<lparr>rq_Coherence := rq_Coherence q\<rparr>)" if "rq_Coherence r = None" for r
    using assms that dec_coherence_member by (auto simp: request_ok_def split: option.splits simp del: list.map(2))
  have "dec_members True request_fields (rendered ?kvs) zero_CapabilityRequest = Some q"
    unfolding request_members_def map_append dec_members_append dec_basic_members [OF assms]
    by (simp add: payload metadata coherence)
  then show ?thesis
    using parse_text [OF whole] object_members_rendered [OF members] by (simp add: dec_request_def dec_text_struct_def request_text_def)
qed

text \<open>What \<open>json.Marshal\<close> writes is read back, whatever follows it.\<close>

lemma Decode_request_text:
  assumes "request_ok p ms q"
  shows "Decode_request (request_text p ms q @ x) = Some q"
proof -
  have "json_numbers (JObj (request_members p ms q))" "nests maxNestingDepth (JObj (request_members p ms q))"
    using request_members_text [OF assms] by (simp_all add: deep(2))
  from value_text_rendered [OF this, of x] show ?thesis
    by (simp add: Decode_request_def Decode_into_def dec_request_text [OF assms] request_text_def [symmetric]
        del: json_text.simps(6))
qed

text \<open>A member that is no field of the structure is an error, at whatever place it stands.\<close>

lemma dec_members_unknown:
  "(k, v) \<in> set kvs \<Longrightarrow> find_field fs (unquote k) = None \<Longrightarrow> dec_members True fs kvs r = None"
  by (induction kvs arbitrary: r) (auto split: option.splits bind_splits)

lemma Decode_request_unknown:
  assumes "Decode_value s = Some (DObj kvs, x)" and "(k, v) \<in> set kvs" and "find_field request_fields (unquote k) = None"
  shows "Decode_request s = None"
proof -
  obtain raw where raw: "value_text s = Some (raw, x)" "json_parse raw = Some (DObj kvs)"
    using value_text_parse [OF assms(1)] by blast
  then obtain y where "Decode_value raw = Some (DObj kvs, y)" by (auto simp: Decode_json_parse)
  from object_members_parse [OF this] have all: "list_all2 member_parses (object_members raw) kvs" .
  obtain i where i: "i < length kvs" "kvs ! i = (k, v)" using assms(2) by (auto simp: in_set_conv_nth)
  have "fst (object_members raw ! i) = k" "i < length (object_members raw)"
    using list_all2_nthD2 [OF all i(1)] list_all2_lengthD [OF all] i by (auto simp: member_parses_def)
  then have "(k, snd (object_members raw ! i)) \<in> set (object_members raw)" by (metis nth_mem prod.collapse)
  from dec_members_unknown [OF this assms(3)] show ?thesis
    by (simp add: Decode_request_def Decode_into_def dec_request_def dec_text_struct_def raw)
qed

text \<open>A body that is \<open>null\<close> is decoded to the zero request.\<close>

lemma Decode_request_null: "json_parse s = Some DNull \<Longrightarrow> Decode_request s = Some zero_CapabilityRequest"
proof -
  assume "json_parse s = Some DNull"
  then obtain x where "Decode_value s = Some (DNull, x)" by (auto simp: Decode_json_parse)
  from value_text_parse [OF this] show ?thesis
    by (auto simp: Decode_request_def Decode_into_def dec_request_def dec_text_struct_def)
qed

subsection \<open>Operator requests\<close>

definition operator_json :: "operatorRequest \<Rightarrow> json" where
  "operator_json ir =
     JObj ([(''intent_id'', JStr (or_IntentID ir)), (''operator_id'', JStr (or_OperatorID ir))]
       @ unless_empty (or_Directive ir = []) (''directive'', JStr (or_Directive ir)))"

definition operator_utf8 :: "operatorRequest \<Rightarrow> bool" where
  "operator_utf8 ir \<longleftrightarrow> list_all utf8_valid [or_IntentID ir, or_OperatorID ir, or_Directive ir]"

interpretation operator_codec: codec operator_json "dec_struct strict operator_fields" zero_operatorRequest operator_utf8 1 for strict
proof
  fix ir
  assume "operator_utf8 ir"
  then show "dec_struct strict operator_fields (raw_tree (operator_json ir)) zero_operatorRequest = Some ir"
    by (cases ir) (simp add: operator_utf8_def operator_json_def operator_fields_def unless_empty_def
        zero_operatorRequest_def codec_simps del: dec_members.simps(2))
qed (simp_all add: operator_json_def unless_empty_def)

context codec
begin

lemma Decode_into_text:
  assumes "ok a" and "depth \<le> maxNestingDepth" and "\<not> numeric (raw_tree (enc a))"
  shows "Decode_into (on_value dec) zero (json_text (enc a) @ x) = Some a"
proof -
  note printed = enc_numbers [OF assms(1)] nests_mono [OF enc_nests [OF assms(1)] assms(2)]
  show ?thesis
    by (simp add: Decode_into_def value_text_rendered [OF printed] on_value_text [OF printed] assms(3) dec_enc [OF assms(1)])
qed

end

lemma Decode_operator_text: "operator_utf8 ir \<Longrightarrow> Decode_operator (json_text (operator_json ir) @ x) = Some ir"
  unfolding Decode_operator_def
  by (rule operator_codec.Decode_into_text) (simp_all add: maxNestingDepth_def operator_json_def)

text \<open>An entry in the form a ledger writes is accepted by \<open>/append\<close> as it is.\<close>

lemma Decode_entry_text: "entry_ok e \<Longrightarrow> Decode_entry (json_text (entry_enc e) @ x) = Some e"
  unfolding Decode_entry_def
  by (rule entry_codec.Decode_into_text) (simp_all add: maxNestingDepth_def entry_enc_def entry_json_def)

end
