(* ===== verification/Identifiers.thy ===== *)
theory Identifiers
  imports GovernedExecution Bookkeeping RequestCodec Samples
begin

text \<open>
  The decision identifiers.  Every decision takes its identifier from the clock: \<open>dec-\<close> or \<open>op-\<close> and the
  Unix time in nanoseconds; \<open>GenerateCER\<close> looks a decision up by it.

  The books of an identifier: a reading of the clock pays for the two identifiers made from it, a decision
  in the ledger costs the identifier it carries.  No handler spends more than it has paid, so in every
  interleaving the ledger has at most as many decisions under an identifier as there were readings that
  give it: one, as long as no two readings show the same nanosecond.
\<close>

section \<open>Definitions\<close>

definition is_decision :: "LedgerEntry \<Rightarrow> bool" where
  "is_decision e \<longleftrightarrow> le_ExecutionHash e = []"

definition issued_by :: "Time \<Rightarrow> string \<Rightarrow> bool" where
  "issued_by t s \<longleftrightarrow> s = ''dec-'' @ int_dec (UnixNano t) \<or> s = ''op-'' @ int_dec (UnixNano t)"

definition carries :: "string \<Rightarrow> LedgerEntry \<Rightarrow> int" where
  "carries s e = (if is_decision e \<and> le_DecisionID e = s then 1 else 0)"

definition pays :: "string \<Rightarrow> Time \<Rightarrow> int" where
  "pays s t = (if issued_by t s then 1 else 0)"

definition id_books :: "string \<Rightarrow> world \<Rightarrow> int" where
  "id_books s w = (\<Sum>e\<leftarrow>lg_entries (w_ledger w). carries s e) - (\<Sum>k<w_pos w. pays s (w_clock w k))"

definition clocked :: "world \<Rightarrow> world \<Rightarrow> bool" where
  "clocked w w' \<longleftrightarrow> w_clock w' = w_clock w \<and> w_pos w \<le> w_pos w'"

abbreviation id_cost :: "string \<Rightarrow> world \<Rightarrow> world \<Rightarrow> int" where
  "id_cost s w w' \<equiv> id_books s w' - id_books s w + 0"

text \<open>At most \<open>n\<close> more is spent on the identifier than is paid for it.\<close>

definition spends :: "string \<Rightarrow> int \<Rightarrow> 'a go \<Rightarrow> bool" where
  "spends s n p \<longleftrightarrow> (\<forall>v. tally clocked (id_cost s) (\<lambda>_ v'. v' \<le> v + n) p v)"

abbreviation owed :: "string \<Rightarrow> AdmissionDecision \<Rightarrow> int" where
  "owed s d \<equiv> (if ad_DecisionID d = s then 1 else 0)"

section \<open>Composition\<close>

named_theorems spends_intros \<open>programs that spend nothing on an identifier\<close>

lemma spendsI: "(\<And>v. tally clocked (id_cost s) (\<lambda>_ v'. v' \<le> v + n) p v) \<Longrightarrow> spends s n p"
  by (simp add: spends_def)

lemma spends_bindP:
  assumes "spends s n p" and "\<And>a. spends s m (k a)"
  shows "spends s (n + m) (bindP p k)"
proof (rule spendsI, rule tally_bindP)
  fix v
  have "tally clocked (id_cost s) (\<lambda>_ v'. v' \<le> v + n) p v" using assms(1) by (simp add: spends_def)
  then show "tally clocked (id_cost s) (\<lambda>a. tally clocked (id_cost s) (\<lambda>_ v'. v' \<le> v + (n + m)) (k a)) p v"
  proof (rule tally_weaken)
    fix a v1
    assume "v1 \<le> v + n"
    moreover have "tally clocked (id_cost s) (\<lambda>_ v'. v' \<le> v1 + m) (k a) v1" using assms(2) by (simp add: spends_def)
    ultimately show "tally clocked (id_cost s) (\<lambda>_ v'. v' \<le> v + (n + m)) (k a) v1" by (auto elim: tally_weaken)
  qed
qed

lemma spends_after: "spends s 0 p \<Longrightarrow> (\<And>a. spends s n (k a)) \<Longrightarrow> spends s n (bindP p k)"
  using spends_bindP [of s 0 p n k] by simp

lemma spends_before: "spends s n p \<Longrightarrow> (\<And>a. spends s 0 (k a)) \<Longrightarrow> spends s n (bindP p k)"
  using spends_bindP [of s n p 0 k] by simp

lemma spends_seqP: "spends s 0 p \<Longrightarrow> spends s n q \<Longrightarrow> spends s n (seqP p q)"
  unfolding seqP_def by (rule spends_after)

lemma spends_Ret: "0 \<le> n \<Longrightarrow> spends s n (Ret a)"
  by (simp add: spends_def)

text \<open>An action that moves the position at most forwards and leaves the ledger alone.\<close>

definition idle :: "(world \<Rightarrow> world) \<Rightarrow> bool" where
  "idle u \<longleftrightarrow> (\<forall>w. clocked w (u w) \<and> lg_entries (w_ledger (u w)) = lg_entries (w_ledger w))"

lemma pays_mono: "n \<le> m \<Longrightarrow> (\<Sum>k<(n::nat). pays s (c k)) \<le> (\<Sum>k<m. pays s (c k))"
  by (rule sum_mono2) (auto simp: pays_def)

lemma spends_idle: "acts idle p \<Longrightarrow> spends s 0 p"
proof (rule spendsI)
  fix v
  have "acts idle p \<Longrightarrow> v \<le> v0 \<Longrightarrow> tally clocked (id_cost s) (\<lambda>_ v'. v' \<le> v0 + 0) p v" for v0
  proof (induction p arbitrary: v)
    case (Act u k)
    have "clocked w (u w)" and "id_books s (u w) \<le> id_books s w" for w
      using Act.prems(1) pays_mono [of "w_pos w" "w_pos (u w)" s "w_clock w"]
      by (simp_all add: idle_def clocked_def id_books_def)
    note u = this
    have "tally clocked (id_cost s) (\<lambda>_ v'. v' \<le> v0 + 0) (k w) (v + id_cost s w (u w))" for w
      by (rule Act.IH) (use Act.prems u(2) [of w] in auto)
    then show ?case using u(1) by simp
  qed simp
  then show "acts idle p \<Longrightarrow> tally clocked (id_cost s) (\<lambda>_ v'. v' \<le> v + 0) p v" by simp
qed

section \<open>The actions\<close>

lemma idle_actions [simp]:
  "acts idle (gets f)" "acts idle time_Now" "acts idle (rand_Read n)" "acts idle (metric c)"
  "acts idle (inc m ls)" "acts idle (exec_Transition i c' x)" "acts idle (exec_Forcibly i x)"
  "acts idle (override g)" "acts idle (call_CapabilityRequest a req)" "acts idle (start_Generate a req)"
  "acts idle (atomic (\<lambda>w. (w_select w (w_pos w), tick w)))"
  by (auto simp: time_Now_def rand_Read_def metric_def inc_def exec_Transition_def exec_Forcibly_def override_def
      call_CapabilityRequest_def start_Generate_def gets_def modify_def atomic_def idle_def clocked_def tick_def Let_def
      case_prod_beta)

lemma idle_reads [simp]:
  "acts idle ledger_Verify" "acts idle ledger_Export" "acts idle (isTerminated i)" "acts idle (isInterrupted i)"
  "acts idle (getCorrection i)" "acts idle (exec_Current i)" "acts idle (provider_lookup q)" "acts idle (respond st b)"
  by (simp_all add: ledger_Verify_def ledger_Export_def isTerminated_def isInterrupted_def getCorrection_def
      exec_Current_def provider_lookup_def respond_def)

lemma idle_seqP: "acts idle p \<Longrightarrow> acts idle q \<Longrightarrow> acts idle (seqP p q)"
  by (simp add: seqP_def acts_bindP)

lemmas idle_intros = acts_bindP idle_seqP

lemma idle_observe_since [simp]: "acts idle (observe_since m ls t)"
  unfolding observe_since_def by (intro idle_intros) simp_all

lemma idle_inc_all [simp]: "acts idle (inc_all ms)"
  by (induction ms) (auto intro: idle_seqP)

lemma idle_USLGate_Check [simp]: "acts idle (USLGate_Check u req)"
  unfolding USLGate_Check_def decision_def decisionID_def
  by (cases "usl_verdict u req") (auto intro!: idle_intros)

lemma idle_check: "st \<in> set (gre_Stages (NewGRE1001 usl)) \<Longrightarrow> acts idle (ss_Check st si)"
  by (auto simp: NewGRE1001_def step_def stageIdentitySeparation_def stageUSLGate_def stageDriftCheck_def
      stageOperatorCorrigibility_def Let_def intro!: idle_intros)

lemma idle_GRE_Run [simp]: "acts idle (GRE_Run (NewGRE1001 usl) si)"
proof -
  have "\<forall>st\<in>set ss. acts idle (ss_Check st si) \<Longrightarrow> acts idle (run_stages ss si outs)" for ss outs
    by (induction ss arbitrary: outs) (auto intro!: idle_intros)
  then show ?thesis unfolding GRE_Run_def using idle_check by blast
qed

lemma idle_Immune_Classify [simp]: "acts idle (Immune_Classify req)"
  unfolding Immune_Classify_def Let_def by (intro idle_seqP) simp_all

text \<open>The reading of the clock that makes an identifier, and the append that uses it up.\<close>

lemma spends_identifier:
  assumes "\<And>t. spends s (pays s t) (k t)"
  shows "spends s 0 (bindP time_Now k)"
proof (rule spendsI, rule tally_bindP)
  fix v
  have pay: "id_books s (tick w) = id_books s w - pays s (w_clock w (w_pos w))" for w :: world by (simp add: id_books_def tick_def)
  have k: "tally clocked (id_cost s) (\<lambda>_ v'. v' \<le> v + 0) (k t) (v - pays s t)" for t
  proof -
    have "tally clocked (id_cost s) (\<lambda>_ v'. v' \<le> v - pays s t + pays s t) (k t) (v - pays s t)"
      using assms by (simp only: spends_def)
    then show ?thesis by simp
  qed
  show "tally clocked (id_cost s) (\<lambda>a. tally clocked (id_cost s) (\<lambda>_ v'. v' \<le> v + 0) (k a)) time_Now v"
    unfolding time_Now_def
    by (rule tally_atomic) (use k in \<open>simp add: pay\<close>, simp add: clocked_def tick_def)
qed

lemma spends_ledger_Append: "carries s e \<le> n \<Longrightarrow> spends s n (ledger_Append e)"
  unfolding ledger_Append_def
proof (rule spendsI, rule tally_atomic)
  fix v and w :: world
  assume n: "carries s e \<le> n"
  let ?l = "snd (Append (w_clock w (w_pos w)) e (w_ledger w))"
  have "carries s (fst (Append (w_clock w (w_pos w)) e (w_ledger w))) = carries s e" by (simp add: carries_def is_decision_def)
  then have "id_books s (tick w\<lparr>w_ledger := ?l\<rparr>) \<le> id_books s w + carries s e"
    by (simp add: id_books_def tick_def) (simp add: pays_def)
  with n show "clocked w (snd (let (e', l) = Append (w_clock w (w_pos w)) e (w_ledger w) in (e', tick w\<lparr>w_ledger := l\<rparr>)))
      \<and> v + (id_books s (snd (let (e', l) = Append (w_clock w (w_pos w)) e (w_ledger w) in (e', tick w\<lparr>w_ledger := l\<rparr>)))
          - id_books s w + 0) \<le> v + n"
    by (simp add: Let_def case_prod_beta clocked_def tick_def)
qed

section \<open>The router\<close>

lemma spends_mono: "spends s n p \<Longrightarrow> n \<le> m \<Longrightarrow> spends s m p"
  unfolding spends_def by (rule allI, rule tally_weaken, erule spec) simp

lemma spends_new_decision:
  assumes "\<And>d. spends s (owed s d) (k d)"
  shows "spends s 0 (bindP (new_decision req res reason rule) k)"
proof -
  have "spends s (pays s t) (k \<lparr>ad_Result = res, ad_Reason = reason, ad_RuleRef = rule,
      ad_DecisionID = ''dec-'' @ int_dec (UnixNano t), ad_RequestID = rq_RequestID req, ad_Timestamp = now\<rparr>)" for t now
    by (rule spends_mono [OF assms]) (simp add: pays_def issued_by_def)
  then show ?thesis
    unfolding new_decision_def decID_def admittedDecision_def
    by (simp add: bindP_assoc) (intro spends_identifier spends_after [OF spends_idle] idle_actions)
qed

lemma spends_write_decision: "spends s (owed s d) (write_decision req a d lg)"
  unfolding write_decision_def WriteDecision_def
  by (intro spends_after [OF spends_idle] idle_actions spends_ledger_Append)
    (simp add: carries_def decision_entry_def)

lemma spends_WriteExecution: "h \<noteq> [] \<Longrightarrow> spends s 0 (WriteExecution req did h)"
  unfolding WriteExecution_def
  by (intro spends_after [OF spends_idle] idle_actions spends_ledger_Append)
    (simp add: carries_def is_decision_def execution_entry_def)

lemmas decision_intros =
  spends_new_decision spends_before [OF spends_write_decision] spends_before [OF spends_ledger_Append]
  spends_seqP [OF spends_idle [OF idle_actions(5)]] spends_seqP [OF spends_idle [OF idle_actions(7)]]
  spends_seqP [OF spends_idle [OF idle_observe_since]] spends_Ret

lemma spends_admit_blocks:
  "spends s 0 (admit_ledger_break req)" "spends s 0 (admit_terminated req)" "spends s 0 (admit_interrupted req start)"
  "spends s 0 (admit_halted req stages)" "spends s 0 (admit_quarantined req recs im)" "spends s 0 (admit_no_provider req recs)"
  "spends s 0 (admit_refused req recs reason)" "spends s 0 (admit_terminated_in_flight req recs)"
  "spends s 0 (admit_interrupted_in_flight req start recs)" "spends s 0 (admit_commit req recs)"
  unfolding admit_ledger_break_def admit_terminated_def admit_interrupted_def admit_halted_def
    admit_quarantined_def admit_no_provider_def admit_refused_def admit_terminated_in_flight_def
    admit_interrupted_in_flight_def admit_commit_def Let_def
  by (intro decision_intros; simp add: carries_def)+

lemma spends_execute_blocks:
  "spends s 0 (execute_no_provider req)" "spends s 0 (execute_failed req e)" "spends s 0 (execute_done req out g)"
  unfolding execute_no_provider_def execute_failed_def execute_done_def Let_def
  by (intro decision_intros spends_seqP [OF spends_WriteExecution]; simp)+

lemmas spends_steps = spends_after [OF spends_idle] spends_seqP [OF spends_idle] spends_admit_blocks
  spends_execute_blocks spends_Ret

lemma spends_Router_Admit: "spends s 0 (Router_Admit (make_Router ts lat) req)"
proof -
  have provider: "spends s 0 (admit_provider req start recs)" for start recs
    unfolding admit_provider_def admit_in_flight_def by (auto intro!: spends_steps split: option.splits)
  have pipeline: "spends s 0 (admit_pipeline (make_Router ts lat) req start)" for start
    unfolding admit_pipeline_def make_Router_gre Let_def by (auto intro!: spends_steps provider)
  have gates: "spends s 0 (admit_gates (make_Router ts lat) req start)" for start
    unfolding admit_gates_def by (auto intro!: spends_steps pipeline)
  show ?thesis
    unfolding Router_Admit_def
    by (intro spends_after [OF spends_idle] idle_actions spends_before [OF gates] spends_seqP [OF spends_idle]
        idle_observe_since spends_Ret) simp
qed

lemma spends_GovernAndExecute: "spends s 0 (GovernAndExecute (make_Router ts lat) req)"
proof -
  have generate: "acts idle (boundedGenerate a req)" for a
    unfolding boundedGenerate_def by (auto intro!: idle_intros)
  have "spends s 0 (execute_admitted req out)" for out
    unfolding execute_admitted_def execute_provider_def
    by (auto intro!: spends_steps generate split: option.splits)
  then show ?thesis
    unfolding GovernAndExecute_def by (intro spends_after [OF spends_Router_Admit]) (auto intro!: spends_Ret)
qed

section \<open>The endpoints\<close>

lemma spends_operator_call:
  "spends s 0 (seqP (override f) (seqP (exec_Forcibly i x) (seqP (operatorLedger ir reason rule) (respond st b))))"
proof -
  have "spends s (pays s t) (WriteDecision req a res reason rule (''op-'' @ int_dec (UnixNano t)) lg)" for t req a res lg
    unfolding WriteDecision_def
    by (intro spends_after [OF spends_idle] idle_actions spends_ledger_Append)
      (simp add: carries_def decision_entry_def pays_def issued_by_def)
  then have "spends s 0 (operatorLedger ir reason rule)"
    unfolding operatorLedger_def by (rule spends_identifier)
  then show ?thesis by (intro spends_seqP) (simp_all add: spends_idle)
qed

lemma spends_operator_frame: "(\<And>ir. spends s 0 (act ir)) \<Longrightarrow> spends s 0 (operator_frame sv r filled missing act)"
  using operator_frame_cases [of sv r filled missing act] by (auto intro: spends_idle)

lemma spends_respond: "spends s 0 (respond st b)"
  by (simp add: spends_idle)

lemma spends_muxRouter: "spends s 0 (muxRouter (make_Server ts lat token) c)"
proof (cases c)
  case (Route r)
  then show ?thesis
    by (auto simp: RouteHandler_def make_Server_def WithAuth_def NewServer_def
        intro!: spends_after [OF spends_Router_Admit] spends_respond split: body.splits)
next
  case (WorkflowCall r)
  then show ?thesis
    by (auto simp: workflowHandler_def Workflow_Run_def NewWorkflowService_def make_Server_def WithAuth_def NewServer_def
        intro!: spends_before spends_GovernAndExecute spends_respond spends_Ret split: body.splits option.splits)
qed (auto simp: VerifyHandler_def LedgerHandler_def plain_handlers InterruptHandler_def CorrectHandler_def TerminateHandler_def
    intro!: spends_operator_frame spends_operator_call spends_respond spends_after [OF spends_idle] split: sum.splits)

interpretation id_accounts: pool_accounts "endpoints ts lat token" clocked "id_books s" 0 "\<lambda>_ v. v \<le> 0" for ts lat token s
  using spends_muxRouter by unfold_locales (auto simp: endpoints_def spends_def)

lemma keeps_clock: "keeps (\<lambda>w. w_clock w = c \<and> n \<le> w_pos w) (muxRouter (make_Server ts lat token) call)"
proof -
  have "tally clocked (id_cost []) (\<lambda>_ v'. v' \<le> 0 + 0) (muxRouter (make_Server ts lat token) call) 0"
    using spends_muxRouter by (simp only: spends_def)
  then show ?thesis by (rule tally_keeps) (simp add: clocked_def)
qed

interpretation clock_inv: pool_invariant "endpoints ts lat token" "\<lambda>w. w_clock w = c \<and> n \<le> w_pos w" for ts lat token c n
  using keeps_clock by unfold_locales (auto simp: endpoints_def)

section \<open>Identifiers and certificates\<close>

lemma issued_unique:
  assumes "issued_by t s" and "issued_by t' s"
  shows "UnixNano t = UnixNano t'"
proof -
  have range: "- (2 ^ 63) \<le> UnixNano x" "UnixNano x < 2 ^ 63" for x
    using sint_range_size [of "word_of_int x :: 64 word"] by (simp_all add: UnixNano_def word_size)
  have "int_dec (UnixNano t) = int_dec (UnixNano t')" using assms by (auto simp: issued_by_def)
  with parse_int_dec [OF range] parse_int_dec [OF range, of t] show ?thesis by (metis option.inject)
qed

lemma decisions_under:
  "(\<Sum>e\<leftarrow>es. carries s e) = int (count_list (map le_DecisionID (filter is_decision es)) s)"
  by (induction es) (auto simp: carries_def)

lemma distinct_if_counts: "(\<And>x. count_list xs x \<le> 1) \<Longrightarrow> distinct xs"
proof (induction xs)
  case (Cons a xs)
  have "count_list xs x \<le> 1" for x using Cons.prems [of x] by (simp split: if_splits)
  moreover have "count_list xs a = 0" using Cons.prems [of a] by simp
  ultimately show ?case using Cons.IH by (simp add: count_list_0_iff)
qed simp

lemma decisions_distinct:
  assumes run: "pool_run (endpoints ts lat token) (w, []) (w', map Ret rs)" and "w_ledger w = NewLedger"
    and inj: "inj_on (\<lambda>n. UnixNano (w_clock w n)) {w_pos w..<w_pos w'}"
  shows "distinct (map le_DecisionID (filter is_decision (Export (w_ledger w'))))"
proof (rule distinct_if_counts)
  fix s
  let ?paid = "\<lambda>n. \<Sum>k<n. pays s (w_clock w k)" and ?K = "{k \<in> {w_pos w..<w_pos w'}. issued_by (w_clock w k) s}"
  have clock: "w_clock w' = w_clock w" "w_pos w \<le> w_pos w'"
    using clock_inv.run_keeps [OF run, of "w_clock w" "w_pos w"] by simp_all
  from id_accounts.all_returned [OF run, of s] obtain n spent where
    spent: "list_all2 (\<lambda>_ v. v \<le> 0) rs spent" "sum_list spent = id_books s w' - id_books s w + id_accounts.units n" by blast
  have "list_all2 (\<lambda>_ v. v \<le> 0) rs' spent \<Longrightarrow> sum_list spent \<le> (0 :: int)" for rs' :: "Response list" and spent
    by (induction rule: list_all2_induct) auto
  from this [OF spent(1)] have "sum_list spent \<le> 0" .
  moreover have "id_accounts.units n = 0" by (induction n) simp_all
  ultimately have "id_books s w' \<le> id_books s w" using spent(2) by simp
  then have "(\<Sum>e\<leftarrow>Export (w_ledger w'). carries s e) \<le> ?paid (w_pos w') - ?paid (w_pos w)"
    by (simp add: id_books_def clock(1) assms(2) NewLedger_def Export_def)
  also have "\<dots> = (\<Sum>k=w_pos w..<w_pos w'. pays s (w_clock w k))"
    using sum_diff_nat_ivl [of 0 "w_pos w" "w_pos w'" "\<lambda>k. pays s (w_clock w k)"] clock(2) by (simp add: atLeast0LessThan)
  also have "\<dots> = int (card ?K)" by (simp add: pays_def flip: sum.inter_filter)
  also have "\<dots> \<le> 1"
  proof -
    have "i = j" if "i \<in> ?K" "j \<in> ?K" for i j
      using that by (intro inj_onD [OF inj] issued_unique [of _ s]) simp_all
    then show ?thesis using card_le_Suc0_iff_eq [of ?K] by simp
  qed
  finally show "count_list (map le_DecisionID (filter is_decision (Export (w_ledger w')))) s \<le> 1"
    by (simp add: decisions_under)
qed

lemma certificate_of_the_only:
  assumes "executions_backed (lg_entries l)" and "distinct (map le_DecisionID (filter is_decision (lg_entries l)))"
    and "e \<in> set (lg_entries l)" and "is_decision e"
  shows "GenerateCER now l (le_DecisionID e) = Some (make_CER now (lg_entries l) e)"
proof -
  let ?es = "lg_entries l"
  obtain x where x: "find (\<lambda>x. le_DecisionID x = le_DecisionID e) ?es = Some x"
    using assms(3) by (cases "find (\<lambda>x. le_DecisionID x = le_DecisionID e) ?es") (auto simp: find_None_iff)
  then obtain k where k: "k < length ?es" "?es ! k = x" "le_DecisionID x = le_DecisionID e"
      "\<forall>j<k. le_DecisionID (?es ! j) \<noteq> le_DecisionID e"
    by (auto simp: find_Some_iff)
  have "is_decision x"
    using assms(1) k unfolding is_decision_def executions_backed_def backs_def by metis
  then have "x = e"
    using assms(2-4) k(3) nth_mem [OF k(1)] by (auto simp: distinct_map k(2) dest: inj_onD)
  with x show ?thesis by (simp add: GenerateCER_def cer_loop_first)
qed

section \<open>Properties\<close>

text \<open>
  C18: once all requests of a freshly started service have been answered, however their actions were
  interleaved, no two decisions of the ledger share an identifier and \<open>GenerateCER\<close> returns for every
  decision the record of that decision, provided that no two readings of the clock show the same
  nanosecond.
\<close>

theorem certificate_covers_its_decision:
  assumes "pool_run (endpoints ts lat token) (w, []) (w', map Ret rs)" and "w_ledger w = NewLedger" and "w_calls w = []"
    and "inj_on (\<lambda>n. UnixNano (w_clock w n)) {w_pos w..<w_pos w'}"
  shows "distinct (map le_DecisionID (filter is_decision (Export (w_ledger w'))))
    \<and> (\<forall>e\<in>set (Export (w_ledger w')). is_decision e \<longrightarrow>
         GenerateCER now (w_ledger w') (le_DecisionID e) = Some (make_CER now (Export (w_ledger w')) e))"
proof -
  have "governed w" by (simp add: governed_def executions_backed_def generations_backed_def assms(2,3) NewLedger_def)
  then have "executions_backed (lg_entries (w_ledger w'))"
    using service_advances [OF assms(1)] by (simp add: advances_def governed_def)
  with decisions_distinct [OF assms(1,2,4)] show ?thesis by (simp add: Export_def certificate_of_the_only)
qed

definition sample_interrupt :: "Response go" where
  "sample_interrupt = muxRouter sample_server (InterruptCall (operator_post ''Bearer token''))"

lemma sample_interrupt_run:
  "sample_interrupt \<in> sample_endpoints" "w_clock (snd (run sample_interrupt w)) = w_clock w"
  "w_pos (snd (run sample_interrupt w)) = w_pos w + 3"
  "map le_DecisionID (filter is_decision (lg_entries (w_ledger (snd (run sample_interrupt w))))) =
     map le_DecisionID (filter is_decision (lg_entries (w_ledger w))) @ [''op-'' @ int_dec (UnixNano (w_clock w (w_pos w)))]"
proof -
  show "sample_interrupt \<in> sample_endpoints"
    unfolding sample_interrupt_def sample_endpoints_def sample_server_def endpoints_def by (rule rangeI)
  have "operator_accepts sample_server (operator_post ''Bearer token'') \<lparr>or_IntentID = ''i'', or_OperatorID = ''o'', or_Directive = []\<rparr>"
    by (simp add: operator_accepts_def sample_server_def make_Server_def operator_post_def WithAuth_def NewOperatorAuth_def
        Authorized_def strings_CutPrefix_def)
  from operator_frame_accepted [OF this]
  show "w_clock (snd (run sample_interrupt w)) = w_clock w" "w_pos (snd (run sample_interrupt w)) = w_pos w + 3"
      "map le_DecisionID (filter is_decision (lg_entries (w_ledger (snd (run sample_interrupt w))))) =
        map le_DecisionID (filter is_decision (lg_entries (w_ledger w))) @ [''op-'' @ int_dec (UnixNano (w_clock w (w_pos w)))]"
    by (simp_all add: is_decision_def decision_entry_def zero_LedgerEntry_def sample_interrupt_def InterruptHandler_def operatorLedger_def WriteDecision_def override_def exec_Forcibly_def
        time_Now_def ledger_Append_def tick_def Let_def case_prod_beta run_simps)
qed

text \<open>
  The proviso is needed: where two decisions read the same nanosecond, they share their identifier, and no
  evidence record covers the second.
\<close>

lemma coinciding_readings_share_identifier:
  assumes "w_clock w 0 = w_clock w 3" and "w_pos w = 0" and "w_ledger w = NewLedger"
  shows "\<not> distinct (map le_DecisionID (filter is_decision
    (Export (w_ledger (snd (run sample_interrupt (snd (run sample_interrupt w))))))))"
  using assms by (simp add: Export_def sample_interrupt_run NewLedger_def)

theorem certificate_covers_its_decision_witness:
  "let w = snd (run sample_interrupt (snd (run sample_interrupt sample_world))) in
     distinct (map le_DecisionID (filter is_decision (Export (w_ledger w))))"
proof -
  let ?w1 = "snd (run sample_interrupt sample_world)" and ?r1 = "fst (run sample_interrupt sample_world)"
  let ?w2 = "snd (run sample_interrupt ?w1)" and ?r2 = "fst (run sample_interrupt ?w1)"
  have "pool_run sample_endpoints (sample_world, []) (sample_world, [sample_interrupt])"
    using pool_run_arrive [OF sample_interrupt_run(1), of sample_world "[]"] by simp
  from pool_run_trans [OF pool_run_thread [of 0] this] have "pool_run sample_endpoints (sample_world, []) (?w1, [Ret ?r1])" by simp
  from pool_run_trans [OF pool_run_arrive [OF sample_interrupt_run(1)] this]
  have "pool_run sample_endpoints (sample_world, []) (?w1, [Ret ?r1, sample_interrupt])" by simp
  from pool_run_trans [OF pool_run_thread [of 1] this] have "pool_run sample_endpoints (sample_world, []) (?w2, map Ret [?r1, ?r2])" by simp
  note run = this [unfolded sample_endpoints_def]
  have "inj_on (\<lambda>n. UnixNano (w_clock sample_world n)) {w_pos sample_world..<w_pos ?w2}"
  proof (rule inj_onI)
    have end_pos: "w_pos ?w2 = 6" by (simp add: sample_interrupt_run(3)) (simp add: sample_world_def)
    show "x = y" if "x \<in> {w_pos sample_world..<w_pos ?w2}" "y \<in> {w_pos sample_world..<w_pos ?w2}"
      "UnixNano (w_clock sample_world x) = UnixNano (w_clock sample_world y)" for x y
      using that end_pos by (simp add: sample_world_def UnixNano_exact)
  qed
  note result = certificate_covers_its_decision [OF run _ _ this]
  have "w_ledger sample_world = NewLedger" "w_calls sample_world = []" by (simp_all add: sample_world_def)
  from result [OF this] show ?thesis by (simp only: Let_def simp_thms)
qed

end
