(* ===== verification/Deadline.thy ===== *)
theory Deadline
  imports Samples
begin

text \<open>
  A provider that does not answer: what \<open>GovernAndExecute\<close> makes of an admitted request whose \<open>Generate\<close>
  returns after the deadline or never.
\<close>

section \<open>Facts\<close>

text \<open>The world an admission leaves, as far as the second half reads it.\<close>

lemma admitted_fields:
  assumes "ad_Result (ao_Decision (fst (fst (run (Router_Admit (make_Router ts lat) req) w)))) = Admit"
  defines "w1 \<equiv> snd (run (Router_Admit (make_Router ts lat) req) w)"
  shows "w_env w1 = w_env w" "w_calls w1 = w_calls w @ [CallCapability (mr_ProviderID (rq_ModelRef req)) req]"
    and "\<exists>adm. lg_entries (w_ledger w1) = lg_entries (w_ledger w) @ [adm] \<and> le_Result adm = Admit \<and> le_Admitted adm
      \<and> le_IntentID adm = rq_IntentID req \<and> le_ExecutionHash adm = []"
proof -
  let ?res = "run (Router_Admit (make_Router ts lat) req) w"
  obtain n where dec: "decided req (admit_verdict (make_Router ts lat) req w n) w ?res"
    using decided_Admit [OF make_Router_gre] by blast
  then have v: "v_Result (admit_verdict (make_Router ts lat) req w n) = Admit" using assms(1) by (simp add: decided_def Let_def)
  then show "w_calls w1 = w_calls w @ [CallCapability (mr_ProviderID (rq_ModelRef req)) req]"
    using decided_world(1) [OF dec] verdict_commit [OF v] by (simp add: w1_def commit_verdict_def asked_def)
  show "w_env w1 = w_env w" using dec by (auto simp: w1_def decided_def Let_def dest!: gov_fields(2))
  from dec obtain t did rid where
    "ao_Entry (fst (fst ?res)) = fst (Append t (verdict_entry req (admit_verdict (make_Router ts lat) req w n) did rid) (w_ledger w))"
    by (auto simp: decided_def Let_def)
  with v decided_world(5) [OF dec] show "\<exists>adm. lg_entries (w_ledger w1) = lg_entries (w_ledger w) @ [adm] \<and> le_Result adm = Admit
      \<and> le_Admitted adm \<and> le_IntentID adm = rq_IntentID req \<and> le_ExecutionHash adm = []"
    by (auto simp: w1_def verdict_entry_def decision_entry_def zero_LedgerEntry_def)
qed

definition too_late :: "Adapter \<Rightarrow> CapabilityRequest \<Rightarrow> int \<Rightarrow> bool" where
  "too_late a req bound \<longleftrightarrow> (\<forall>n. case fst (ap_Generate a n req) of None \<Rightarrow> True | Some d \<Rightarrow> max 0 bound < int d)"

lemma too_late_generation:
  assumes "too_late a req (providerTimeout (w_env w))"
  shows "generation a req w n = (None, Some ErrProviderTimeout)"
proof -
  have "\<not> select_result (fst (ap_Generate a n req)) (providerTimeout (w_env w)) (w_select w (Suc n))"
    using assms [unfolded too_late_def, rule_format, of n] by (auto simp: select_result_def split: option.splits)
  then show ?thesis by (simp add: generation_def case_prod_beta)
qed

definition slow_world :: world where
  "slow_world = sample_world\<lparr>w_providers := [''fake'' \<mapsto> NewFakeAdapter True 2500000001]\<rparr>"

lemma slow_admitted:
  "ad_Result (ao_Decision (fst (fst (run (Router_Admit (make_Router (fst (Build sample_config)) (snd (Build sample_config))) sample_request)
     slow_world)))) = Admit"
proof -
  let ?r = "make_Router (fst (Build sample_config)) (snd (Build sample_config))"
  obtain n where "decided sample_request (admit_verdict ?r sample_request slow_world n) slow_world (run (Router_Admit ?r sample_request) slow_world)"
    using decided_Admit [OF make_Router_gre] by blast
  moreover have "admissible ?r sample_request slow_world n"
    using sample_admissible [of n]
    by (simp add: sample_router_def admissible_def slow_world_def sample_world_def sample_request_def router_input_def
        NewFakeAdapter_def FakeAdapter_CapabilityRequest_def)
  then have "v_Result (admit_verdict ?r sample_request slow_world n) = Admit" by (simp add: verdict_Admit)
  ultimately show ?thesis by (simp add: decided_def Let_def)
qed

section \<open>Properties\<close>

text \<open>
  C34: an admitted request whose provider answers after the deadline, or never, is denied: \<open>GovernAndExecute\<close>
  returns the denial "provider execution timed out" with an empty result and no error, the provider has been
  asked and called once each, and the ledger has two more entries, the admission and the denial, and no
  execution.
\<close>

theorem silent_provider_denied:
  assumes "ad_Result (ao_Decision (fst (fst (run (Router_Admit (make_Router ts lat) req) w)))) = Admit"
    and "w_providers w (mr_ProviderID (rq_ModelRef req)) = Some a" and "too_late a req (providerTimeout (w_env w))"
  shows "\<exists>out w' adm den. run (GovernAndExecute (make_Router ts lat) req) w = ((out, zero_ExecutionResult, None), w')
    \<and> ad_Result (ao_Decision out) = Deny \<and> ad_Reason (ao_Decision out) = ''provider execution timed out'' \<and> ao_Entry out = den
    \<and> Export (w_ledger w') = Export (w_ledger w) @ [adm, den]
    \<and> le_Result adm = Admit \<and> le_Admitted adm \<and> le_IntentID adm = rq_IntentID req \<and> le_ExecutionHash adm = []
    \<and> le_Result den = Deny \<and> \<not> le_Admitted den \<and> le_IntentID den = rq_IntentID req \<and> le_ExecutionHash den = []
    \<and> le_Reason den = ''provider execution timed out'' \<and> le_DecisionID den = ad_DecisionID (ao_Decision out)
    \<and> w_calls w' = w_calls w @ [CallCapability (mr_ProviderID (rq_ModelRef req)) req, CallGenerate (mr_ProviderID (rq_ModelRef req)) req]"
proof -
  let ?res = "run (Router_Admit (make_Router ts lat) req) w"
  let ?w1 = "snd ?res" and ?final = "run (GovernAndExecute (make_Router ts lat) req) w"
  note w1 = admitted_fields [OF assms(1)]
  obtain adm where adm: "lg_entries (w_ledger ?w1) = lg_entries (w_ledger w) @ [adm]" "le_Result adm = Admit" "le_Admitted adm"
    "le_IntentID adm = rq_IntentID req" "le_ExecutionHash adm = []"
    using w1(3) by blast
  have "generation a req ?w1 n = (None, Some ErrProviderTimeout)" for n
    using too_late_generation [of a req ?w1] assms(3) by (simp add: w1(1))
  with run_GovernAndExecute_admitted [OF assms(1)] assms(2)
  have "executed req (fst (fst ?res)) ?w1 (None, Some ErrProviderTimeout) ?final" by simp
  then obtain d t now where "let app = Append t (decision_entry now req False Deny (failure_reason ErrProviderTimeout) ''provider.execution''
         (ad_DecisionID d) (Some [stage_record ''provider'' False (error_text ErrProviderTimeout) ''provider.execution''])) (w_ledger ?w1) in
       fst ?final = (outcome d (fst app) [], zero_ExecutionResult, None) \<and> ad_Result d = Deny
       \<and> ad_Reason d = failure_reason ErrProviderTimeout \<and> gov (snd ?final) = gov ((started req ?w1)\<lparr>w_ledger := snd app\<rparr>)"
    unfolding executed_def by (auto simp: Let_def)
  then obtain app where app: "fst ?final = (outcome d (fst app) [], zero_ExecutionResult, None)" "ad_Result d = Deny"
      "ad_Reason d = ''provider execution timed out''" "gov (snd ?final) = gov ((started req ?w1)\<lparr>w_ledger := snd app\<rparr>)"
    and entry: "lg_entries (snd app) = lg_entries (w_ledger ?w1) @ [fst app]" "le_Result (fst app) = Deny" "\<not> le_Admitted (fst app)"
      "le_IntentID (fst app) = rq_IntentID req" "le_ExecutionHash (fst app) = []" "le_Reason (fst app) = ''provider execution timed out''"
      "le_DecisionID (fst app) = ad_DecisionID d"
    by (auto simp: Let_def failure_reason_def decision_entry_def zero_LedgerEntry_def)
  have "Export (w_ledger (snd ?final)) = Export (w_ledger w) @ [adm, fst app]"
    using gov_fields(3) [OF app(4)] entry(1) adm(1) by (simp add: Export_def)
  moreover have "w_calls (snd ?final) = w_calls w @ [CallCapability (mr_ProviderID (rq_ModelRef req)) req,
      CallGenerate (mr_ProviderID (rq_ModelRef req)) req]"
    using gov_fields(8) [OF app(4)] w1(2) by (simp add: started_def)
  moreover have "?final = ((outcome d (fst app) [], zero_ExecutionResult, None), snd ?final)"
    using app(1) by (metis prod.collapse)
  ultimately show ?thesis using adm(2-5) app(2,3) entry(2-7)
    by (intro exI [of _ "outcome d (fst app) []"] exI [of _ "snd ?final"] exI [of _ adm] exI [of _ "fst app"])
      (simp add: outcome_def)
qed

theorem silent_provider_denied_witness:
  "\<exists>out w' adm den. run (GovernAndExecute (make_Router (fst (Build sample_config)) (snd (Build sample_config))) sample_request) slow_world =
      ((out, zero_ExecutionResult, None), w')
    \<and> ad_Result (ao_Decision out) = Deny \<and> Export (w_ledger w') = [adm, den] \<and> le_Admitted adm \<and> \<not> le_Admitted den"
proof -
  have provider: "w_providers slow_world (mr_ProviderID (rq_ModelRef sample_request)) = Some (NewFakeAdapter True 2500000001)"
    by (simp add: slow_world_def sample_request_def)
  have "too_late (NewFakeAdapter True 2500000001) sample_request (providerTimeout (w_env slow_world))"
    by (simp add: too_late_def NewFakeAdapter_def slow_world_def sample_world_def providerTimeout_def ProviderTimeout_def)
  from silent_provider_denied [OF slow_admitted provider this] obtain out w' adm den where
    "run (GovernAndExecute (make_Router (fst (Build sample_config)) (snd (Build sample_config))) sample_request) slow_world =
      ((out, zero_ExecutionResult, None), w')"
    "ad_Result (ao_Decision out) = Deny" "Export (w_ledger w') = Export (w_ledger slow_world) @ [adm, den]" "le_Admitted adm" "\<not> le_Admitted den"
    by blast
  moreover have "Export (w_ledger slow_world) = []" by (simp add: slow_world_def sample_world_def NewLedger_def Export_def)
  ultimately show ?thesis by (metis append_Nil)
qed

end
