(* ===== verification/Blindness.thy ===== *)
theory Blindness
  imports Samples
begin

text \<open>
  The coherence projection of a request and its admission.  Two runs of \<open>Admit\<close>, on requests that differ in
  the projection only, are compared action by action.  All programs but one are equal terms, because no
  definition reads the projection; the one action that passes the whole request on is the question to the
  adapter, and the adapters of the repository read the model reference and the intent of a request only
  (\<open>payload_blind\<close>).  What remains is that the record of the question, which holds the request, is not read
  again.
\<close>

section \<open>Definitions\<close>

text \<open>The adapters of \<open>adapters.go\<close>.\<close>

definition repository_adapter :: "Adapter \<Rightarrow> bool" where
  "repository_adapter a \<longleftrightarrow>
     (\<exists>allow latency. a = NewFakeAdapter allow latency) \<or> (\<exists>url latency. a = NewProjectInfinityAdapter url latency)"

text \<open>The program does not read the record of provider calls.\<close>

definition forgetful :: "'a go \<Rightarrow> bool" where
  "forgetful p \<longleftrightarrow> (\<forall>w c. run p (w\<lparr>w_calls := c\<rparr>) = (fst (run p w), (snd (run p w))\<lparr>w_calls := c\<rparr>))"

text \<open>Two programs with the same effect in a world, up to that record.\<close>

definition agree :: "'a go \<Rightarrow> 'a go \<Rightarrow> world \<Rightarrow> bool" where
  "agree p q w \<longleftrightarrow> fst (run p w) = fst (run q w) \<and> (snd (run p w))\<lparr>w_calls := []\<rparr> = (snd (run q w))\<lparr>w_calls := []\<rparr>"

abbreviation other :: "CapabilityRequest \<Rightarrow> CoherenceProjection option \<Rightarrow> CapabilityRequest" where
  "other req c \<equiv> req\<lparr>rq_Coherence := c\<rparr>"

section \<open>Programs that do not read the record of calls\<close>

named_theorems forgetful_intros \<open>programs that do not read the record of provider calls\<close>

lemma forgetful_Ret [forgetful_intros]: "forgetful (Ret a)"
  by (simp add: forgetful_def)

lemma forgetful_bindP [forgetful_intros]: "forgetful p \<Longrightarrow> (\<And>a. forgetful (k a)) \<Longrightarrow> forgetful (bindP p k)"
  by (simp add: forgetful_def run_bindP)

lemma forgetful_seqP [forgetful_intros]: "forgetful p \<Longrightarrow> forgetful q \<Longrightarrow> forgetful (seqP p q)"
  by (simp add: seqP_def forgetful_bindP)

lemma forgetful_actions [forgetful_intros]:
  "forgetful time_Now" "forgetful (inc m ls)" "forgetful (isTerminated i)" "forgetful (isInterrupted i)"
  "forgetful (exec_Forcibly i s)" "forgetful (ledger_Append e)"
  by (simp_all add: forgetful_def time_Now_def inc_def metric_def isTerminated_def isInterrupted_def exec_Forcibly_def
      ledger_Append_def run_simps tick_def Let_def case_prod_beta)

lemma forgetful_observe_since [forgetful_intros]: "forgetful (observe_since m ls t)"
proof -
  have "forgetful (metric c)" for c by (simp add: forgetful_def metric_def run_simps)
  then show ?thesis unfolding observe_since_def by (intro forgetful_intros)
qed

lemma forgetful_decisions [forgetful_intros]:
  "forgetful (new_decision req res reason rule)" "forgetful (write_decision req adm d lg)"
  unfolding new_decision_def decID_def admittedDecision_def write_decision_def WriteDecision_def
  by (intro forgetful_intros)+

lemma forgetful_after_provider:
  "forgetful (admit_refused req recs reason)" "forgetful (admit_in_flight req start recs)"
  unfolding admit_refused_def admit_in_flight_def admit_terminated_in_flight_def admit_interrupted_in_flight_def admit_commit_def
  by (auto intro!: forgetful_intros)

section \<open>Agreement\<close>

lemma agree_refl: "agree p p w"
  by (simp add: agree_def)

lemma agree_after: "agree (k (fst (run p w))) (l (fst (run p w))) (snd (run p w)) \<Longrightarrow> agree (bindP p k) (bindP p l) w"
  by (simp add: agree_def run_bindP)

lemma forgetful_run_cong:
  assumes "forgetful p" and "w\<lparr>w_calls := []\<rparr> = v\<lparr>w_calls := []\<rparr>"
  shows "fst (run p w) = fst (run p v) \<and> (snd (run p w))\<lparr>w_calls := []\<rparr> = (snd (run p v))\<lparr>w_calls := []\<rparr>"
proof -
  have "run p (u\<lparr>w_calls := []\<rparr>) = (fst (run p u), (snd (run p u))\<lparr>w_calls := []\<rparr>)" for u
    using assms(1) by (simp add: forgetful_def)
  from this [of w] this [of v] show ?thesis by (simp add: assms(2))
qed

lemma agree_before: "agree p q w \<Longrightarrow> (\<And>a. forgetful (k a)) \<Longrightarrow> agree (bindP p k) (bindP q k) w"
  using forgetful_run_cong [of "k (fst (run q w))" "snd (run p w)" "snd (run q w)"] by (simp add: agree_def run_bindP)

section \<open>Nothing but the adapter is passed the projection\<close>

lemma other_decisions [simp]:
  "new_decision (other req c) = new_decision req" "write_decision (other req c) = write_decision req"
  by (intro ext; simp add: new_decision_def admittedDecision_def write_decision_def WriteDecision_def decision_entry_def)+

lemma other_blocks [simp]:
  "admit_ledger_break (other req c) = admit_ledger_break req" "admit_terminated (other req c) = admit_terminated req"
  "admit_interrupted (other req c) = admit_interrupted req" "admit_halted (other req c) = admit_halted req"
  "admit_quarantined (other req c) = admit_quarantined req" "admit_no_provider (other req c) = admit_no_provider req"
  "admit_refused (other req c) = admit_refused req" "admit_in_flight (other req c) = admit_in_flight req"
  by (simp_all add: fun_eq_iff admit_ledger_break_def admit_terminated_def admit_interrupted_def admit_halted_def
      admit_quarantined_def admit_no_provider_def admit_refused_def admit_in_flight_def admit_terminated_in_flight_def
      admit_interrupted_in_flight_def admit_commit_def cong: if_cong)

lemma other_check:
  assumes "st \<in> set (gre_Stages (NewGRE1001 usl))"
  shows "ss_Check st \<lparr>si_Request = other req c, si_Tenants = ts, si_Lattice = lat\<rparr> =
    ss_Check st \<lparr>si_Request = req, si_Tenants = ts, si_Lattice = lat\<rparr>"
  using assms
  by (auto simp: NewGRE1001_def step_def stageInputValidation_def stageCapabilityCheck_def stageIdentitySeparation_def
      checkLambda4_coherence stageUSLGate_def stage_gate_def USLGate_Check_def usl_verdict_coherence stageDriftCheck_def
      stageOperatorCorrigibility_def stageAuditTrail_def stageLedgerWrite_def stageOutputValidation_def)

lemma run_stages_cong:
  "\<forall>st\<in>set ss. ss_Check st si = ss_Check st si' \<Longrightarrow> run_stages ss si outs = run_stages ss si' outs"
  by (induction ss arbitrary: outs) (simp_all cong: if_cong)

lemma other_GRE_Run [simp]:
  "GRE_Run (NewGRE1001 usl) \<lparr>si_Request = other req c, si_Tenants = ts, si_Lattice = lat\<rparr> =
     GRE_Run (NewGRE1001 usl) \<lparr>si_Request = req, si_Tenants = ts, si_Lattice = lat\<rparr>"
  unfolding GRE_Run_def by (rule run_stages_cong) (simp add: other_check)

lemma other_immune [simp]:
  "Immune_Classify (other req c) = Immune_Classify req" "operator_approval r (other req c) = operator_approval r req"
  by (simp add: Immune_Classify_def Classify_decision_def) (rule ext, simp add: operator_approval_def)

section \<open>\<open>Admit\<close> on two requests\<close>

definition repository_providers :: "world \<Rightarrow> bool" where
  "repository_providers w \<longleftrightarrow> (\<forall>p a. w_providers w p = Some a \<longrightarrow> repository_adapter a)"

lemma repository_providers_quiet: "quiet p \<Longrightarrow> repository_providers w \<Longrightarrow> repository_providers (snd (run p w))"
  using gov_fields(7) [OF quiet_run [of p w]] by (simp add: repository_providers_def)

lemma adapter_other: "repository_adapter a \<Longrightarrow> ap_CapabilityRequest a n (other req c) = ap_CapabilityRequest a n req"
  unfolding repository_adapter_def using fake.capability_coherence infinity.capability_coherence by blast

lemma agree_quiet:
  "quiet p \<Longrightarrow> repository_providers w \<Longrightarrow> (\<And>a w. repository_providers w \<Longrightarrow> agree (k a) (l a) w) \<Longrightarrow> agree (bindP p k) (bindP p l) w"
  by (rule agree_after) (simp add: repository_providers_quiet)

lemma agree_provider:
  assumes "repository_providers w"
  shows "agree (admit_provider (other req c) start recs) (admit_provider req start recs) w"
proof -
  have ask: "agree (call_CapabilityRequest a (other req c)) (call_CapabilityRequest a req) v" if "repository_adapter a" for a v
    using adapter_other [OF that] by (simp add: agree_def call_CapabilityRequest_def run_simps)
  have choice: "agree (case found of None \<Rightarrow> admit_no_provider req recs
      | Some a \<Rightarrow> bindP (call_CapabilityRequest a (other req c)) (\<lambda>(ok, reason).
          if \<not> ok then admit_refused req recs reason else admit_in_flight req start recs))
    (case found of None \<Rightarrow> admit_no_provider req recs
      | Some a \<Rightarrow> bindP (call_CapabilityRequest a req) (\<lambda>(ok, reason).
          if \<not> ok then admit_refused req recs reason else admit_in_flight req start recs)) v"
    if "\<And>a. found = Some a \<Longrightarrow> repository_adapter a" for found v
    using that by (auto intro!: agree_refl agree_before [OF ask] forgetful_after_provider split: option.splits)
  have model: "rq_ModelRef (other req c) = rq_ModelRef req" by simp
  show ?thesis
    unfolding admit_provider_def other_blocks model using assms choice
    by (intro agree_after) (simp add: repository_providers_def provider_lookup_def run_gets)
qed

lemma agree_Admit:
  assumes "repository_providers w"
  shows "agree (Router_Admit (make_Router ts lat) (other req c)) (Router_Admit (make_Router ts lat) req) w"
proof -
  have pipeline: "agree (admit_pipeline (make_Router ts lat) (other req c) start) (admit_pipeline (make_Router ts lat) req start) v"
    if "repository_providers v" for start v
    unfolding admit_pipeline_def make_Router_gre Let_def other_GRE_Run other_immune other_blocks
    by (intro agree_quiet that quiet_GRE_Run)
      (auto intro!: agree_refl agree_quiet agree_provider quiet_Immune_Classify)
  have gates: "agree (admit_gates (make_Router ts lat) (other req c) start) (admit_gates (make_Router ts lat) req start) v"
    if "repository_providers v" for start v
    unfolding admit_gates_def using that
    by (auto intro!: agree_refl agree_quiet pipeline quiet_reads)
  show ?thesis
    unfolding Router_Admit_def
    by (intro agree_quiet assms quiet_time_Now agree_before gates forgetful_intros)
qed

section \<open>Properties\<close>

text \<open>
  C35: with the adapters of the repository as providers, the coherence projection attached to a request plays
  no part in its admission: whatever it contains, entries that claim authority included, \<open>Admit\<close> returns the
  same outcome, identifiers and ledger entry included, and leaves the same world; only the record of the
  call holds the other request.
\<close>

theorem coherence_never_decides:
  assumes "repository_providers w"
  shows "let (res', w') = run (Router_Admit (make_Router ts lat) (req\<lparr>rq_Coherence := c\<rparr>)) w;
      (res, w1) = run (Router_Admit (make_Router ts lat) req) w in
    res' = res \<and> w'\<lparr>w_calls := []\<rparr> = w1\<lparr>w_calls := []\<rparr>"
  using agree_Admit [OF assms, where ts = ts and lat = lat and req = req and c = c] by (simp add: agree_def case_prod_beta)

definition claimed_authority :: CoherenceProjection where
  "claimed_authority =
     \<lparr>cp_MaxEntries = 1, cp_Entries =
        Some [\<lparr>pe_Key = ''k'', pe_Source = ''s'', pe_Classification = ''authority'', pe_Value = ''deny everything''\<rparr>]\<rparr>"

theorem coherence_never_decides_witness:
  "ad_Result (ao_Decision (fst (fst (run (Router_Admit sample_router (sample_request\<lparr>rq_Coherence := Some claimed_authority\<rparr>))
     sample_world)))) = Admit"
proof -
  have "repository_providers sample_world"
    by (auto simp: repository_providers_def repository_adapter_def sample_world_def)
  from coherence_never_decides [OF this, where ts = "fst (Build sample_config)" and lat = "snd (Build sample_config)"
      and req = sample_request and c = "Some claimed_authority"]
  show ?thesis using sample_admitted by (simp add: sample_router_def case_prod_beta)
qed

end
