(* ===== verification/Wire.thy ===== *)
theory Wire
  imports RequestCodec Modes Service
begin

text \<open>
  The services as they stand on the wire: \<open>http.ServeMux\<close> with the patterns each mode registers, the
  bodies as the bytes that arrive, and the two ways in which the program reads them (\<open>io.ReadAll\<close> of at
  most 1 MiB and a strict decoder, or a decoder on the connection itself).

  A mux is the list of its patterns; every pattern of the program is a path of one segment without host
  and method.  The text of a decoder's error (\<open>fault\<close>) and the page of the Prometheus handler are
  parameters.  What \<open>net/http\<close> answers before it calls the mux (a malformed request line, the request
  \<open>OPTIONS *\<close>) is not part of it.
\<close>

section \<open>Definitions\<close>

text \<open>
  A request: the path as it was sent (escaped), the bytes of the body that arrive, and whether the
  connection breaks after them.
\<close>

record WireRequest =
  wr_Method :: string
  wr_EscapedPath :: string
  wr_Authorization :: string
  wr_Bytes :: string
  wr_Broken :: bool

subsection \<open>Bodies\<close>

definition body_limit :: nat where
  "body_limit = 2 ^ 20"

text \<open>\<open>io.ReadAll(io.LimitReader(r.Body, 1<<20))\<close>: an error after the limit is not met any more.\<close>

definition read_limited :: "WireRequest \<Rightarrow> string option" where
  "read_limited r =
     (if wr_Broken r \<and> length (wr_Bytes r) < body_limit then None else Some (take body_limit (wr_Bytes r)))"

definition read_strict :: "(string \<Rightarrow> string) \<Rightarrow> (string \<Rightarrow> 'a option) \<Rightarrow> WireRequest \<Rightarrow> 'a body" where
  "read_strict fault dec r =
     (case read_limited r of
        None \<Rightarrow> ReadError
      | Some bytes \<Rightarrow> (case dec bytes of None \<Rightarrow> Malformed (fault bytes) | Some v \<Rightarrow> Decoded v))"

text \<open>
  \<open>json.NewDecoder(r.Body).Decode(&v)\<close>: the decoder reads on until its value is complete.  The operator
  handlers give all errors the same answer.
\<close>

definition read_operator :: "WireRequest \<Rightarrow> operatorRequest body" where
  "read_operator r = (case Decode_operator (wr_Bytes r) of None \<Rightarrow> Malformed [] | Some v \<Rightarrow> Decoded v)"

subsection \<open>Paths\<close>

text \<open>\<open>url.PathUnescape\<close>: \<open>None\<close> is the error.\<close>

fun url_PathUnescape :: "string \<Rightarrow> string option" where
  "url_PathUnescape [] = Some []"
| "url_PathUnescape (c # s) =
     (if c = CHR ''%'' then
        (case s of
           h # l # s' \<Rightarrow>
             if is_hex h \<and> is_hex l
             then map_option (Cons (char_of (16 * hex_value h + hex_value l))) (url_PathUnescape s') else None
         | _ \<Rightarrow> None)
      else map_option (Cons c) (url_PathUnescape s))"

definition pathUnescape :: "string \<Rightarrow> string" where
  "pathUnescape s = (case url_PathUnescape s of None \<Rightarrow> s | Some t \<Rightarrow> t)"

text \<open>\<open>path.Clean\<close> of a rooted path.\<close>

fun clean_segments :: "string list \<Rightarrow> string list \<Rightarrow> string list" where
  "clean_segments [] out = rev out"
| "clean_segments (p # ps) out =
     (if p = [] \<or> p = ''.'' then clean_segments ps out
      else if p = ''..'' then clean_segments ps (tl out)
      else clean_segments ps (p # out))"

definition join_segments :: "string list \<Rightarrow> string" where
  "join_segments ps = (if ps = [] then ''/'' else concat (map (Cons CHR ''/'') ps))"

definition path_Clean :: "string \<Rightarrow> string" where
  "path_Clean p = join_segments (clean_segments (strings_Split p CHR ''/'') [])"

definition cleanPath :: "string \<Rightarrow> string" where
  "cleanPath p =
     (if p = [] then ''/''
      else let p1 = (if hd p \<noteq> CHR ''/'' then CHR ''/'' # p else p); np = path_Clean p1 in
        if last p1 = CHR ''/'' \<and> np \<noteq> ''/'' then np @ ''/'' else np)"

subsection \<open>The mux\<close>

type_synonym mux = "(string \<times> (WireRequest \<Rightarrow> Response go)) list"

text \<open>The one segment of a path that has just one; it is unescaped before it is looked up.\<close>

definition mux_match :: "mux \<Rightarrow> string \<Rightarrow> (WireRequest \<Rightarrow> Response go) option" where
  "mux_match mux p =
     (case p of
        [] \<Rightarrow> None
      | c # seg \<Rightarrow>
          if c = CHR ''/'' \<and> seg \<noteq> [] \<and> CHR ''/'' \<notin> set seg then map_of mux (CHR ''/'' # pathUnescape seg) else None)"

definition ServeHTTP :: "mux \<Rightarrow> WireRequest \<Rightarrow> Response go" where
  "ServeHTTP mux r =
     (let p = wr_EscapedPath r; c = (if wr_Method r = ''CONNECT'' then p else cleanPath p) in
      if c \<noteq> p then RedirectHandler c
      else case mux_match mux p of None \<Rightarrow> NotFoundHandler | Some h \<Rightarrow> h r)"

text \<open>What a handler sees of the request: \<open>r.URL.Path\<close> is unescaped.\<close>

definition http_request :: "WireRequest \<Rightarrow> 'a body \<Rightarrow> 'a HTTPRequest" where
  "http_request r b =
     \<lparr>hr_Method = wr_Method r, hr_Path = pathUnescape (wr_EscapedPath r), hr_Authorization = wr_Authorization r, hr_Body = b\<rparr>"

subsection \<open>The patterns of the services\<close>

definition routes_usl :: "TenantPolicy list \<Rightarrow> CapabilityLattice list \<Rightarrow> (string \<Rightarrow> string) \<Rightarrow> mux" where
  "routes_usl tenants lattice fault =
     [(''/check'', \<lambda>r. muxUSL_check tenants lattice (http_request r (read_strict fault Decode_request r)))]"

definition routes_gre :: "TenantPolicy list \<Rightarrow> CapabilityLattice list \<Rightarrow> (string \<Rightarrow> string) \<Rightarrow> mux" where
  "routes_gre tenants lattice fault =
     [(''/run'', \<lambda>r. muxGRE_run tenants lattice (http_request r (read_strict fault Decode_request r)))]"

definition routes_ledger :: "string \<times> OperatorAuth \<Rightarrow> (string \<Rightarrow> string) \<Rightarrow> mux" where
  "routes_ledger state fault =
     [(''/export'', \<lambda>r. muxLedger state ExportCall),
      (''/verify'', \<lambda>r. muxLedger state VerifyExportCall),
      (''/append'', \<lambda>r. muxLedger state (AppendCall (http_request r (read_strict fault Decode_entry r))))]"

definition routes_drift :: mux where
  "routes_drift = [(''/score'', \<lambda>r. muxDrift_score)]"

definition routes_router :: "Server \<Rightarrow> (string \<Rightarrow> string) \<Rightarrow> (MetricCall list \<Rightarrow> string + string) \<Rightarrow> mux" where
  "routes_router server fault page =
     [(''/route'', \<lambda>r. muxRouter server (Route (http_request r (read_strict fault Decode_request r)))),
      (''/interrupt'', \<lambda>r. muxRouter server (InterruptCall (http_request r (read_operator r)))),
      (''/correct'', \<lambda>r. muxRouter server (CorrectCall (http_request r (read_operator r)))),
      (''/terminate'', \<lambda>r. muxRouter server (TerminateCall (http_request r (read_operator r)))),
      (''/verify'', \<lambda>r. muxRouter server VerifyCall),
      (''/ledger'', \<lambda>r. muxRouter server LedgerCall),
      (''/workflow'', \<lambda>r. muxRouter server (WorkflowCall (http_request r (read_strict fault Decode_workflow r)))),
      (''/metrics'', \<lambda>r. muxRouter server (MetricsCall page))]"

text \<open>\<open>runHTTP\<close> adds the health check to the mux it is given.\<close>

definition runHTTP :: "mux \<Rightarrow> mux" where
  "runHTTP mux = mux @ [(''/healthz'', \<lambda>r. healthzHandler)]"

section \<open>Facts\<close>

lemma ServeHTTP_cases:
  obtains h p where "(p, h) \<in> set mux" "ServeHTTP mux r = h r" "p = CHR ''/'' # pathUnescape (tl (wr_EscapedPath r))"
  | "ServeHTTP mux r = NotFoundHandler" | c where "ServeHTTP mux r = RedirectHandler c"
proof (cases "wr_Method r = ''CONNECT'' \<or> cleanPath (wr_EscapedPath r) = wr_EscapedPath r")
  case True
  then have serve: "ServeHTTP mux r = (case mux_match mux (wr_EscapedPath r) of None \<Rightarrow> NotFoundHandler | Some h \<Rightarrow> h r)"
    by (auto simp: ServeHTTP_def Let_def)
  show ?thesis
  proof (cases "mux_match mux (wr_EscapedPath r)")
    case None
    then show ?thesis using serve that(2) by simp
  next
    case (Some h)
    then have "(CHR ''/'' # pathUnescape (tl (wr_EscapedPath r)), h) \<in> set mux"
      by (auto simp: mux_match_def dest!: map_of_SomeD split: list.splits if_splits)
    then show ?thesis using Some serve that(1) by auto
  qed
next
  case False
  then have "ServeHTTP mux r = RedirectHandler (cleanPath (wr_EscapedPath r))"
    by (auto simp: ServeHTTP_def Let_def)
  then show ?thesis by (rule that(3))
qed

text \<open>Every request on the wire is one of the goroutines of the service.\<close>

lemma wire_endpoint:
  "ServeHTTP (runHTTP (routes_router (make_Server ts lat token) fault page)) r \<in> endpoints ts lat token"
proof -
  have call: "muxRouter (make_Server ts lat token) c \<in> endpoints ts lat token" for c
    by (simp add: endpoints_def)
  have registered: "h r \<in> endpoints ts lat token"
    if "(p, h) \<in> set (runHTTP (routes_router (make_Server ts lat token) fault page))" for p h
    using that call [of HealthCall] unfolding runHTTP_def routes_router_def muxRouter.simps(9)
    by (auto intro: call simp del: muxRouter.simps)
  show ?thesis
    by (rule ServeHTTP_cases [of "runHTTP (routes_router (make_Server ts lat token) fault page)" r])
      (use registered call [of UnknownPath] call [of "UncleanPath _"] in simp_all)
qed

text \<open>
  The specification of the router service's paths: which call a request makes.  Only a path of one segment
  is served, in clear or escaped, and each of the nine has its own call; a path that is not clean is redirected,
  unless the method is \<open>CONNECT\<close>, and everything else is not found.
\<close>

definition segment_call :: "(string \<Rightarrow> string) \<Rightarrow> (MetricCall list \<Rightarrow> string + string) \<Rightarrow> WireRequest \<Rightarrow> string \<Rightarrow> call" where
  "segment_call fault page r seg =
     (if seg = ''interrupt'' then InterruptCall (http_request r (read_operator r))
      else if seg = ''terminate'' then TerminateCall (http_request r (read_operator r))
      else if seg = ''correct'' then CorrectCall (http_request r (read_operator r))
      else if seg = ''route'' then Route (http_request r (read_strict fault Decode_request r))
      else if seg = ''workflow'' then WorkflowCall (http_request r (read_strict fault Decode_workflow r))
      else if seg = ''ledger'' then LedgerCall else if seg = ''verify'' then VerifyCall
      else if seg = ''metrics'' then MetricsCall page else if seg = ''healthz'' then HealthCall else UnknownPath)"

definition wire_call :: "(string \<Rightarrow> string) \<Rightarrow> (MetricCall list \<Rightarrow> string + string) \<Rightarrow> WireRequest \<Rightarrow> call" where
  "wire_call fault page r =
     (let p = wr_EscapedPath r in
      if wr_Method r \<noteq> ''CONNECT'' \<and> cleanPath p \<noteq> p then UncleanPath (cleanPath p)
      else if p \<noteq> [] \<and> hd p = CHR ''/'' \<and> tl p \<noteq> [] \<and> CHR ''/'' \<notin> set (tl p)
        then segment_call fault page r (pathUnescape (tl p))
      else UnknownPath)"

lemma map_of_routes:
  "(case map_of (runHTTP (routes_router s fault page)) (CHR ''/'' # seg) of None \<Rightarrow> NotFoundHandler | Some h \<Rightarrow> h r) =
     muxRouter s (segment_call fault page r seg)"
  by (simp add: runHTTP_def routes_router_def segment_call_def)

lemma wire_serves: "ServeHTTP (runHTTP (routes_router s fault page)) r = muxRouter s (wire_call fault page r)"
proof (cases "wr_EscapedPath r")
  case Nil
  then show ?thesis by (simp add: ServeHTTP_def wire_call_def mux_match_def cleanPath_def Let_def)
next
  case (Cons c seg)
  then show ?thesis
    using map_of_routes [where s = s and fault = fault and page = page and seg = "pathUnescape seg" and r = r] by (simp add: ServeHTTP_def wire_call_def mux_match_def Let_def)
qed

lemma clean_segment:
  "cleanPath ''/interrupt'' = ''/interrupt''" "cleanPath ''/terminate'' = ''/terminate''"
  by (simp_all add: cleanPath_def path_Clean_def join_segments_def Let_def)

text \<open>A registered path reaches its handler, in clear or escaped.\<close>

lemma ServeHTTP_route:
  assumes "cleanPath (wr_EscapedPath r) = wr_EscapedPath r" and "mux_match mux (wr_EscapedPath r) = Some h"
  shows "ServeHTTP mux r = h r"
  using assms by (simp add: ServeHTTP_def Let_def)

lemma wire_route_path:
  assumes "wr_EscapedPath r = ''/route''"
  shows "ServeHTTP (runHTTP (routes_router s fault page)) r = RouteHandler s (http_request r (read_strict fault Decode_request r))"
proof -
  have "cleanPath ''/route'' = ''/route''"
    by (simp add: cleanPath_def path_Clean_def join_segments_def Let_def)
  moreover have "mux_match (runHTTP (routes_router s fault page)) ''/route'' =
      Some (\<lambda>r. RouteHandler s (http_request r (read_strict fault Decode_request r)))"
    by (simp add: mux_match_def pathUnescape_def runHTTP_def routes_router_def)
  ultimately show ?thesis using ServeHTTP_route assms by metis
qed




text \<open>Handlers that refuse a request do nothing else.\<close>

lemma quiet_RouteHandler: "hr_Method r \<noteq> ''POST'' \<or> (\<forall>q. hr_Body r \<noteq> Decoded q) \<Longrightarrow> quiet (RouteHandler s r)"
  by (cases "hr_Body r") (auto simp: RouteHandler_def intro: quiet_respond)

lemma quiet_workflowHandler: "hr_Method r \<noteq> ''POST'' \<or> (\<forall>q. hr_Body r \<noteq> Decoded q) \<Longrightarrow> quiet (workflowHandler ws r)"
  by (cases "hr_Body r") (auto simp: workflowHandler_def intro: quiet_respond)

lemma quiet_operator_handlers:
  assumes "\<nexists>ir. operator_accepts s r ir \<and> or_IntentID ir \<noteq> [] \<and> or_OperatorID ir \<noteq> []"
  shows "quiet (InterruptHandler s r)" "quiet (CorrectHandler s r)" "quiet (TerminateHandler s r)"
proof -
  have frame: "quiet (operator_frame s r filled missing act)" if "\<nexists>ir. operator_accepts s r ir \<and> filled ir" for filled missing act
    using operator_frame_cases [of s r filled missing act] that by (auto simp: quiet_respond)
  show "quiet (InterruptHandler s r)" "quiet (CorrectHandler s r)" "quiet (TerminateHandler s r)"
    unfolding InterruptHandler_def CorrectHandler_def TerminateHandler_def by (rule frame, use assms in blast)+
qed

section \<open>Properties\<close>

text \<open>
  C13: a client's request is what the router admits or denies: the JSON text of a request, posted to
  \<open>/route\<close> and not longer than 1 MiB, is decoded to exactly that request, the payload included byte by
  byte, and handed to \<open>Admit\<close>; whatever is sent after the text is not looked at.
\<close>

theorem wire_request_admitted:
  assumes "request_ok p ms q" and "length (request_text p ms q) \<le> body_limit"
    and "wr_Method r = ''POST''" and "wr_EscapedPath r = ''/route''" and "wr_Bytes r = request_text p ms q @ x"
    and "\<not> wr_Broken r"
  shows "ServeHTTP (runHTTP (routes_router s fault page)) r =
    bindP (Router_Admit (sv_router s) q) (\<lambda>(out, err).
      respond (route_status out err) (BRoute (ao_Decision out) (ao_Entry out) q))"
proof -
  have "take body_limit (wr_Bytes r) = request_text p ms q @ take (body_limit - length (request_text p ms q)) x"
    using assms(2,5) by simp
  then have "read_strict fault Decode_request r = Decoded q"
    using assms(6) by (simp add: read_strict_def read_limited_def Decode_request_text [OF assms(1)])
  then show ?thesis using assms(3) unfolding wire_route_path [OF assms(4)] by (simp add: RouteHandler_def http_request_def)
qed

lemma zero_request_ok: "request_ok None [] zero_CapabilityRequest"
  by (simp add: request_ok_def zero_CapabilityRequest_def zero_CapabilityClass_def zero_ModelRef_def capability_utf8_def model_utf8_def)

lemma zero_request_length: "length (request_text None [] zero_CapabilityRequest) \<le> body_limit"
  by (simp add: request_text_def request_members_def basic_members_def zero_CapabilityRequest_def zero_CapabilityClass_def
      zero_ModelRef_def capability_json_def model_json_def unless_empty_def json_fields_def json_quote_def
      json_chars.simps json_escape_ascii_def body_limit_def)

theorem wire_request_admitted_witness:
  "\<forall>s page. ServeHTTP (runHTTP (routes_router s (\<lambda>b. b) page))
     \<lparr>wr_Method = ''POST'', wr_EscapedPath = ''/route'', wr_Authorization = [],
      wr_Bytes = request_text None [] zero_CapabilityRequest @ ''; more'', wr_Broken = False\<rparr> =
    bindP (Router_Admit (sv_router s) zero_CapabilityRequest) (\<lambda>(out, err).
      respond (route_status out err) (BRoute (ao_Decision out) (ao_Entry out) zero_CapabilityRequest))"
  by (intro allI wire_request_admitted [OF zero_request_ok zero_request_length]) simp_all




text \<open>
  C12: a request that changes anything (the metrics aside) is a POST: to \<open>/route\<close> or \<open>/workflow\<close> with a body
  that was decoded, or to one of the operator paths with the operator token, an intent and an operator.
\<close>

definition may_change :: "Server \<Rightarrow> WireRequest \<Rightarrow> bool" where
  "may_change s r \<longleftrightarrow>
     wr_Method r = ''POST'' \<and>
     (let path = CHR ''/'' # pathUnescape (tl (wr_EscapedPath r)) in
      path = ''/route'' \<and> Option.bind (read_limited r) Decode_request \<noteq> None
      \<or> path = ''/workflow'' \<and> Option.bind (read_limited r) Decode_workflow \<noteq> None
      \<or> path \<in> {''/interrupt'', ''/correct'', ''/terminate''} \<and> Authorized (sv_auth s) (wr_Authorization r)
        \<and> (\<exists>ir. Decode_operator (wr_Bytes r) = Some ir \<and> or_IntentID ir \<noteq> [] \<and> or_OperatorID ir \<noteq> []))"

theorem effects_need_a_post:
  assumes "\<not> may_change s r"
  shows "quiet (ServeHTTP (runHTTP (routes_router s fault page)) r)"
proof (cases rule: ServeHTTP_cases [of "runHTTP (routes_router s fault page)" r])
  case (1 h p)
  have body: "wr_Method r \<noteq> ''POST'' \<or> (\<forall>v. read_strict fault dec r \<noteq> Decoded v)"
    if "wr_Method r = ''POST'' \<Longrightarrow> Option.bind (read_limited r) dec = None" for dec :: "string \<Rightarrow> 'z option"
    using that by (cases "read_limited r") (auto simp: read_strict_def split: option.splits)
  have reads: "quiet VerifyHandler" "quiet LedgerHandler" "quiet (metricsHandler page)" "quiet healthzHandler"
    unfolding VerifyHandler_def LedgerHandler_def metricsHandler_def healthzHandler_def
    by (auto intro!: quiet_intros split: sum.splits)
  from 1(1) consider (route) "p = ''/route''" "h = (\<lambda>r. RouteHandler s (http_request r (read_strict fault Decode_request r)))"
    | (interrupt) "p = ''/interrupt''" "h = (\<lambda>r. InterruptHandler s (http_request r (read_operator r)))"
    | (correct) "p = ''/correct''" "h = (\<lambda>r. CorrectHandler s (http_request r (read_operator r)))"
    | (terminate) "p = ''/terminate''" "h = (\<lambda>r. TerminateHandler s (http_request r (read_operator r)))"
    | (workflow) "p = ''/workflow''" "h = (\<lambda>r. workflowHandler (NewWorkflowService (sv_router s)) (http_request r (read_strict fault Decode_workflow r)))"
    | (plain) "h r \<in> {VerifyHandler, LedgerHandler, metricsHandler page, healthzHandler}"
    unfolding runHTTP_def routes_router_def by fastforce
  then show ?thesis
  proof cases
    case route
    then have "wr_Method r = ''POST'' \<Longrightarrow> Option.bind (read_limited r) Decode_request = None"
      using 1(3) assms by (simp add: may_change_def Let_def del: not_None_eq)
    from body [OF this] show ?thesis
      using 1(2) route(2) by (simp add: quiet_RouteHandler http_request_def)
  next
    case workflow
    then have "wr_Method r = ''POST'' \<Longrightarrow> Option.bind (read_limited r) Decode_workflow = None"
      using 1(3) assms by (simp add: may_change_def Let_def del: not_None_eq)
    from body [OF this] show ?thesis
      using 1(2) workflow(2) by (simp add: quiet_workflowHandler http_request_def)
  qed (use 1 assms reads in \<open>auto simp: may_change_def Let_def http_request_def read_operator_def operator_accepts_def
      intro!: quiet_operator_handlers split: option.splits\<close>)
next
  case 2
  then show ?thesis by (simp add: NotFoundHandler_def quiet_respond)
next
  case (3 c)
  then show ?thesis by (simp add: RedirectHandler_def quiet_respond)
qed

theorem effects_need_a_post_witness:
  "\<forall>s page bytes. quiet (ServeHTTP (runHTTP (routes_router s (\<lambda>b. b) page))
     \<lparr>wr_Method = ''GET'', wr_EscapedPath = ''/route'', wr_Authorization = [], wr_Bytes = bytes, wr_Broken = False\<rparr>)"
  by (intro allI effects_need_a_post) (simp add: may_change_def)

end
