(* ===== verification/ConfigFile.thy ===== *)
theory ConfigFile
  imports Config GoAssign
begin

text \<open>
  The configuration file: \<open>json.Unmarshal\<close> into a \<open>Config\<close>, and \<open>LoadConfig\<close> on the bytes of the file.

  \<open>Unmarshal\<close> checks the syntax of the whole text first; after that it goes on when a value has the wrong
  kind, leaves the variable as it is and reports the first such error at the end.  \<open>LoadConfig\<close> ignores
  the error, so what has been decoded is the configuration: the setters here are total, a \<open>soft\<close> setter
  changes nothing where the strict one fails.

  The facts show that a configuration written as JSON is loaded as it is, and what a value of the wrong
  kind leaves behind.
\<close>

section \<open>Decoding that goes on after a type error\<close>

definition soft :: "(jdata \<Rightarrow> 'a \<Rightarrow> 'a option) \<Rightarrow> jdata \<Rightarrow> 'a \<Rightarrow> 'a" where
  "soft dec v x = (case dec v x of None \<Rightarrow> x | Some y \<Rightarrow> y)"

definition soft_field :: "(jdata \<Rightarrow> 'a \<Rightarrow> 'a) \<Rightarrow> ('r \<Rightarrow> 'a) \<Rightarrow> ('a \<Rightarrow> 'r \<Rightarrow> 'r) \<Rightarrow> jdata \<Rightarrow> 'r \<Rightarrow> 'r" where
  "soft_field dec get put v r = put (dec v (get r)) r"

fun soft_members :: "(string \<times> (jdata \<Rightarrow> 'r \<Rightarrow> 'r)) list \<Rightarrow> (string \<times> jdata) list \<Rightarrow> 'r \<Rightarrow> 'r" where
  "soft_members fs [] r = r"
| "soft_members fs ((raw, v) # kvs) r =
     soft_members fs kvs (case find_field fs (unquote raw) of None \<Rightarrow> r | Some f \<Rightarrow> f v r)"

fun soft_struct :: "(string \<times> (jdata \<Rightarrow> 'r \<Rightarrow> 'r)) list \<Rightarrow> jdata \<Rightarrow> 'r \<Rightarrow> 'r" where
  "soft_struct fs (DObj kvs) r = soft_members fs kvs r"
| "soft_struct fs _ r = r"

fun soft_elements :: "(jdata \<Rightarrow> 'r \<Rightarrow> 'r) \<Rightarrow> 'r \<Rightarrow> jdata list \<Rightarrow> 'r list \<Rightarrow> 'r list" where
  "soft_elements dec zero [] olds = []"
| "soft_elements dec zero (v # vs) olds =
     dec v (case olds of [] \<Rightarrow> zero | r # _ \<Rightarrow> r) # soft_elements dec zero vs (tl olds)"

fun soft_slice :: "(jdata \<Rightarrow> 'r \<Rightarrow> 'r) \<Rightarrow> 'r \<Rightarrow> jdata \<Rightarrow> 'r list \<Rightarrow> 'r list" where
  "soft_slice dec zero DNull old = []"
| "soft_slice dec zero (DArr vs) old = soft_elements dec zero vs old"
| "soft_slice dec zero _ old = old"

fun soft_entries :: "(jdata \<Rightarrow> 'a \<Rightarrow> 'a) \<Rightarrow> 'a \<Rightarrow> (string \<times> jdata) list \<Rightarrow> (string \<rightharpoonup> 'a) \<Rightarrow> (string \<rightharpoonup> 'a)" where
  "soft_entries dec zero [] m = m"
| "soft_entries dec zero ((raw, v) # kvs) m = soft_entries dec zero kvs (m(unquote raw \<mapsto> dec v zero))"

fun soft_map :: "(jdata \<Rightarrow> 'a \<Rightarrow> 'a) \<Rightarrow> 'a \<Rightarrow> jdata \<Rightarrow> (string \<rightharpoonup> 'a) \<Rightarrow> (string \<rightharpoonup> 'a)" where
  "soft_map dec zero DNull m = Map.empty"
| "soft_map dec zero (DObj kvs) m = soft_entries dec zero kvs m"
| "soft_map dec zero _ m = m"

section \<open>The configuration\<close>

abbreviation "soft_string \<equiv> soft dec_string"
abbreviation "soft_bool \<equiv> soft dec_bool"
abbreviation "soft_strings \<equiv> soft_slice soft_string []"

definition zero_LegacyTenant :: LegacyTenant where
  "zero_LegacyTenant =
     \<lparr>lt_TenantID = [], lt_Name = [], lt_MLCALane = [], lt_AllowedCapabilityClasses = [], lt_RequiresOperatorApproval = False,
      lt_IdentitySeparation = False, lt_RoutingPolicy = [], lt_AllowedProviders = [], lt_KeyRefs = Map.empty,
      lt_OperatorIDs = [], lt_CorrigibilityUnconditional = False\<rparr>"

text \<open>The three anonymous structures of a tenant are decoded in place.\<close>

definition capability_policy_fields :: "(string \<times> (jdata \<Rightarrow> LegacyTenant \<Rightarrow> LegacyTenant)) list" where
  "capability_policy_fields =
     [(''allowed_capability_classes'', soft_field soft_strings lt_AllowedCapabilityClasses
         (\<lambda>x r. r\<lparr>lt_AllowedCapabilityClasses := x\<rparr>)),
      (''requires_operator_approval'', soft_field soft_bool lt_RequiresOperatorApproval
         (\<lambda>x r. r\<lparr>lt_RequiresOperatorApproval := x\<rparr>)),
      (''identity_separation'', soft_field soft_bool lt_IdentitySeparation (\<lambda>x r. r\<lparr>lt_IdentitySeparation := x\<rparr>))]"

definition model_routing_fields :: "(string \<times> (jdata \<Rightarrow> LegacyTenant \<Rightarrow> LegacyTenant)) list" where
  "model_routing_fields =
     [(''policy'', soft_field soft_string lt_RoutingPolicy (\<lambda>x r. r\<lparr>lt_RoutingPolicy := x\<rparr>)),
      (''allowed_providers'', soft_field soft_strings lt_AllowedProviders (\<lambda>x r. r\<lparr>lt_AllowedProviders := x\<rparr>)),
      (''key_refs'', soft_field (soft_map soft_string []) lt_KeyRefs (\<lambda>x r. r\<lparr>lt_KeyRefs := x\<rparr>))]"

definition operator_sovereignty_fields :: "(string \<times> (jdata \<Rightarrow> LegacyTenant \<Rightarrow> LegacyTenant)) list" where
  "operator_sovereignty_fields =
     [(''operator_ids'', soft_field soft_strings lt_OperatorIDs (\<lambda>x r. r\<lparr>lt_OperatorIDs := x\<rparr>)),
      (''corrigibility_unconditional'', soft_field soft_bool lt_CorrigibilityUnconditional
         (\<lambda>x r. r\<lparr>lt_CorrigibilityUnconditional := x\<rparr>))]"

definition tenant_fields :: "(string \<times> (jdata \<Rightarrow> LegacyTenant \<Rightarrow> LegacyTenant)) list" where
  "tenant_fields =
     [(''tenant_id'', soft_field soft_string lt_TenantID (\<lambda>x r. r\<lparr>lt_TenantID := x\<rparr>)),
      (''name'', soft_field soft_string lt_Name (\<lambda>x r. r\<lparr>lt_Name := x\<rparr>)),
      (''mlca_lane'', soft_field soft_string lt_MLCALane (\<lambda>x r. r\<lparr>lt_MLCALane := x\<rparr>)),
      (''capability_policy'', soft_struct capability_policy_fields),
      (''model_routing'', soft_struct model_routing_fields),
      (''operator_sovereignty'', soft_struct operator_sovereignty_fields)]"

definition governance_fields :: "(string \<times> (jdata \<Rightarrow> Config \<Rightarrow> Config)) list" where
  "governance_fields =
     [(''voss_binding'', soft_field soft_strings cf_VossBinding (\<lambda>x r. r\<lparr>cf_VossBinding := x\<rparr>)),
      (''usl_gate_enforced'', soft_field soft_bool cf_USLGateEnforced (\<lambda>x r. r\<lparr>cf_USLGateEnforced := x\<rparr>)),
      (''ledger_required'', soft_field soft_bool cf_LedgerRequired (\<lambda>x r. r\<lparr>cf_LedgerRequired := x\<rparr>))]"

text \<open>An element of \<open>mlca_lanes\<close> is a structure of one field, its description.\<close>

definition config_fields :: "(string \<times> (jdata \<Rightarrow> Config \<Rightarrow> Config)) list" where
  "config_fields =
     [(''version'', soft_field soft_string cf_Version (\<lambda>x r. r\<lparr>cf_Version := x\<rparr>)),
      (''tenants'', soft_field (soft_slice (soft_struct tenant_fields) zero_LegacyTenant) cf_Tenants
                      (\<lambda>x r. r\<lparr>cf_Tenants := x\<rparr>)),
      (''mlca_lanes'', soft_field (soft_map (soft_struct [(''description'', soft_string)]) []) cf_MLCALanes
                         (\<lambda>x r. r\<lparr>cf_MLCALanes := x\<rparr>)),
      (''governance'', soft_struct governance_fields)]"

text \<open>The variable after \<open>json.Unmarshal(data, &cfg)\<close>, error or not.\<close>

definition Unmarshal_Config :: "string \<Rightarrow> Config" where
  "Unmarshal_Config data =
     (case json_parse data of None \<Rightarrow> zero_Config | Some v \<Rightarrow> soft_struct config_fields v zero_Config)"

section \<open>A configuration as JSON\<close>

definition strings_json :: "string list \<Rightarrow> json" where
  "strings_json ss = JArr (map JStr ss)"

definition bindings :: "(string \<rightharpoonup> 'a) \<Rightarrow> (string \<times> 'a) list" where
  "bindings m = map (\<lambda>k. (k, the (m k))) (sorted_list_of_set (dom m))"

definition tenant_json :: "json \<Rightarrow> LegacyTenant \<Rightarrow> json" where
  "tenant_json operators t =
     JObj [(''tenant_id'', JStr (lt_TenantID t)), (''name'', JStr (lt_Name t)), (''mlca_lane'', JStr (lt_MLCALane t)),
       (''capability_policy'',
          JObj [(''allowed_capability_classes'', strings_json (lt_AllowedCapabilityClasses t)),
                (''requires_operator_approval'', JBool (lt_RequiresOperatorApproval t)),
                (''identity_separation'', JBool (lt_IdentitySeparation t))]),
       (''model_routing'',
          JObj [(''policy'', JStr (lt_RoutingPolicy t)), (''allowed_providers'', strings_json (lt_AllowedProviders t)),
                (''key_refs'', JMap (map (apsnd JStr) (bindings (lt_KeyRefs t))))]),
       (''operator_sovereignty'',
          JObj [(''operator_ids'', operators), (''corrigibility_unconditional'', JBool (lt_CorrigibilityUnconditional t))])]"

definition config_json :: "(LegacyTenant \<Rightarrow> json) \<Rightarrow> Config \<Rightarrow> json" where
  "config_json operators c =
     JObj [(''version'', JStr (cf_Version c)), (''tenants'', JArr (map (\<lambda>t. tenant_json (operators t) t) (cf_Tenants c))),
       (''mlca_lanes'', JMap (map (apsnd (\<lambda>d. JObj [(''description'', JStr d)])) (bindings (cf_MLCALanes c)))),
       (''governance'',
          JObj [(''voss_binding'', strings_json (cf_VossBinding c)), (''usl_gate_enforced'', JBool (cf_USLGateEnforced c)),
                (''ledger_required'', JBool (cf_LedgerRequired c))])]"

section \<open>Facts\<close>

declare json_chars.simps(2) [simp del]

lemma soft_simps [simp]:
  "soft_string (DStr raw) x = unquote raw" "soft_bool (DBool b) y = b"
  by (simp_all add: soft_def)

lemma soft_members_Cons:
  "utf8_valid k \<Longrightarrow> map_of fs k = Some f \<Longrightarrow>
     soft_members fs ((json_chars k, v) # kvs) r = soft_members fs kvs (f v r)"
  by (simp add: unquote_json_chars find_field_def)

lemmas soft_codec = soft_members_Cons unquote_json_chars soft_field_def

lemma soft_strings_json: "list_all utf8_valid ss \<Longrightarrow> soft_strings (raw_tree (strings_json ss)) [] = ss"
proof -
  have "soft_elements soft_string [] (map (raw_tree \<circ> JStr) ss) [] = ss" if "list_all utf8_valid ss"
    using that by (induction ss) (simp_all add: unquote_json_chars)
  then show "list_all utf8_valid ss \<Longrightarrow> ?thesis" by (simp add: strings_json_def)
qed

lemma bindings_props:
  assumes "finite (dom m)"
  shows "map_of (bindings m) = m" "distinct (map fst (bindings m))" "(k, x) \<in> set (bindings m) \<longleftrightarrow> m k = Some x"
proof -
  show "map_of (bindings m) = m"
  proof
    fix k
    show "map_of (bindings m) k = m k"
      using assms unfolding bindings_def by (cases "m k") (auto simp: map_of_map_restrict restrict_map_def)
  qed
  show "distinct (map fst (bindings m))" using assms by (simp add: bindings_def comp_def)
  show "(k, x) \<in> set (bindings m) \<longleftrightarrow> m k = Some x" using assms by (force simp: bindings_def)
qed

lemma soft_entries_fold:
  "(\<And>k x. (k, x) \<in> set kxs \<Longrightarrow> utf8_valid k \<and> dec (raw_tree (enc x)) zero = x) \<Longrightarrow>
     soft_entries dec zero (map (\<lambda>(k, x). (json_chars k, raw_tree (enc x))) kxs) m = m ++ map_of (rev kxs)"
proof (induction kxs arbitrary: m)
  case (Cons kx kxs)
  obtain k x where kx: "kx = (k, x)" by (cases kx)
  have "utf8_valid k" "dec (raw_tree (enc x)) zero = x" using Cons.prems [of k x] by (simp_all add: kx)
  moreover have "soft_entries dec zero (map (\<lambda>(k, x). (json_chars k, raw_tree (enc x))) kxs) (m(k \<mapsto> x)) = m(k \<mapsto> x) ++ map_of (rev kxs)"
    by (rule Cons.IH) (use Cons.prems in auto)
  ultimately show ?case by (simp add: kx unquote_json_chars del: fun_upd_apply)
qed simp

lemma soft_map_bindings:
  assumes "finite (dom m)" and "\<And>k x. m k = Some x \<Longrightarrow> utf8_valid k \<and> dec (raw_tree (enc x)) zero = x"
  shows "soft_map dec zero (raw_tree (JMap (map (apsnd enc) (bindings m)))) Map.empty = m"
proof -
  let ?kxs = "sort_keys (bindings m)"
  have "raw_tree (JMap (map (apsnd enc) (bindings m))) = DObj (map (\<lambda>(k, x). (json_chars k, raw_tree (enc x))) ?kxs)"
  proof -
    have "map (\<lambda>(k, v). (k, raw_tree v)) (map (apsnd enc) (bindings m)) = map (\<lambda>(k, x). (k, raw_tree (enc x))) (bindings m)"
      by (simp add: case_prod_beta' apsnd_def map_prod_def)
    then show ?thesis
      unfolding raw_tree.simps(7) by (simp only: sort_keys_map [where f = "\<lambda>x. raw_tree (enc x)"]) (simp add: case_prod_beta')
  qed
  moreover have "map_of (rev ?kxs) = map_of (bindings m)"
    using bindings_props(2) [OF assms(1)] by (subst map_of_inject_set) (simp_all add: sort_keys_def distinct_map rev_map)
  ultimately show ?thesis
    using soft_entries_fold [of ?kxs dec enc zero Map.empty] assms(2) bindings_props [OF assms(1)] by simp
qed

definition tenant_ok :: "LegacyTenant \<Rightarrow> bool" where
  "tenant_ok t \<longleftrightarrow>
     list_all utf8_valid [lt_TenantID t, lt_Name t, lt_MLCALane t, lt_RoutingPolicy t]
     \<and> list_all utf8_valid (lt_AllowedCapabilityClasses t) \<and> list_all utf8_valid (lt_AllowedProviders t)
     \<and> list_all utf8_valid (lt_OperatorIDs t)
     \<and> finite (dom (lt_KeyRefs t)) \<and> (\<forall>k x. lt_KeyRefs t k = Some x \<longrightarrow> utf8_valid k \<and> utf8_valid x)"

definition config_ok :: "Config \<Rightarrow> bool" where
  "config_ok c \<longleftrightarrow>
     utf8_valid (cf_Version c) \<and> list_all tenant_ok (cf_Tenants c) \<and> list_all utf8_valid (cf_VossBinding c)
     \<and> finite (dom (cf_MLCALanes c)) \<and> (\<forall>k x. cf_MLCALanes c k = Some x \<longrightarrow> utf8_valid k \<and> utf8_valid x)"

text \<open>
  A tenant is loaded as it is, but for its operators: they come out as what the setter of a string slice
  makes of their value.
\<close>

lemma soft_tenant_json:
  assumes "tenant_ok t"
  shows "soft_struct tenant_fields (raw_tree (tenant_json operators t)) zero_LegacyTenant =
    t\<lparr>lt_OperatorIDs := soft_strings (raw_tree operators) []\<rparr>"
proof -
  have refs: "soft_map soft_string [] (raw_tree (JMap (map (apsnd JStr) (bindings (lt_KeyRefs t))))) Map.empty = lt_KeyRefs t"
    using assms by (intro soft_map_bindings) (auto simp: tenant_ok_def unquote_json_chars)
  show ?thesis
    using assms refs
    by (cases t)
      (simp add: tenant_ok_def tenant_json_def tenant_fields_def capability_policy_fields_def model_routing_fields_def
        operator_sovereignty_fields_def zero_LegacyTenant_def soft_codec soft_strings_json
        del: soft_members.simps(2) soft_slice.simps soft_map.simps raw_tree.simps(7))
qed

lemma soft_tenants:
  "list_all tenant_ok ts \<Longrightarrow>
     soft_slice (soft_struct tenant_fields) zero_LegacyTenant (raw_tree (JArr (map (\<lambda>t. tenant_json (operators t) t) ts))) [] =
     map (\<lambda>t. t\<lparr>lt_OperatorIDs := soft_strings (raw_tree (operators t)) []\<rparr>) ts"
  by (induction ts) (simp_all add: soft_tenant_json)

lemma soft_config_json:
  assumes "config_ok c"
  shows "soft_struct config_fields (raw_tree (config_json operators c)) zero_Config =
    c\<lparr>cf_Tenants := map (\<lambda>t. t\<lparr>lt_OperatorIDs := soft_strings (raw_tree (operators t)) []\<rparr>) (cf_Tenants c)\<rparr>"
proof -
  let ?lane = "\<lambda>d. JObj [(''description'', JStr d)]"
  have "soft_map (soft_struct [(''description'', soft_string)]) []
      (raw_tree (JMap (map (apsnd ?lane) (bindings (cf_MLCALanes c))))) Map.empty = cf_MLCALanes c"
    using assms
    by (intro soft_map_bindings)
      (auto simp: config_ok_def soft_codec simp del: soft_members.simps(2))
  then show ?thesis
    using assms soft_tenants [of "cf_Tenants c" operators]
    by (cases c)
      (simp add: config_ok_def config_json_def config_fields_def governance_fields_def zero_Config_def soft_codec soft_strings_json
        del: soft_members.simps(2) soft_slice.simps soft_map.simps raw_tree.simps(5,7))
qed

text \<open>Any text of it will do: compact, indented, or with a byte-order mark before it.\<close>

lemma config_tree:
  assumes "\<And>t. t \<in> set (cf_Tenants c) \<Longrightarrow> json_numbers (operators t) \<and> nests 1 (operators t)"
  shows "json_numbers (config_json operators c)" "nests maxNestingDepth (config_json operators c)"
proof -
  have strings: "json_numbers (strings_json ss)" "nests 1 (strings_json ss)" for ss
    by (auto simp: strings_json_def)
  show "json_numbers (config_json operators c)"
    using assms strings by (auto simp: config_json_def tenant_json_def apsnd_def map_prod_def)
  have "nests 5 (config_json operators c)"
    using assms strings
    by (auto simp: config_json_def tenant_json_def apsnd_def map_prod_def eval_nat_numeral intro: nests_mono)
  then show "nests maxNestingDepth (config_json operators c)" by (rule nests_mono) (simp add: maxNestingDepth_def)
qed

lemma Unmarshal_config:
  assumes "config_ok c" and "\<And>t. t \<in> set (cf_Tenants c) \<Longrightarrow> json_numbers (operators t) \<and> nests 1 (operators t)"
    and "data = json_text (config_json operators c) \<or> data = json_indent 0 (config_json operators c)"
  shows "Unmarshal_Config data =
    c\<lparr>cf_Tenants := map (\<lambda>t. t\<lparr>lt_OperatorIDs := soft_strings (raw_tree (operators t)) []\<rparr>) (cf_Tenants c)\<rparr>"
proof -
  note tree = config_tree [of c operators, OF assms(2)]
  have "json_parse data = Some (raw_tree (config_json operators c))"
    using assms(3) parse_text [OF tree] parse_indent [OF tree] by auto
  then show ?thesis by (simp add: Unmarshal_Config_def soft_config_json [OF assms(1)])
qed

text \<open>The file of a configuration: compact or indented, with or without a byte-order mark.\<close>

definition config_texts :: "Config \<Rightarrow> string set" where
  "config_texts c =
     (let v = config_json (\<lambda>t. strings_json (lt_OperatorIDs t)) c
      in {bom @ data | bom data. bom \<in> {[], utf8_bom} \<and> data \<in> {json_text v, json_indent 0 v}})"

lemma LoadConfig_text:
  assumes "config_ok c" and "readFile path = Some data" and "data \<in> config_texts c"
  shows "LoadConfig readFile Unmarshal_Config path = c"
proof -
  let ?ops = "\<lambda>t. strings_json (lt_OperatorIDs t)"
  let ?v = "config_json ?ops c"
  obtain bom body where split: "data = bom @ body" "bom = [] \<or> bom = utf8_bom" "body = json_text ?v \<or> body = json_indent 0 ?v"
    using assms(3) by (auto simp: config_texts_def Let_def)
  have "hd body = CHR 0x7B"
    using split(3) by (auto simp: config_json_def json_fields_def json_block_def)
  then have body: "fst (strings_CutPrefix data utf8_bom) = body"
    using split(1,2) by (cases body) (auto simp: strings_CutPrefix_def utf8_bom_def)
  have ops: "json_numbers (strings_json ss) \<and> nests 1 (strings_json ss)" for ss
    by (auto simp: strings_json_def)
  have "map (\<lambda>t. t\<lparr>lt_OperatorIDs := soft_strings (raw_tree (?ops t)) []\<rparr>) (cf_Tenants c) = cf_Tenants c"
    using assms(1) by (intro map_idI) (auto simp: config_ok_def list_all_iff tenant_ok_def soft_strings_json)
  then have "Unmarshal_Config body = c"
    using Unmarshal_config [OF assms(1), of ?ops body] split(3) ops by simp
  then show ?thesis using assms(2) body by (simp add: LoadConfig_def)
qed

text \<open>A file that is missing or no JSON is the empty configuration.\<close>

lemma LoadConfig_unusable:
  assumes "case readFile path of None \<Rightarrow> True | Some data \<Rightarrow> json_parse (fst (strings_CutPrefix data utf8_bom)) = None"
  shows "LoadConfig readFile Unmarshal_Config path = zero_Config"
  using assms by (auto simp: LoadConfig_def Unmarshal_Config_def split: option.splits)

text \<open>
  An operator list given as one string is an error that \<open>LoadConfig\<close> drops: the tenant comes out without
  a sovereign operator.
\<close>

lemma Unmarshal_operator_string:
  assumes "config_ok c"
  shows "Unmarshal_Config (json_text (config_json (\<lambda>_. JStr operator) c)) =
    c\<lparr>cf_Tenants := map (\<lambda>t. t\<lparr>lt_OperatorIDs := []\<rparr>) (cf_Tenants c)\<rparr>"
  using Unmarshal_config [OF assms, of "\<lambda>_. JStr operator"] by simp

end
