(* ===== verification/Boot.thy ===== *)
theory Boot
  imports Wire ConfigFile Samples
begin

text \<open>
  The process from its start: \<open>main\<close> calls \<open>RunService\<close>, which loads the configuration, builds the
  service of the mode and serves its mux.  The theory closes the gap between the deployment (environment,
  configuration file, bytes on the wire) and the service the other theories are about.
\<close>

section \<open>Definitions\<close>

declare json_chars.simps(2) [simp del]

text \<open>
  \<open>None\<close>: the process ends with \<open>log.Fatalf\<close> or a panic.  Otherwise the address and the mux that
  \<open>ListenAndServe\<close> gets.  The collectors' registry and the latency of the optional provider are
  parameters, as in \<open>open_router\<close>.
\<close>

definition boot ::
  "('r \<Rightarrow> MetricOpts \<Rightarrow> 'r option) \<Rightarrow> 'r \<Rightarrow> nat \<Rightarrow> (string \<Rightarrow> string) \<Rightarrow> (MetricCall list \<Rightarrow> string + string)
     \<Rightarrow> (string \<times> mux) option go" where
  "boot MustRegister reg latency fault page =
     bindP (gets w_env) (\<lambda>getenv.
     bindP (gets w_disk) (\<lambda>disk.
       let cfg = LoadConfigFromEnv disk Unmarshal_Config getenv;
           (tenants, lattice) = Build cfg;
           serve = (\<lambda>mux. Ret (Some (listen_addr getenv, runHTTP mux)))
       in case RunService getenv of
            None \<Rightarrow> Ret None
          | Some USLService \<Rightarrow> serve (routes_usl tenants lattice fault)
          | Some GREService \<Rightarrow> serve (routes_gre tenants lattice fault)
          | Some LedgerService \<Rightarrow> bindP start_ledger (\<lambda>state. serve (routes_ledger state fault))
          | Some DriftService \<Rightarrow> serve routes_drift
          | Some RouterService \<Rightarrow>
              bindP (open_router MustRegister reg cfg latency) (\<lambda>started.
                case started of
                  None \<Rightarrow> Ret None
                | Some (reg', server) \<Rightarrow> serve (routes_router server fault page))))"

definition config_path :: "(string \<Rightarrow> string) \<Rightarrow> string" where
  "config_path getenv =
     (if getenv ''VOSS_CONFIG'' = [] then ''deploy/voss/config/tenants.production.json'' else getenv ''VOSS_CONFIG'')"

section \<open>Facts\<close>

lemma LoadConfigFromEnv_path: "LoadConfigFromEnv readFile unmarshal getenv = LoadConfig readFile unmarshal (config_path getenv)"
  by (simp add: LoadConfigFromEnv_def config_path_def Let_def)

text \<open>What the router service serves, and the state it starts in.\<close>

definition started_state :: "world \<Rightarrow> world \<Rightarrow> bool" where
  "started_state w w' \<longleftrightarrow>
     w_ledger w' = NewLedger \<and> w_interrupts w' = NewInterruptStore \<and> w_exec w' = NewExecutionState
     \<and> w_calls w' = w_calls w \<and> w_clock w' = w_clock w
     \<and> (\<forall>p a. w_providers w' p = Some a \<longrightarrow> p = ''project-infinity'' \<and> (\<exists>url latency. a = NewProjectInfinityAdapter url latency))"

lemma started_state_facts:
  assumes "started_state w w'"
  shows "ledger_wf (w_ledger w')" "never_started (w_exec w')" "\<not> overridden (w_interrupts w') i"
    "w_calls w = [] \<Longrightarrow> governed w'"
  using assms
  by (simp_all add: started_state_def ledger_wf_NewLedger never_started_def overridden_def governed_def executions_backed_def
      generations_backed_def) (simp_all add: NewLedger_def)

lemma run_open_router:
  assumes "RegisterMetrics MustRegister reg = Some reg'"
  shows "\<exists>w'. run (open_router MustRegister reg cfg latency) w =
      (Some (reg', make_Server (fst (Build cfg)) (snd (Build cfg)) (w_env w ''VOSS_OPERATOR_TOKEN'')), w') \<and> started_state w w'"
  by (simp add: open_router_def assms start_router_def NewRouter_def fresh_state_def RegisterProvider_def run_simps make_Server_def
      started_state_def) blast

lemma run_boot_router:
  assumes "registers MustRegister names" and "names reg = {}" and "RunService (w_env w) = Some RouterService"
    and "LoadConfig (w_disk w) Unmarshal_Config (config_path (w_env w)) = cfg"
  defines "s \<equiv> make_Server (fst (Build cfg)) (snd (Build cfg)) (w_env w ''VOSS_OPERATOR_TOKEN'')"
  shows "\<exists>w'. run (boot MustRegister reg latency fault page) w = (Some (listen_addr (w_env w), runHTTP (routes_router s fault page)), w')
    \<and> started_state w w'"
proof -
  obtain reg' where reg': "RegisterMetrics MustRegister reg = Some reg'" "names reg' = range (\<lambda>m. mo_Name (describe m))"
    using RegisterMetrics_fresh [OF assms(1,2)] .
  obtain w' where w': "run (open_router MustRegister reg cfg latency) w = (Some (reg', s), w')" "started_state w w'"
    using run_open_router [OF reg'(1)] unfolding s_def by blast
  then show ?thesis
    by (simp only: boot_def run_simps LoadConfigFromEnv_path assms(3,4) Let_def case_prod_beta option.case service.case
        prod.sel) simp
qed

subsection \<open>An operator list that is a string\<close>

lemma config_texts_plain: "json_text (config_json (\<lambda>t. strings_json (lt_OperatorIDs t)) c) \<in> config_texts c"
  unfolding config_texts_def Let_def by (rule CollectI, rule exI [of _ "[]"]) auto

lemma sample_config_ok: "config_ok sample_config"
  by (simp add: config_ok_def sample_config_def zero_Config_def sample_tenant_def tenant_ok_def LaneSafe_def)

definition sample_file :: "json \<Rightarrow> string" where
  "sample_file operators = json_text (config_json (\<lambda>_. operators) sample_config)"

definition loaded_from :: "string \<Rightarrow> Config" where
  "loaded_from data = LoadConfig [''tenants.json'' \<mapsto> data] Unmarshal_Config ''tenants.json''"

lemma sample_file_start: "fst (strings_CutPrefix (sample_file operators) utf8_bom) = sample_file operators"
  by (simp add: sample_file_def config_json_def json_fields_def strings_CutPrefix_def utf8_bom_def)

lemma loaded_sample:
  "loaded_from (sample_file (JStr operator)) = sample_config\<lparr>cf_Tenants := [sample_tenant\<lparr>lt_OperatorIDs := []\<rparr>]\<rparr>"
  "loaded_from (sample_file (strings_json [''op-1''])) = sample_config"
proof -
  have loaded: "loaded_from (sample_file ops) = Unmarshal_Config (sample_file ops)" for ops
    by (simp add: loaded_from_def LoadConfig_def sample_file_start)
  have tenants: "cf_Tenants sample_config = [sample_tenant]" by (simp add: sample_config_def)
  show "loaded_from (sample_file (JStr operator)) = sample_config\<lparr>cf_Tenants := [sample_tenant\<lparr>lt_OperatorIDs := []\<rparr>]\<rparr>"
    using Unmarshal_operator_string [OF sample_config_ok, of operator] unfolding loaded by (simp add: sample_file_def tenants)
  have "Unmarshal_Config (sample_file (strings_json [''op-1''])) =
      sample_config\<lparr>cf_Tenants := [sample_tenant\<lparr>lt_OperatorIDs := soft_strings (raw_tree (strings_json [''op-1''])) []\<rparr>]\<rparr>"
    using Unmarshal_config [OF sample_config_ok, of "\<lambda>_. strings_json [''op-1'']"]
    by (simp add: sample_file_def tenants del: raw_tree.simps) (simp add: strings_json_def)
  then show "loaded_from (sample_file (strings_json [''op-1''])) = sample_config"
    unfolding loaded by (simp add: soft_strings_json del: raw_tree.simps) (simp add: sample_config_def sample_tenant_def)
qed

definition stranger :: CapabilityRequest where
  "stranger = sample_request\<lparr>rq_OperatorID := ''stranger''\<rparr>"

definition verdict_under :: "Config \<Rightarrow> CapabilityRequest \<Rightarrow> AdmitResult" where
  "verdict_under cfg req =
     ad_Result (ao_Decision (fst (fst (run (Router_Admit (make_Router (fst (Build cfg)) (snd (Build cfg))) req) sample_world))))"

lemma verdict_under_admissible:
  "\<exists>n. verdict_under cfg req = Admit \<longleftrightarrow> admissible (make_Router (fst (Build cfg)) (snd (Build cfg))) req sample_world n"
proof -
  obtain n where "decided req (admit_verdict (make_Router (fst (Build cfg)) (snd (Build cfg))) req sample_world n) sample_world
      (run (Router_Admit (make_Router (fst (Build cfg)) (snd (Build cfg))) req) sample_world)"
    using decided_Admit [OF make_Router_gre] by blast
  then show ?thesis by (auto simp: decided_def Let_def verdict_under_def verdict_Admit)
qed

subsection \<open>Shared grants\<close>

text \<open>Two tenants of one lane; neither lists what the other does.\<close>

definition leak_config :: Config where
  "leak_config =
     (let t = (\<lambda>i cls. \<lparr>lt_TenantID = i, lt_Name = i, lt_MLCALane = LaneSafe, lt_AllowedCapabilityClasses = cls,
                 lt_RequiresOperatorApproval = True, lt_IdentitySeparation = True, lt_RoutingPolicy = [],
                 lt_AllowedProviders = [], lt_KeyRefs = Map.empty, lt_OperatorIDs = [], lt_CorrigibilityUnconditional = True\<rparr>)
      in zero_Config\<lparr>cf_Tenants := [t ''A'' [''read.own'', ''write.draft''], t ''B'' [''write.own'']]\<rparr>)"

definition leak_request :: CapabilityRequest where
  "leak_request = sample_request\<lparr>rq_TenantID := ''A'',
     rq_CapabilityClass := \<lparr>cc_Class = ''write'', cc_Scope = ''own'', cc_Action = ''execute'', cc_Risk = ''low''\<rparr>\<rparr>"

lemma leak_policies:
  "Build leak_config =
     ([\<lparr>tp_TenantID = ''A'', tp_Name = ''A'', tp_MLCALane = LaneSafe, tp_AllowedClasses = [''read'', ''write''],
        tp_AllowedScopes = [''own'', ''draft''], tp_AllowedActions = default_actions, tp_AllowedRisks = [],
        tp_RequiresApproval = True, tp_IdentityNamespace = ''A-ns'', tp_SovereignOperator = []\<rparr>,
       \<lparr>tp_TenantID = ''B'', tp_Name = ''B'', tp_MLCALane = LaneSafe, tp_AllowedClasses = [''write''],
        tp_AllowedScopes = [''own''], tp_AllowedActions = default_actions, tp_AllowedRisks = [],
        tp_RequiresApproval = True, tp_IdentityNamespace = ''B-ns'', tp_SovereignOperator = []\<rparr>],
      map (\<lambda>(c, s). \<lparr>cl_Grant = \<lparr>cc_Class = c, cc_Scope = s, cc_Action = ''execute'', cc_Risk = ''low''\<rparr>, cl_Lanes = [LaneSafe]\<rparr>)
        [(''read'', ''own''), (''write'', ''draft''), (''write'', ''own'')])"
  by (simp add: Build_def leak_config_def Let_def zero_Config_def tenant_policy_def class_lists_def class_grant_def)

lemma leak_admitted: "verdict_under leak_config leak_request = Admit"
proof -
  have "admissible (make_Router (fst (Build leak_config)) (snd (Build leak_config))) leak_request sample_world n" for n
    by (simp add: admissible_def leak_policies leak_request_def router_input_def pipeline_passes_def
        sample_request_def sample_world_def ledger_wf_Verify ledger_wf_NewLedger stage_gate_def usl_admits_def
        findTenant_def TenantPolicy_Allows_def default_actions_def capabilityGranted_def drift_spike_def overridden_def
        Classify_decision_def operator_approval_def NewFakeAdapter_def FakeAdapter_CapabilityRequest_def)
  then show ?thesis by (meson verdict_under_admissible)
qed

lemma find_map: "find P (map f xs) = map_option f (find (\<lambda>x. P (f x)) xs)"
  by (induction xs) simp_all

section \<open>Properties\<close>

text \<open>
  C37: what a tenant may do under a configuration (of classes \<open>class.scope\<close>, the shape of the shipped files):
  the USL gate admits a request exactly when it is in its tenant's lane, names an operator, asks for the
  action \<open>execute\<close> at risk \<open>low\<close>, and asks for a pair of class and scope that some tenant of the lane lists,
  where its own tenant lists the class in one entry and the scope in one entry, which need not be the same.
  The lattice is shared by the lane, and a policy allows every combination.
\<close>

theorem grants_are_shared:
  assumes "list_all two_part (cf_Tenants c)" and "find (\<lambda>t. lt_TenantID t = rq_TenantID req) (cf_Tenants c) = Some t"
  defines "cap \<equiv> rq_CapabilityClass req"
  shows "ad_Result (fst (run (USLGate_Check (gate_of c) req) w)) = Admit \<longleftrightarrow>
    lt_MLCALane t = rq_MLCALane req \<and> rq_OperatorID req \<noteq> [] \<and> cc_Action cap = ''execute'' \<and> cc_Risk cap = ''low''
    \<and> (\<exists>t'\<in>set (cf_Tenants c). lt_MLCALane t' = rq_MLCALane req
         \<and> (\<exists>cl\<in>set (lt_AllowedCapabilityClasses t'). strings_Split cl CHR ''.'' = [cc_Class cap, cc_Scope cap]))
    \<and> (\<exists>cl\<in>set (lt_AllowedCapabilityClasses t). \<exists>scope. strings_Split cl CHR ''.'' = [cc_Class cap, scope])
    \<and> (\<exists>cl\<in>set (lt_AllowedCapabilityClasses t). \<exists>cls. strings_Split cl CHR ''.'' = [cls, cc_Scope cap])"
proof -
  have t: "t \<in> set (cf_Tenants c)" using assms(2) by (auto simp: find_Some_iff)
  have pair: "\<exists>x y. strings_Split cl CHR ''.'' = [x, y]"
    if "t' \<in> set (cf_Tenants c)" "cl \<in> set (lt_AllowedCapabilityClasses t')" for t' cl
  proof -
    have "length (strings_Split cl CHR ''.'') = 2" using assms(1) that by (simp add: list_all_iff two_part_def)
    then show ?thesis by (auto simp: length_Suc_conv numeral_2_eq_2)
  qed
  have "findTenant (gate_of c) (rq_TenantID req) = Some (tenant_policy t)"
    using assms(2) by (simp add: findTenant_def findTenant_from_find gate_of_def Build_def find_map)
  then have gate: "usl_admits (gate_of c) req \<longleftrightarrow>
      lt_MLCALane t = rq_MLCALane req \<and> TenantPolicy_Allows (tenant_policy t) cap
      \<and> capabilityGranted (gate_of c) cap (rq_MLCALane req) \<and> rq_OperatorID req \<noteq> []"
    by (simp add: usl_admits_def cap_def gate_of_def)
  have granted: "capabilityGranted (gate_of c) cap lane \<longleftrightarrow> cc_Action cap = ''execute'' \<and> cc_Risk cap = ''low''
      \<and> (\<exists>t'\<in>set (cf_Tenants c). lt_MLCALane t' = lane
          \<and> (\<exists>cl\<in>set (lt_AllowedCapabilityClasses t'). strings_Split cl CHR ''.'' = [cc_Class cap, cc_Scope cap]))" for lane
    unfolding built_lattice_grants using pair by fastforce
  have two: "two_part t" using assms(1) t by (simp add: list_all_iff)
  have allows: "TenantPolicy_Allows (tenant_policy t) cap \<longleftrightarrow>
      (\<exists>cl\<in>set (lt_AllowedCapabilityClasses t). \<exists>scope. strings_Split cl CHR ''.'' = [cc_Class cap, scope])
      \<and> (\<exists>cl\<in>set (lt_AllowedCapabilityClasses t). \<exists>cls. strings_Split cl CHR ''.'' = [cls, cc_Scope cap])"
    if "cc_Action cap = ''execute''"
  proof -
    have "cc_Class cap \<in> set (tp_AllowedClasses (tenant_policy t)) \<longleftrightarrow>
        (\<exists>cl\<in>set (lt_AllowedCapabilityClasses t). \<exists>scope. strings_Split cl CHR ''.'' = [cc_Class cap, scope])"
      unfolding tenant_policy_classes image_iff by (rule bex_cong [OF refl]) (use pair [OF t] in force)
    moreover have "cc_Scope cap \<in> set (tp_AllowedScopes (tenant_policy t)) \<longleftrightarrow>
        (\<exists>cl\<in>set (lt_AllowedCapabilityClasses t). \<exists>cls. strings_Split cl CHR ''.'' = [cls, cc_Scope cap])"
      unfolding two_part_policy(2) [OF two] image_iff by (rule bex_cong [OF refl]) (use pair [OF t] in force)
    moreover have "cc_Class cap \<in> set (tp_AllowedClasses (tenant_policy t)) \<Longrightarrow> tp_AllowedScopes (tenant_policy t) \<noteq> []"
      using two_part_policy(2) [OF two] unfolding tenant_policy_classes by force
    ultimately show ?thesis
      using that unfolding TenantPolicy_Allows_iff two_part_policy(1) [OF two] by (auto simp: default_actions_def)
  qed
  have "ad_Result (fst (run (USLGate_Check (gate_of c) req) w)) = Admit \<longleftrightarrow> usl_admits (gate_of c) req"
    using usl_verdict_Admit [of "gate_of c" req] by (auto simp: run_USLGate_Check)
  then show ?thesis unfolding gate granted using allows by blast
qed

theorem grants_are_shared_witness:
  "''write.own'' \<notin> set (lt_AllowedCapabilityClasses (hd (cf_Tenants leak_config)))
   \<and> (\<forall>w. ad_Result (fst (run (USLGate_Check (gate_of leak_config) leak_request) w)) = Admit)
   \<and> verdict_under leak_config leak_request = Admit"
proof (intro conjI allI)
  let ?A = "hd (cf_Tenants leak_config)"
  have parts: "list_all two_part (cf_Tenants leak_config)" by (simp add: leak_config_def zero_Config_def Let_def two_part_def)
  have tenant: "find (\<lambda>t. lt_TenantID t = rq_TenantID leak_request) (cf_Tenants leak_config) = Some ?A"
    by (simp add: leak_config_def leak_request_def zero_Config_def Let_def)
  show "''write.own'' \<notin> set (lt_AllowedCapabilityClasses ?A)" by (simp add: leak_config_def zero_Config_def Let_def)
  show "ad_Result (fst (run (USLGate_Check (gate_of leak_config) leak_request) w)) = Admit" for w
    unfolding grants_are_shared [OF parts tenant]
    by (simp add: leak_config_def leak_request_def sample_request_def zero_Config_def Let_def LaneSafe_def)
qed (rule leak_admitted)

text \<open>
  C38: with the operators of a tenant given as one string instead of a list, the file is not rejected: the
  tenant has no sovereign operator any more, and a request that names somebody else is admitted; the
  same file with the list denies it.
\<close>

theorem operator_typo_opens_tenant:
  "verdict_under (loaded_from (sample_file (JStr ''op-1''))) stranger = Admit
   \<and> verdict_under (loaded_from (sample_file (strings_json [''op-1'']))) stranger \<noteq> Admit"
proof -
  let ?open = "sample_config\<lparr>cf_Tenants := [sample_tenant\<lparr>lt_OperatorIDs := []\<rparr>]\<rparr>"
  have "admissible (make_Router (fst (Build ?open)) (snd (Build ?open))) stranger sample_world n" for n
    by (simp add: admissible_def Build_def sample_config_def sample_tenant_def zero_Config_def tenant_policy_def class_lists_def
        class_grant_def capability_def stranger_def router_input_def pipeline_passes_def
        sample_request_def sample_world_def ledger_wf_Verify ledger_wf_NewLedger stage_gate_def usl_admits_def
        findTenant_def TenantPolicy_Allows_def default_actions_def capabilityGranted_def drift_spike_def overridden_def
        Classify_decision_def operator_approval_def NewFakeAdapter_def FakeAdapter_CapabilityRequest_def)
  moreover have "\<not> admissible (make_Router (fst (Build sample_config)) (snd (Build sample_config))) stranger sample_world n" for n
    by (simp add: admissible_def sample_policy router_input_def pipeline_passes_def stage_gate_def stranger_def sample_request_def
        checkLambda4_passed lane_policy_def operator_bound_def)
  ultimately show ?thesis unfolding loaded_sample by (meson verdict_under_admissible)
qed

text \<open>
  C9: the router process, started on a file with the JSON text of a configuration (indented or not, with or
  without a byte-order mark), listens at the address of the environment and serves that configuration: each
  request on the wire is answered by the handler that \<open>wire_call\<close> names for its path, of the server built
  from the configuration with the operator token of the environment, and the state is the empty one the
  other properties start from: a well-formed empty ledger, no overrides, no execution under way.
\<close>

theorem booted_router:
  assumes "registers MustRegister names" and "names reg = {}" and "RunService (w_env w) = Some RouterService"
    and "config_ok c" and "w_disk w (config_path (w_env w)) = Some data" and "data \<in> config_texts c"
  shows "\<exists>mux w'. run (boot MustRegister reg latency fault page) w = (Some (listen_addr (w_env w), mux), w')
    \<and> (\<forall>r. ServeHTTP mux r =
          muxRouter (make_Server (fst (Build c)) (snd (Build c)) (w_env w ''VOSS_OPERATOR_TOKEN'')) (wire_call fault page r))
    \<and> started_state w w' \<and> ledger_wf (w_ledger w') \<and> never_started (w_exec w') \<and> \<not> overridden (w_interrupts w') i"
  using run_boot_router [OF assms(1-3) LoadConfig_text [where readFile = "w_disk w", OF assms(4-6)], of latency fault page]
    wire_serves started_state_facts by blast

definition operator_wire :: "string \<Rightarrow> WireRequest" where
  "operator_wire path = \<lparr>wr_Method = ''POST'', wr_EscapedPath = path, wr_Authorization = [], wr_Bytes = [], wr_Broken = False\<rparr>"

lemma operator_wire_calls:
  "wire_call fault page (operator_wire ''/interrupt'') =
     InterruptCall (http_request (operator_wire ''/interrupt'') (read_operator (operator_wire ''/interrupt'')))"
  "wire_call fault page (operator_wire ''/terminate'') =
     TerminateCall (http_request (operator_wire ''/terminate'') (read_operator (operator_wire ''/terminate'')))"
  "wire_call fault page (operator_wire ''/interrupt/'') = UnknownPath"
  by (simp_all add: wire_call_def segment_call_def operator_wire_def clean_segment pathUnescape_def Let_def
      cleanPath_def path_Clean_def join_segments_def)

theorem booted_router_witness:
  "\<exists>mux w'. run (boot name_registry [] 1 (\<lambda>s. s) (\<lambda>_. Inr []))
      (sample_world\<lparr>w_disk := [config_path (\<lambda>_. []) \<mapsto> sample_file (strings_json [''op-1''])]\<rparr>) = (Some ('':8080'', mux), w')
    \<and> ServeHTTP mux (operator_wire ''/interrupt'') =
        InterruptHandler (make_Server (fst (Build sample_config)) (snd (Build sample_config)) [])
          (http_request (operator_wire ''/interrupt'') (read_operator (operator_wire ''/interrupt'')))
    \<and> ServeHTTP mux (operator_wire ''/terminate'') =
        TerminateHandler (make_Server (fst (Build sample_config)) (snd (Build sample_config)) [])
          (http_request (operator_wire ''/terminate'') (read_operator (operator_wire ''/terminate'')))
    \<and> w_ledger w' = NewLedger"
proof -
  let ?w = "sample_world\<lparr>w_disk := [config_path (\<lambda>_. []) \<mapsto> sample_file (strings_json [''op-1''])]\<rparr>"
  have env: "w_env ?w = (\<lambda>_. [])" by (simp add: sample_world_def)
  have mode: "RunService (w_env ?w) = Some RouterService"
    unfolding env by (simp add: RunService_def modeFromEnv_def ModeRouter_def ModeUslGate_def ModeGRE1001_def ModeLedger_def ModeDrift_def)
  have disk: "w_disk ?w (config_path (w_env ?w)) = Some (sample_file (strings_json [''op-1'']))" by (simp add: env)
  have written: "sample_file (strings_json [''op-1'']) \<in> config_texts sample_config"
  proof -
    have "sample_file (strings_json [''op-1'']) = json_text (config_json (\<lambda>t. strings_json (lt_OperatorIDs t)) sample_config)"
      unfolding sample_file_def config_json_def
      by (simp add: sample_config_def sample_tenant_def del: json_text.simps)
    then show ?thesis using config_texts_plain by simp
  qed
  have names: "set [] = ({} :: string set)" by simp
  from booted_router [OF registers_name_registry names mode sample_config_ok disk written, of 1 "\<lambda>s. s" "\<lambda>_. Inr []"]
  obtain mux w' where boot: "run (boot name_registry [] 1 (\<lambda>s. s) (\<lambda>_. Inr [])) ?w = (Some (listen_addr (w_env ?w), mux), w')"
    and serve: "\<And>r. ServeHTTP mux r =
      muxRouter (make_Server (fst (Build sample_config)) (snd (Build sample_config)) (w_env ?w ''VOSS_OPERATOR_TOKEN''))
        (wire_call (\<lambda>s. s) (\<lambda>_. Inr []) r)"
    and "started_state ?w w'" by blast
  then have "w_ledger w' = NewLedger" by (simp add: started_state_def)
  with boot serve [of "operator_wire ''/interrupt''"] serve [of "operator_wire ''/terminate''"] show ?thesis
    unfolding operator_wire_calls env by (intro exI conjI) (assumption | simp add: listen_addr_def del: One_nat_def)+
qed

text \<open>
  C10: a router process whose configuration file is missing or no JSON starts all the same, and fails closed:
  whatever arrives on the wire and however the requests are interleaved, nothing is ever admitted and no
  provider is contacted.
\<close>

theorem no_configuration_no_admission:
  assumes "registers MustRegister names" and "names reg = {}" and "RunService (w_env w) = Some RouterService"
    and "case w_disk w (config_path (w_env w)) of None \<Rightarrow> True
         | Some data \<Rightarrow> json_parse (fst (strings_CutPrefix data utf8_bom)) = None"
    and "run (boot MustRegister reg latency fault page) w = (Some (addr, mux), w1)"
    and "pool_run (range (ServeHTTP mux)) (w1, []) (w2, ps)"
  shows "filter le_Admitted (lg_entries (w_ledger w2)) = [] \<and> w_calls w2 = w_calls w"
proof -
  let ?token = "w_env w ''VOSS_OPERATOR_TOKEN''"
  obtain w' where boot: "run (boot MustRegister reg latency fault page) w =
      (Some (listen_addr (w_env w), runHTTP (routes_router (make_Server [] [] ?token) fault page)), w')" "started_state w w'"
    using run_boot_router [OF assms(1-3) LoadConfig_unusable [where readFile = "w_disk w", OF assms(4)], of latency fault page]
    by (auto simp: Build_def zero_Config_def)
  then have "range (ServeHTTP mux) \<subseteq> endpoints [] [] ?token" "w1 = w'"
    using assms(5) wire_endpoint by auto
  then have "pool_run (endpoints [] [] ?token) (w', []) (w2, ps)" using pool_run_mono [OF assms(6)] by simp
  from untenanted.nothing_admitted [OF this] boot(2) show ?thesis
    by (simp add: admitted_in_def contacted_in_def started_state_def NewLedger_def)
qed

theorem no_configuration_no_admission_witness:
  "let (started, w1) = run (boot name_registry [] 1 (\<lambda>s. s) (\<lambda>_. Inr [])) sample_world;
       r = \<lparr>wr_Method = ''POST'', wr_EscapedPath = ''/route'', wr_Authorization = [], wr_Bytes = ''null'', wr_Broken = False\<rparr> in
   filter le_Admitted (lg_entries (w_ledger (snd (run (ServeHTTP (snd (the started)) r) w1)))) = []"
proof -
  have env: "w_env sample_world = (\<lambda>_. [])" and disk: "w_disk sample_world = Map.empty" by (simp_all add: sample_world_def)
  have mode: "RunService (w_env sample_world) = Some RouterService"
    unfolding env by (simp add: RunService_def modeFromEnv_def ModeRouter_def ModeUslGate_def ModeGRE1001_def ModeLedger_def ModeDrift_def)
  obtain mux w1 where boot: "run (boot name_registry [] 1 (\<lambda>s. s) (\<lambda>_. Inr [])) sample_world = (Some (listen_addr (w_env sample_world), mux), w1)"
    using run_boot_router [OF registers_name_registry _ mode refl, of "[]" 1 "\<lambda>s. s" "\<lambda>_. Inr []"] by auto
  have "pool_run (range (ServeHTTP mux)) (w1, []) (snd (run (ServeHTTP mux r) w1), [Ret (fst (run (ServeHTTP mux r) w1))])" for r
    using pool_run_arrive [of "ServeHTTP mux r" "range (ServeHTTP mux)" w1 "[]"] by (auto intro: pool_run_trans [OF sample_run])
  from no_configuration_no_admission [OF registers_name_registry _ mode _ boot this] show ?thesis
    by (simp add: boot disk Let_def del: One_nat_def)
qed

end
