(* ===== verification/Responses.thy ===== *)
theory Responses
  imports Wire ConfigFile
begin

text \<open>
  The bytes of the answers: what \<open>http.Error\<close> and \<open>json.NewEncoder(w).Encode\<close> write for the structured
  bodies of \<open>Server\<close>, with \<open>errString\<close> of \<open>modes.go\<close>.  A value that cannot be marshalled (a time outside the
  years 0 to 9999) leaves the body empty; the status has been sent by then.

  Which runes beyond ASCII \<open>strconv.IsPrint\<close> accepts (\<open>printable\<close>) and the page \<open>net/http\<close> writes for a redirect
  are parameters.  An empty catalog of the ledger service is written as an empty array here; the program
  writes \<open>null\<close> where its slice is still nil.
\<close>

section \<open>Definitions\<close>

subsection \<open>A raw message in a JSON text\<close>

text \<open>
  \<open>appendCompact\<close> with HTML escaping; the flag says whether the text before ends inside a string.
\<close>

function appendCompact :: "bool \<Rightarrow> string \<Rightarrow> string" where
  "appendCompact q [] = []"
| "appendCompact q (c # s) =
     (if c = CHR 0x22 then c # appendCompact (\<not> q) s
      else if q \<and> c = CHR 0x5C then c # take 1 s @ appendCompact q (drop 1 s)
      else if c \<in> {CHR ''<'', CHR ''>'', CHR ''&''} then json_escape_ascii c @ appendCompact q s
      else if c = CHR 0xE2 \<and> take 2 s = [CHR 0x80, CHR 0xA8] then json_escape_u ''2028'' @ appendCompact q (drop 2 s)
      else if c = CHR 0xE2 \<and> take 2 s = [CHR 0x80, CHR 0xA9] then json_escape_u ''2029'' @ appendCompact q (drop 2 s)
      else if \<not> q \<and> is_space c then appendCompact q s
      else c # appendCompact q s)"
  by pat_completeness auto
termination
  by (relation "measure (\<lambda>(q, s). length s)") auto

text \<open>The result of \<open>RawMessage.MarshalJSON\<close> is checked and compacted; a text that is no JSON is an error.\<close>

definition marshal_raw :: "string \<Rightarrow> string option" where
  "marshal_raw raw = (if json_parse raw = None then None else Some (appendCompact False raw))"

subsection \<open>Quoted strings\<close>

text \<open>\<open>utf8.DecodeRuneInString\<close> on the bytes of one valid encoding.\<close>

definition utf8_rune :: "nat list \<Rightarrow> nat" where
  "utf8_rune bs =
     (case bs of
        [] \<Rightarrow> 0
      | b # cs \<Rightarrow> if cs = [] then b else foldl (\<lambda>r c. 64 * r + c mod 64) (b mod 2 ^ (6 - length cs)) cs)"

fun hex_digits :: "nat \<Rightarrow> nat \<Rightarrow> string" where
  "hex_digits 0 n = []"
| "hex_digits (Suc k) n = hex_digits k (n div 16) @ [hex_digit n]"

definition quote_rune :: "(nat \<Rightarrow> bool) \<Rightarrow> nat \<Rightarrow> string \<Rightarrow> string" where
  "quote_rune printable r bytes =
     (if r = 0x22 \<or> r = 0x5C then CHR 0x5C # bytes
      else if (if r < 0x80 then 0x20 \<le> r \<and> r < 0x7F else printable r) then bytes
      else if r = 7 then [CHR 0x5C, CHR ''a'']
      else if r = 8 then [CHR 0x5C, CHR ''b'']
      else if r = 12 then [CHR 0x5C, CHR ''f'']
      else if r = 10 then [CHR 0x5C, CHR ''n'']
      else if r = 13 then [CHR 0x5C, CHR ''r'']
      else if r = 9 then [CHR 0x5C, CHR ''t'']
      else if r = 11 then [CHR 0x5C, CHR ''v'']
      else if r < 0x20 \<or> r = 0x7F then [CHR 0x5C, CHR ''x''] @ hex_digits 2 r
      else if r < 0x10000 then [CHR 0x5C, CHR ''u''] @ hex_digits 4 r
      else [CHR 0x5C, CHR ''U''] @ hex_digits 8 r)"

function quote_chars :: "(nat \<Rightarrow> bool) \<Rightarrow> string \<Rightarrow> string" where
  "quote_chars printable [] = []"
| "quote_chars printable (c # s) =
     (let n = (if (of_char c :: nat) < 128 then 1 else rune_size (bytes_of (c # s))); bytes = take n (c # s) in
      if n = 0 then [CHR 0x5C, CHR ''x''] @ hex_digits 2 (of_char c) @ quote_chars printable s
      else quote_rune printable (utf8_rune (bytes_of bytes)) bytes @ quote_chars printable (drop (n - 1) s))"
  by pat_completeness auto
termination
  by (relation "measure (\<lambda>(p, s). length s)") auto

definition strconv_Quote :: "(nat \<Rightarrow> bool) \<Rightarrow> string \<Rightarrow> string" where
  "strconv_Quote printable s = CHR 0x22 # quote_chars printable s @ [CHR 0x22]"

subsection \<open>\<open>errString\<close>\<close>

fun error_message :: "(nat \<Rightarrow> bool) \<Rightarrow> GoError \<Rightarrow> string" where
  "error_message printable (ErrUnknownWorkflow wid) = ''unknown workflow '' @ strconv_Quote printable wid"
| "error_message printable (ErrLaneNotAllowed wid lane) =
     ''workflow '' @ strconv_Quote printable wid @ '' not allowed in lane '' @ lane"
| "error_message printable err = error_text err"

definition errString :: "(nat \<Rightarrow> bool) \<Rightarrow> GoError option \<Rightarrow> string" where
  "errString printable err = (case err of None \<Rightarrow> [] | Some e \<Rightarrow> error_message printable e)"

subsection \<open>The bodies\<close>

definition decision_value :: "AdmissionDecision \<Rightarrow> json option" where
  "decision_value d =
     map_option (\<lambda>ts. JObj [(''result'', JStr (ad_Result d)), (''reason'', JStr (ad_Reason d)), (''rule_ref'', JStr (ad_RuleRef d)),
         (''decision_id'', JStr (ad_DecisionID d)), (''request_id'', JStr (ad_RequestID d)), (''timestamp'', JStr ts)])
       (rfc3339_nano (ad_Timestamp d))"

definition execution_value :: "ExecutionResult \<Rightarrow> json" where
  "execution_value x =
     JObj [(''intent_id'', JStr (er_IntentID x)),
       (''result'', (case er_Result x of None \<Rightarrow> JNull | Some kvs \<Rightarrow> JMap kvs)), (''hash'', JStr (er_Hash x))]"

text \<open>A request: the payload is a text already, the metadata are written in the order of their keys.\<close>

definition marshal_request :: "CapabilityRequest \<Rightarrow> string option" where
  "marshal_request q =
     map_option (\<lambda>payload.
         let text = map (\<lambda>(k, v). (k, json_text v)); ms = bindings (rq_Metadata q) in
         json_fields (text (basic_members q) @ payload
           @ text (unless_empty (ms = []) (''metadata'', metadata_json ms))
           @ text (case rq_Coherence q of None \<Rightarrow> [] | Some c \<Rightarrow> [(''coherence'', coherence_json c)])))
       (if rq_Payload q = [] then Some []
        else map_option (\<lambda>t. [(''payload'', t)]) (marshal_raw (rq_Payload q)))"

text \<open>The answers of \<open>/route\<close> and \<open>/workflow\<close>; a Go map is written in the order of its keys.\<close>

definition route_body :: "AdmissionDecision \<Rightarrow> LedgerEntry \<Rightarrow> CapabilityRequest \<Rightarrow> string option" where
  "route_body d e q =
     do { dv \<leftarrow> decision_value d; ev \<leftarrow> entry_value e; qt \<leftarrow> marshal_request q;
          Some (json_fields [(''decision'', json_text dv), (''ledger'', json_text ev), (''request'', qt)]) }"

definition workflow_body ::
  "(nat \<Rightarrow> bool) \<Rightarrow> string \<Rightarrow> AdmissionDecision \<Rightarrow> ExecutionResult \<Rightarrow> LedgerEntry \<Rightarrow> GoError option \<Rightarrow> string option" where
  "workflow_body printable wid d x e err =
     do { dv \<leftarrow> decision_value d; ev \<leftarrow> entry_value e;
          Some (json_text (JMap [(''workflow'', JStr wid), (''decision'', dv), (''execution'', execution_value x),
            (''ledger'', ev), (''error'', JStr (errString printable err))])) }"

text \<open>All JSON bodies.\<close>

fun json_body :: "(nat \<Rightarrow> bool) \<Rightarrow> ResponseBody \<Rightarrow> string option" where
  "json_body printable (BRoute d e q) = route_body d e q"
| "json_body printable (BOperator res i) = Some (json_text (JMap [(''result'', JStr res), (''intent_id'', JStr i)]))"
| "json_body printable (BLedger es) = map_option (\<lambda>vs. json_text (JArr vs)) (those (map entry_value es))"
| "json_body printable (BVerify ok breaks) =
     Some (json_text (JMap [(''valid'', JBool ok), (''chain_breaks'', JNum (nat_dec breaks))]))"
| "json_body printable (BWorkflow wid d x e err) = workflow_body printable wid d x e err"
| "json_body printable (BDecision d) = map_option json_text (decision_value d)"
| "json_body printable (BStages ok stages) =
     Some (json_text (JMap [(''accepted'', JBool ok), (''stages'', JArr (map stage_json stages))]))"
| "json_body printable (BEntry e) = map_option json_text (entry_value e)"
| "json_body printable (BChainInvalid err breaks) =
     Some (json_text (JMap [(''error'', JStr err), (''chain_breaks'', JNum (nat_dec breaks))]))"
| "json_body printable (BScore score unit gate) =
     Some (json_text (JMap [(''score'', JNum (int_dec score)), (''unit'', JStr unit), (''gate'', JStr gate)]))"
| "json_body printable _ = None"

definition response_text :: "(nat \<Rightarrow> bool) \<Rightarrow> (string \<Rightarrow> string) \<Rightarrow> ResponseBody \<Rightarrow> string" where
  "response_text printable redirect b =
     (case b of
        BError err \<Rightarrow> err @ [CHR 0x0A]
      | BText s \<Rightarrow> s
      | BRedirect path \<Rightarrow> redirect path
      | _ \<Rightarrow> (case json_body printable b of None \<Rightarrow> [] | Some t \<Rightarrow> t @ [CHR 0x0A]))"

section \<open>Facts\<close>

declare json_chars.simps(2) [simp del] appendCompact.simps(2) [simp del]

subsection \<open>What is compact already\<close>

definition compacted :: "string \<Rightarrow> bool" where
  "compacted s \<longleftrightarrow> (\<forall>r. appendCompact False (s @ r) = s @ appendCompact False r)"

lemma compacted_Nil [simp]: "compacted []"
  by (simp add: compacted_def)

lemma compacted_append: "compacted s \<Longrightarrow> compacted t \<Longrightarrow> compacted (s @ t)"
  by (simp add: compacted_def)

lemma compacted_Cons:
  "c \<notin> {CHR 0x22, CHR ''<'', CHR ''>'', CHR ''&'', CHR 0xE2} \<Longrightarrow> \<not> is_space c \<Longrightarrow> compacted s \<Longrightarrow> compacted (c # s)"
  by (simp add: compacted_def appendCompact.simps(2))

lemma compacted_numchars: "list_all is_numchar s \<Longrightarrow> compacted s"
proof (induction s)
  case (Cons c s)
  then have "is_digit c \<or> c \<in> set ''+-.eE''" by (auto simp: is_numchar_def)
  then have "c \<notin> {CHR 0x22, CHR ''<'', CHR ''>'', CHR ''&'', CHR 0xE2} \<and> \<not> is_space c"
    by (auto simp: is_digit_def is_space_def)
  with Cons show ?case by (simp add: compacted_Cons)
qed simp

definition stays :: "string \<Rightarrow> bool" where
  "stays s \<longleftrightarrow> (\<forall>r. appendCompact True (s @ r) = s @ appendCompact True r)"

lemma stays_Nil: "stays []"
  by (simp add: stays_def)

lemma stays_append: "stays s \<Longrightarrow> stays t \<Longrightarrow> stays (s @ t)"
  by (simp add: stays_def)

lemma stays_Cons: "c \<notin> {CHR 0x22, CHR 0x5C, CHR ''<'', CHR ''>'', CHR ''&'', CHR 0xE2} \<Longrightarrow> stays s \<Longrightarrow> stays (c # s)"
  by (simp add: stays_def appendCompact.simps(2))

lemma stays_escape: "stays s \<Longrightarrow> stays (CHR 0x5C # c # s)"
  by (simp add: stays_def appendCompact.simps(2))

lemma stays_hex: "is_hex h \<Longrightarrow> stays s \<Longrightarrow> stays (h # s)"
  by (rule stays_Cons) (auto simp: is_hex_def is_digit_def)

lemma stays_escape_u: "list_all is_hex hs \<Longrightarrow> stays (json_escape_u hs)"
  unfolding json_escape_u_def by (rule stays_escape) (induction hs; simp add: stays_Nil stays_hex)

lemma stays_json_escape_ascii: "(of_char c :: nat) < 128 \<Longrightarrow> stays (json_escape_ascii c)"
  unfolding json_escape_ascii_def Let_def
  by (auto simp: of_char_quotes is_hex_digit hex_zero intro!: stays_escape stays_escape_u stays_Cons stays_Nil)

lemma rune_tail_cont: "\<forall>b\<in>set (tl (take (rune_size bs) bs)). is_cont b"
  by (cases bs rule: rune_size.cases) (auto split: list.splits)

lemma stays_cont: "\<forall>c\<in>set s. is_cont (of_char c) \<Longrightarrow> stays s"
  by (induction s) (auto simp: stays_Nil is_cont_def intro!: stays_Cons)

lemma stays_rune:
  assumes "128 \<le> (of_char c :: nat)" and "n = rune_size (bytes_of (c # cs))" and "n \<noteq> 0"
    and "take 3 (c # cs) \<noteq> [CHR 0xE2, CHR 0x80, CHR 0xA8]" and "take 3 (c # cs) \<noteq> [CHR 0xE2, CHR 0x80, CHR 0xA9]"
  shows "stays (take n (c # cs))"
proof -
  obtain k where k: "n = Suc k" using assms(3) by (cases n) auto
  have "\<forall>b\<in>set (tl (take n (bytes_of (c # cs)))). is_cont b" unfolding assms(2) by (rule rune_tail_cont)
  then have "\<forall>d\<in>set (take k cs). is_cont (of_char d)" by (simp add: k bytes_of_def take_map)
  then have tail: "stays (take k cs)" by (rule stays_cont)
  show ?thesis
  proof (cases "c = CHR 0xE2")
    case False
    then show ?thesis using assms(1) tail by (auto simp: k intro!: stays_Cons)
  next
    case True
    then have "n = 3" using assms(2,3) by (cases cs rule: list.exhaust; cases "tl cs")
      (auto simp: bytes_of_def split: if_splits)
    then obtain b d rest where "cs = b # d # rest" "k = 2"
      using assms(2) rune_size_length [of "bytes_of (c # cs)"] k
      by (cases cs; cases "tl cs") (auto simp: bytes_of_def)
    then show ?thesis using assms(4,5) True tail by (auto simp: k stays_def appendCompact.simps(2))
  qed
qed

lemma stays_json_chars: "stays (json_chars s)"
proof (induction s rule: json_chars.induct)
  case (2 c cs)
  have u: "stays (json_escape_u ''fffd'')" "stays (json_escape_u ''2028'')" "stays (json_escape_u ''2029'')"
    by (auto intro!: stays_escape_u simp: is_hex_def is_digit_def)
  show ?case
  proof (cases "(of_char c :: nat) < 128")
    case True
    with 2 show ?thesis by (simp add: json_chars.simps(2) stays_append stays_json_escape_ascii)
  next
    case False
    define n where "n = rune_size (bytes_of (c # cs))"
    from 2 False u stays_rune [OF _ n_def] show ?thesis
      by (auto simp: json_chars.simps(2) Let_def n_def [symmetric] simp del: take_Suc_Cons intro!: stays_append)
  qed
qed (simp add: stays_Nil)

subsection \<open>Rendered values are compact\<close>

lemma compacted_quote: "compacted (json_quote s)"
  using stays_json_chars [of s] by (simp add: compacted_def stays_def json_quote_def appendCompact.simps(2))

lemma compacted_commas: "\<forall>x\<in>set xs. compacted x \<Longrightarrow> compacted (json_commas xs)"
  by (induction xs rule: json_commas.induct) (auto simp: is_space_def intro!: compacted_append compacted_Cons)

lemma compacted_fields:
  assumes "\<forall>kv\<in>set kvs. compacted (snd kv)"
  shows "compacted (json_fields kvs)"
  unfolding json_fields_def using assms
  by (intro compacted_Cons compacted_append compacted_commas)
    (auto simp: is_space_def intro!: compacted_append compacted_quote compacted_Cons)

lemma compacted_json_text: "json_numbers v \<Longrightarrow> compacted (json_text v)"
proof (induction v)
  case (JArr xs)
  then have "compacted (json_commas (map json_text xs))" by (intro compacted_commas) auto
  then show ?case by (auto simp: is_space_def intro!: compacted_Cons compacted_append)
next
  case (JObj kvs)
  have "compacted (json_text (snd kv))" if "kv \<in> set kvs" for kv
    using JObj.IH [OF that, of "snd kv"] JObj.prems that by (auto simp: snds.simps)
  then show ?case by (auto intro!: compacted_fields)
next
  case (JMap kvs)
  have "compacted (json_text (snd kv))" if "kv \<in> set kvs" for kv
    using JMap.IH [OF that, of "snd kv"] JMap.prems that by (auto simp: snds.simps)
  then show ?case by (auto simp: sort_keys_def intro!: compacted_fields)
qed (auto simp: is_space_def compacted_numchars compacted_quote intro!: compacted_Cons)

lemma marshal_raw_text: "json_numbers v \<Longrightarrow> nests maxNestingDepth v \<Longrightarrow> marshal_raw (json_text v) = Some (json_text v)"
  using compacted_json_text [of v] by (simp add: marshal_raw_def parse_text compacted_def) (metis append_Nil2 appendCompact.simps(1))

subsection \<open>A request is echoed as it was written\<close>

lemma bindings_map_of:
  assumes "distinct (map fst ms)"
  shows "mset (bindings (map_of ms)) = mset ms"
proof -
  have "finite (dom (map_of ms))" by (rule finite_dom_map_of)
  note b = bindings_props [OF this]
  have "set (bindings (map_of ms)) = set ms"
    using b(3) assms by (auto simp: map_of_eq_Some_iff)
  moreover have "distinct (bindings (map_of ms))" "distinct ms" using b(2) assms by (simp_all add: distinct_map)
  ultimately show ?thesis by (simp add: set_eq_iff_mset_eq_distinct)
qed

lemma metadata_text:
  assumes "distinct (map fst ms)" and "mset ms' = mset ms"
  shows "json_text (metadata_json ms') = json_text (metadata_json ms)"
proof -
  let ?t = "\<lambda>ms. map (\<lambda>(k, v). (k, json_text v)) (map (\<lambda>(k, v). (k, JStr v)) ms)"
  have "sort_keys (?t ms') = sort_keys (?t ms)"
  proof (rule sort_keys_unique)
    have "map fst (?t xs) = map fst xs" for xs by (simp add: case_prod_beta)
    then show "distinct (map fst (?t ms'))" using assms by (metis mset_eq_imp_distinct_iff mset_map)
    show "mset (?t ms') = mset (?t ms)" using assms(2) by simp
  qed
  then show ?thesis by (simp add: metadata_json_def)
qed

lemma marshal_request_text:
  assumes "request_ok p ms q"
  shows "marshal_request q = Some (request_text p ms q)"
proof -
  have ms: "mset (bindings (rq_Metadata q)) = mset ms" "distinct (map fst ms)"
    using assms bindings_map_of [of ms] by (simp_all add: request_ok_def)
  then have empty: "bindings (rq_Metadata q) = [] \<longleftrightarrow> ms = []" by (metis mset_zero_iff)
  have payload: "(if rq_Payload q = [] then Some [] else map_option (\<lambda>t. [(''payload'', t)]) (marshal_raw (rq_Payload q))) =
      Some (map (\<lambda>(k, v). (k, json_text v)) (case p of None \<Rightarrow> [] | Some v \<Rightarrow> [(''payload'', v)]))"
    using assms json_text_ends by (auto simp: request_ok_def marshal_raw_text nests_deep(2) split: option.splits)
  show ?thesis
    unfolding marshal_request_def payload
    by (simp add: request_text_def request_members_def empty unless_empty_def metadata_text [OF ms(2,1)] Let_def)
qed

subsection \<open>A ledger is read back from its answer\<close>

lemma lex_newline: "lex s = Some ts \<Longrightarrow> lex (s @ [CHR 0x0A]) = Some ts"
proof -
  have space: "is_space CHR 0x0A" "delimits [CHR 0x0A]" by (simp_all add: is_space_def delimits_def is_numchar_def is_digit_def)
  assume "lex s = Some ts"
  then obtain r where r: "tokens s ts r" "list_all is_space r" by (auto simp: lex_tokens)
  then have "tokens (s @ [CHR 0x0A]) ts (r @ [CHR 0x0A])" using space(2) by (intro tokens_append) auto
  then show ?thesis using r(2) space(1) by (auto simp: lex_tokens)
qed

lemma json_parse_newline: "json_parse s = Some v \<Longrightarrow> json_parse (s @ [CHR 0x0A]) = Some v"
  by (auto simp: json_parse_def lex_newline bind_eq_Some_conv)

lemma ledger_body:
  assumes "list_all (\<lambda>e. rfc3339_nano (le_Timestamp e) \<noteq> None) es"
  shows "json_body printable (BLedger es) = Some (json_text (JArr (map entry_enc es)))"
proof -
  have "\<forall>e\<in>set es. entry_value e = Some (entry_enc e)"
    using assms by (auto simp: entry_value_def entry_enc_def list_all_iff)
  then have "those (map entry_value es) = Some (map entry_enc es)" by (induction es) simp_all
  then show ?thesis by (simp del: json_text.simps)
qed

lemma Unmarshal_ledger_answer:
  assumes "list_all entry_ok es"
  shows "Unmarshal_entries (response_text printable redirect (BLedger es)) = Some es"
proof -
  have times: "list_all (\<lambda>e. rfc3339_nano (le_Timestamp e) \<noteq> None) es"
    using assms by (auto simp: entry_ok_def list_all_iff)
  have "json_parse (json_text (JArr (map entry_enc es))) = Some (raw_tree (JArr (map entry_enc es)))"
    by (intro parse_text entry_codec.array_numbers nests_mono [OF entry_codec.array_nests] assms) (simp add: maxNestingDepth_def)
  then have "json_parse (response_text printable redirect (BLedger es)) = Some (raw_tree (JArr (map entry_enc es)))"
    using json_parse_newline ledger_body [OF times, of printable]
    by (simp add: response_text_def del: json_body.simps json_text.simps raw_tree.simps)
  then show ?thesis
    using entry_codec.dec_slice_enc [OF assms, of False] by (simp add: Unmarshal_entries_def del: dec_slice.simps raw_tree.simps)
qed

text \<open>A decision, an entry or a ledger with a time that cannot be written is answered by an empty body.\<close>

lemma unwritable_time:
  "rfc3339_nano (ad_Timestamp d) = None \<Longrightarrow> response_text printable redirect (BRoute d e q) = []"
  "rfc3339_nano (le_Timestamp e) = None \<Longrightarrow> e \<in> set es \<Longrightarrow> response_text printable redirect (BLedger es) = []"
proof -
  show "rfc3339_nano (ad_Timestamp d) = None \<Longrightarrow> response_text printable redirect (BRoute d e q) = []"
    by (simp add: response_text_def route_body_def decision_value_def)
  assume "rfc3339_nano (le_Timestamp e) = None" and "e \<in> set es"
  then have "entry_value e = None" "e \<in> set es" by (simp_all add: entry_value_def)
  then have "\<not> list_all (\<lambda>e. entry_value e \<noteq> None) es" by (auto simp: list_all_iff)
  then show "response_text printable redirect (BLedger es) = []"
    by (simp add: response_text_def those_map del: not_None_eq)
qed

end
