(* ===== verification/Legible.thy ===== *)
theory Legible
  imports Wire
begin

text \<open>
  What the router service writes into its ledger is text that survives JSON: every string of an entry is
  UTF-8 and every time can be written, as long as the requests come off the wire, the clock stays within
  the years 0 to 9999 and the providers answer in UTF-8.

  The rules are weakest preconditions for \<open>yields legible\<close>: what a program returns, in whatever interleaving
  with other programs that keep the world legible.
\<close>

section \<open>Definitions\<close>

abbreviation writable :: "Time \<Rightarrow> bool" where
  "writable t \<equiv> rfc3339_nano t \<noteq> None"

definition request_utf8 :: "CapabilityRequest \<Rightarrow> bool" where
  "request_utf8 q \<longleftrightarrow>
     list_all utf8_valid [rq_RequestID q, rq_TenantID q, rq_MLCALane q, rq_IntentID q, rq_OperatorID q]
     \<and> capability_utf8 (rq_CapabilityClass q) \<and> model_utf8 (rq_ModelRef q)"

definition decision_ok :: "AdmissionDecision \<Rightarrow> bool" where
  "decision_ok d \<longleftrightarrow>
     list_all utf8_valid [ad_Result d, ad_Reason d, ad_RuleRef d, ad_DecisionID d, ad_RequestID d] \<and> writable (ad_Timestamp d)"

definition output_utf8 :: "StageOutput \<Rightarrow> bool" where
  "output_utf8 s \<longleftrightarrow> list_all utf8_valid [so_Stage s, so_Reason s, so_RuleRef s]"

definition outcome_ok :: "AdmissionOutcome \<Rightarrow> bool" where
  "outcome_ok out \<longleftrightarrow> decision_ok (ao_Decision out) \<and> entry_ok (ao_Entry out)"

text \<open>A provider whose reasons and errors are UTF-8.\<close>

definition adapter_utf8 :: "Adapter \<Rightarrow> bool" where
  "adapter_utf8 a \<longleftrightarrow>
     (\<forall>n q. request_utf8 q \<longrightarrow> utf8_valid (snd (ap_CapabilityRequest a n q))
        \<and> (case snd (snd (ap_Generate a n q)) of None \<Rightarrow> True | Some err \<Rightarrow> utf8_valid (error_text err)))"

definition legible :: "world \<Rightarrow> bool" where
  "legible w \<longleftrightarrow>
     (\<forall>n. writable (w_clock w n))
     \<and> list_all entry_ok (lg_entries (w_ledger w)) \<and> utf8_valid (lg_lastHash (w_ledger w))
     \<and> (\<forall>i. utf8_valid (fst (Correction (w_interrupts w) i)))
     \<and> (\<forall>p a. w_providers w p = Some a \<longrightarrow> adapter_utf8 a)"

abbreviation says :: "('a \<Rightarrow> bool) \<Rightarrow> 'a go \<Rightarrow> bool" where
  "says \<equiv> yields legible"

named_theorems says_intros \<open>what programs return and keep in a legible world\<close>

section \<open>Strings\<close>

lemma utf8_valid_int_dec [simp]: "utf8_valid (int_dec i)"
proof -
  have "utf8_valid (nat_dec n)" for n
    using digits_nat_dec [of n] by (intro utf8_valid_ascii) (auto simp: list_all_iff is_digit_def)
  then show ?thesis by (simp add: int_dec_def)
qed

lemma utf8_valid_sha256 [simp]: "utf8_valid (sha256_hex s)"
  by (simp add: sha256_hex_def utf8_valid_hex)

lemmas utf8_constants = Admit_def Deny_def Quarantine_def Lambda1_def Lambda2_def Lambda3_def Lambda4_def Lambda5_def Lambda6_def
  Lambda7_def StageInputValidation_def StageCapabilityCheck_def StageIdentitySeparation_def StageUSLGate_def StageDriftCheck_def
  StageOperatorCorrigibility_def StageAuditTrail_def StageLedgerWrite_def StageOutputValidation_def

lemma utf8_valid_constants [simp]:
  "utf8_valid Admit" "utf8_valid Deny" "utf8_valid Quarantine" "utf8_valid Lambda1" "utf8_valid Lambda2" "utf8_valid Lambda3"
  "utf8_valid Lambda4" "utf8_valid Lambda5" "utf8_valid Lambda6" "utf8_valid Lambda7"
  "utf8_valid StageInputValidation" "utf8_valid StageCapabilityCheck" "utf8_valid StageIdentitySeparation"
  "utf8_valid StageUSLGate" "utf8_valid StageDriftCheck" "utf8_valid StageOperatorCorrigibility" "utf8_valid StageAuditTrail"
  "utf8_valid StageLedgerWrite" "utf8_valid StageOutputValidation"
  by (simp_all add: utf8_constants)

section \<open>Rules\<close>

lemma says_Ret [says_intros]: "Q a \<Longrightarrow> says Q (Ret a)"
  by simp

lemma says_bindP [says_intros]: "says (\<lambda>a. says Q (k a)) p \<Longrightarrow> says Q (bindP p k)"
  by (rule yields_bindP)

lemma says_seqP [says_intros]: "says (\<lambda>_. says Q q) p \<Longrightarrow> says Q (seqP p q)"
  unfolding seqP_def by (rule says_bindP)

lemma says_keeps: "keeps legible p \<Longrightarrow> (\<And>a. Q a) \<Longrightarrow> says Q p"
  by (simp add: yields_keeps [symmetric]) (erule yields_weaken, simp)

interpretation legible_noise: noise_invariant legible
  by unfold_locales (simp add: legible_def gov_def)

lemma says_quiet [says_intros]:
  "Q1 () \<Longrightarrow> says Q1 (inc m ls)" "Q2 () \<Longrightarrow> says Q2 (observe_since m ls t)" "Q6 () \<Longrightarrow> says Q6 (metric c)"
  "(\<And>b. Q3 b) \<Longrightarrow> says Q3 ledger_Verify" "(\<And>b. Q4 b) \<Longrightarrow> says Q4 (isTerminated i)" "(\<And>b. Q5 b) \<Longrightarrow> says Q5 (isInterrupted i)"
  by (rule says_keeps; auto intro!: legible_noise.keeps_quiet quiet_intros)+

lemma says_time_Now [says_intros]: "(\<And>t. writable t \<Longrightarrow> Q t) \<Longrightarrow> says Q time_Now"
  unfolding time_Now_def atomic_def by (simp add: legible_noise.P_tick del: not_None_eq) (simp add: legible_def)

lemma says_getCorrection [says_intros]:
  assumes "\<And>d b. utf8_valid d \<Longrightarrow> Q (d, b)"
  shows "says Q (getCorrection i)"
  unfolding getCorrection_def
proof (rule yields_gets)
  fix w
  assume "legible w"
  then show "Q (Correction (w_interrupts w) i)"
    using assms [of "fst (Correction (w_interrupts w) i)" "snd (Correction (w_interrupts w) i)"] by (simp add: legible_def)
qed

lemma says_provider_lookup [says_intros]:
  assumes "Q None" and "\<And>a. adapter_utf8 a \<Longrightarrow> Q (Some a)"
  shows "says Q (provider_lookup p)"
  unfolding provider_lookup_def
proof (rule yields_gets)
  fix w
  assume "legible w"
  then show "Q (w_providers w p)" using assms by (cases "w_providers w p") (auto simp: legible_def)
qed

lemma says_exec [says_intros]:
  "Q1 () \<Longrightarrow> says Q1 (exec_Forcibly i s)" "(\<And>b. Q2 b) \<Longrightarrow> says Q2 (exec_Transition i cur next)" "(\<And>s. Q3 s) \<Longrightarrow> says Q3 (exec_Current i)"
  by (auto simp: exec_Forcibly_def exec_Transition_def exec_Current_def modify_def atomic_def gets_def legible_def Let_def case_prod_beta)

lemma says_override [says_intros]:
  "Q1 () \<Longrightarrow> says Q1 (override (Interrupt i))" "Q2 () \<Longrightarrow> says Q2 (override (Terminate i))"
  "utf8_valid d \<Longrightarrow> Q3 () \<Longrightarrow> says Q3 (override (Correct i d))"
  by (auto simp: override_def modify_def legible_def Interrupt_def Terminate_def Correct_def Correction_def split: option.splits)

text \<open>The ledger: what is appended is sealed with a hash, a clock reading and the hash before it.\<close>

lemma says_ledger_Append [says_intros]:
  assumes "entry_utf8 e" and "\<And>e'. entry_ok e' \<Longrightarrow> Q e'"
  shows "says Q (ledger_Append e)"
proof -
  have "entry_ok (fst (Append t e l)) \<and> utf8_valid (lg_lastHash (snd (Append t e l)))"
    if "writable t" "utf8_valid (lg_lastHash l)" for t l
    using that assms(1) by (simp add: Append_def Let_def entry_ok_def entry_utf8_def hashEntry_def)
  moreover have "lg_entries (snd (Append t e l)) = lg_entries l @ [fst (Append t e l)]" for t l
    by (simp add: Append_def Let_def)
  ultimately show ?thesis
    using assms(2) unfolding ledger_Append_def atomic_def
    by (auto simp: Let_def case_prod_beta legible_def tick_def simp del: not_None_eq)
qed

lemma says_WriteDecision [says_intros]:
  assumes "request_utf8 req" and "list_all utf8_valid [res, reason, rule, did]" and "list_all stage_utf8 lg"
    and "\<And>e. entry_ok e \<Longrightarrow> Q e"
  shows "says Q (WriteDecision req a res reason rule did lg)"
  unfolding WriteDecision_def
  by (intro says_intros) (use assms in \<open>auto simp: request_utf8_def model_utf8_def entry_utf8_def decision_entry_def
      replay_marker_def zero_LedgerEntry_def intro!: utf8_valid_append\<close>)

lemma says_WriteExecution [says_intros]:
  assumes "request_utf8 req" and "list_all utf8_valid [did, h]" and "\<And>e. Q e"
  shows "says Q (WriteExecution req did h)"
  unfolding WriteExecution_def
  by (intro says_intros) (use assms in \<open>auto simp: request_utf8_def model_utf8_def entry_utf8_def execution_entry_def
      replay_marker_def zero_LedgerEntry_def intro!: utf8_valid_append\<close>)

lemma says_new_decision [says_intros]:
  assumes "request_utf8 req" and "list_all utf8_valid [res, reason, rule]"
    and "\<And>d. decision_ok d \<Longrightarrow> Q d"
  shows "says Q (new_decision req res reason rule)"
  unfolding new_decision_def decID_def admittedDecision_def
  by (intro says_intros) (use assms in \<open>auto simp: decision_ok_def request_utf8_def intro!: utf8_valid_append\<close>)

lemma says_write_decision [says_intros]:
  assumes "request_utf8 req" and "decision_ok d" and "list_all stage_utf8 lg" and "\<And>e. entry_ok e \<Longrightarrow> Q e"
  shows "says Q (write_decision req a d lg)"
  unfolding write_decision_def by (intro says_intros) (use assms in \<open>auto simp: decision_ok_def\<close>)

text \<open>The providers.\<close>

lemma says_call_CapabilityRequest [says_intros]:
  assumes "adapter_utf8 a" and "request_utf8 req" and "\<And>ok reason. utf8_valid reason \<Longrightarrow> Q (ok, reason)"
  shows "says Q (call_CapabilityRequest a req)"
proof -
  have "Q (ap_CapabilityRequest a n req)" for n
    using assms(3) [of "snd (ap_CapabilityRequest a n req)" "fst (ap_CapabilityRequest a n req)"] assms(1,2)
    by (simp add: adapter_utf8_def)
  then show ?thesis by (auto simp: call_CapabilityRequest_def atomic_def legible_def tick_def)
qed

lemma says_boundedGenerate [says_intros]:
  assumes "adapter_utf8 a" and "request_utf8 req" and "\<And>g. Q (g, None)" and "\<And>g e. utf8_valid (error_text e) \<Longrightarrow> Q (g, Some e)"
  shows "says Q (boundedGenerate a req)"
proof -
  have "Q (snd (ap_Generate a n req))" for n
  proof (cases "snd (snd (ap_Generate a n req))")
    case None
    then show ?thesis using assms(3) [of "fst (snd (ap_Generate a n req))"] by (metis prod.collapse)
  next
    case (Some e)
    have "case snd (snd (ap_Generate a n req)) of None \<Rightarrow> True | Some err \<Rightarrow> utf8_valid (error_text err)"
      using assms(1,2) by (simp add: adapter_utf8_def)
    then have "utf8_valid (error_text e)" unfolding Some by simp
    with Some show ?thesis using assms(4) [of e "fst (snd (ap_Generate a n req))"] by (metis prod.collapse)
  qed
  moreover have "Q (None, Some ErrProviderTimeout)" by (rule assms(4)) simp
  ultimately show ?thesis
    by (auto simp: boundedGenerate_def start_Generate_def atomic_def gets_def legible_def tick_def case_prod_beta)
qed

section \<open>The pipeline and \<open>Admit\<close>\<close>

lemma says_USLGate_Check [says_intros]:
  assumes "\<And>d. list_all utf8_valid [ad_Reason d, ad_RuleRef d] \<Longrightarrow> Q d"
  shows "says Q (USLGate_Check u req)"
proof -
  obtain result reason rule ms where verdict: "usl_verdict u req = (result, reason, rule, ms)" by (metis prod_cases4)
  then have "list_all utf8_valid [reason, rule]"
    by (auto simp: usl_verdict_def split: if_splits option.splits)
  then have "yields (\<lambda>_. True) (\<lambda>d. list_all utf8_valid [ad_Reason d, ad_RuleRef d]) (USLGate_Check u req)"
    unfolding USLGate_Check_def decision_def verdict prod.case seqP_def by (auto simp: bindP_assoc intro!: returns_bindP)
  then show ?thesis
    using yields_keeps_returns [OF legible_noise.keeps_quiet [OF quiet_USLGate_Check]] assms by (blast intro: yields_weaken)
qed

lemma says_stage:
  assumes "s \<in> set (gre_Stages (NewGRE1001 usl))" and "\<And>out. output_utf8 out \<Longrightarrow> Q out"
  shows "says Q (ss_Check s si)"
proof -
  have l4: "utf8_valid (lr_Reason (checkLambda4 req ts))" for req ts by (induction ts) auto
  have "says Q (stageIdentitySeparation si)" "says Q (stageUSLGate si)" "says Q (stageDriftCheck si)" "says Q (stageOperatorCorrigibility si)"
    unfolding stageIdentitySeparation_def stageUSLGate_def stageDriftCheck_def stageOperatorCorrigibility_def Let_def
    by (auto simp: output_utf8_def stage_out_def l4 intro!: says_intros legible_noise.keeps_quiet yields_gets assms(2) utf8_valid_append
        split: prod.splits)
  moreover have "Q (stageInputValidation si)" "Q (stageCapabilityCheck si)" "Q (stageAuditTrail si)" "Q (stageLedgerWrite si)"
    "Q (stageOutputValidation si)"
    by (auto simp: stageInputValidation_def stageCapabilityCheck_def stageAuditTrail_def stageLedgerWrite_def
        stageOutputValidation_def output_utf8_def stage_out_def Let_def intro!: assms(2))
  ultimately show ?thesis using assms(1) by (auto simp: NewGRE1001_def step_def)
qed

lemma says_run_stages:
  assumes "set ss \<subseteq> set (gre_Stages (NewGRE1001 usl))" and "list_all output_utf8 outs"
    and "\<And>outs ok. list_all output_utf8 outs \<Longrightarrow> ok \<or> outs \<noteq> [] \<Longrightarrow> Q (outs, ok)"
  shows "says Q (run_stages ss si outs)"
  using assms
proof (induction ss arbitrary: outs)
  case (Cons s ss)
  have "says (\<lambda>out. says Q (seqP (observe_since MetricStageDuration [ss_Name s] start)
      (seqP (inc MetricLambdaCheck [ss_Name s, boolStr (so_Passed out)])
        (if \<not> so_Passed out then seqP (inc MetricHalt []) (Ret (outs @ [out], False)) else run_stages ss si (outs @ [out])))))
      (ss_Check s si)" for start
    by (rule says_stage) (use Cons in \<open>auto intro!: says_intros\<close>)
  then show ?case by (auto intro!: says_intros)
qed (auto intro: says_Ret)

lemma says_GRE_Run [says_intros]:
  "(\<And>outs ok. list_all output_utf8 outs \<Longrightarrow> ok \<or> outs \<noteq> [] \<Longrightarrow> Q (outs, ok)) \<Longrightarrow> says Q (GRE_Run (NewGRE1001 usl) si)"
  unfolding GRE_Run_def by (rule says_run_stages) auto

lemma stage_utf8_records: "list_all output_utf8 outs \<Longrightarrow> list_all stage_utf8 (toStageRecords outs)"
  by (auto simp: toStageRecords_def list_all_iff output_utf8_def stage_utf8_def)

lemma stage_utf8_record [simp]: "stage_utf8 (stage_record s b reason rule) \<longleftrightarrow> list_all utf8_valid [s, reason, rule]"
  by (simp add: stage_utf8_def stage_record_def)

lemma outcome_ok_outcome [simp]: "outcome_ok (outcome d e recs) \<longleftrightarrow> decision_ok d \<and> entry_ok e"
  by (simp add: outcome_ok_def outcome_def)

abbreviation decides :: "(AdmissionOutcome \<times> GoError option) go \<Rightarrow> bool" where
  "decides p \<equiv> says (\<lambda>r. outcome_ok (fst r)) p"

lemma says_denials:
  assumes "request_utf8 req"
  shows "decides (admit_ledger_break req)" "decides (admit_terminated req)" "decides (admit_interrupted req start)"
    "list_all output_utf8 outs \<Longrightarrow> outs \<noteq> [] \<Longrightarrow> decides (admit_halted req outs)"
    "list_all stage_utf8 recs \<Longrightarrow> utf8_valid (id_Reason im) \<Longrightarrow> decides (admit_quarantined req recs im)"
    "list_all stage_utf8 recs \<Longrightarrow> decides (admit_no_provider req recs)"
    "list_all stage_utf8 recs \<Longrightarrow> utf8_valid reason \<Longrightarrow> decides (admit_refused req recs reason)"
    "list_all stage_utf8 recs \<Longrightarrow> decides (admit_in_flight req start recs)"
proof -
  note denials = admit_ledger_break_def admit_terminated_def admit_interrupted_def admit_quarantined_def
    admit_no_provider_def admit_refused_def admit_in_flight_def admit_terminated_in_flight_def admit_interrupted_in_flight_def
    admit_commit_def
  show "decides (admit_ledger_break req)"
    unfolding denials using assms
    by (intro says_intros) (auto simp: request_utf8_def model_utf8_def entry_utf8_def zero_LedgerEntry_def decision_ok_def intro!: utf8_valid_append)
  show "decides (admit_terminated req)" "decides (admit_interrupted req start)"
    "list_all stage_utf8 recs \<Longrightarrow> utf8_valid (id_Reason im) \<Longrightarrow> decides (admit_quarantined req recs im)"
    "list_all stage_utf8 recs \<Longrightarrow> decides (admit_no_provider req recs)"
    "list_all stage_utf8 recs \<Longrightarrow> utf8_valid reason \<Longrightarrow> decides (admit_refused req recs reason)"
    "list_all stage_utf8 recs \<Longrightarrow> decides (admit_in_flight req start recs)"
    unfolding denials by (auto intro!: says_intros assms utf8_valid_append)
  show "decides (admit_halted req outs)" if "list_all output_utf8 outs" "outs \<noteq> []"
  proof -
    have "output_utf8 (outs ! (length outs - 1))" using that by (simp add: list_all_length)
    then show ?thesis
      unfolding admit_halted_def Let_def using that
      by (auto intro!: says_intros assms stage_utf8_records simp: output_utf8_def)
  qed
qed

lemma says_Immune_Classify [says_intros]:
  "(\<And>d. utf8_valid (id_Reason d) \<Longrightarrow> Q d) \<Longrightarrow> says Q (Immune_Classify req)"
  unfolding Immune_Classify_def Let_def by (intro says_intros) (simp add: Classify_decision_def)

lemma operator_approval_utf8: "utf8_valid (id_Reason im) \<Longrightarrow> utf8_valid (id_Reason (operator_approval r req im))"
  by (auto simp: operator_approval_def intro!: utf8_valid_append split: prod.splits)

lemma says_Router_Admit:
  assumes "request_utf8 req"
  shows "decides (Router_Admit (make_Router ts lat) req)"
proof -
  note denials = says_denials [OF assms]
  have provider: "decides (admit_provider req start recs)" if "list_all stage_utf8 recs" for start recs
    unfolding admit_provider_def using that by (auto intro!: says_intros denials assms)
  have pipeline: "decides (admit_pipeline (make_Router ts lat) req start)" for start
    unfolding admit_pipeline_def make_Router_gre Let_def
    by (auto intro!: says_intros denials provider stage_utf8_records operator_approval_utf8)
  have gates: "decides (admit_gates (make_Router ts lat) req start)" for start
    unfolding admit_gates_def by (auto intro!: says_intros denials pipeline)
  show ?thesis
    unfolding Router_Admit_def by (intro says_bindP says_time_Now yields_weaken [OF gates]) (intro says_intros)
qed

section \<open>Execution and the endpoints\<close>

abbreviation executes :: "(AdmissionOutcome \<times> ExecutionResult \<times> GoError option) go \<Rightarrow> bool" where
  "executes p \<equiv> says (\<lambda>r. outcome_ok (fst r)) p"

lemma says_execute_provider:
  assumes "request_utf8 req" and "outcome_ok out"
  shows "executes (execute_provider req out)"
proof -
  have "utf8_valid (ad_DecisionID (ao_Decision out))" using assms(2) by (simp add: outcome_ok_def decision_ok_def)
  then show ?thesis
    unfolding execute_provider_def execute_no_provider_def execute_failed_def execute_done_def Let_def
    by (auto intro!: says_intros assms simp: HashResult_def)
qed

lemma says_GovernAndExecute:
  assumes "request_utf8 req"
  shows "executes (GovernAndExecute (make_Router ts lat) req)"
proof -
  have "executes (execute_admitted req out)" if "outcome_ok out" for out
    unfolding execute_admitted_def using that by (auto intro!: says_intros says_execute_provider assms)
  then show ?thesis
    unfolding GovernAndExecute_def by (intro says_bindP yields_weaken [OF says_Router_Admit [OF assms]]) auto
qed

lemma says_operatorLedger [says_intros]:
  assumes "list_all utf8_valid [or_IntentID ir, reason, rule]" and "\<And>e. Q e"
  shows "says Q (operatorLedger ir reason rule)"
  unfolding operatorLedger_def
  by (intro says_intros) (use assms in \<open>auto simp: request_utf8_def zero_CapabilityRequest_def capability_utf8_def
      zero_CapabilityClass_def model_utf8_def zero_ModelRef_def intro!: utf8_valid_append\<close>)

section \<open>What comes off the wire\<close>

lemma model_fields_utf8: "dec_struct strict model_fields v m = Some m' \<Longrightarrow> model_utf8 m \<Longrightarrow> model_utf8 m'"
proof (rule dec_struct_inv [where P = model_utf8 and fs = model_fields])
  show "\<forall>f\<in>snd ` set model_fields. \<forall>v r r'. model_utf8 r \<longrightarrow> f v r = Some r' \<longrightarrow> model_utf8 r'"
    unfolding model_fields_def field_sets
    by (intro conjI TrueI string_field_inv) (simp_all add: model_utf8_def)
qed

lemma on_value_utf8:
  "on_value dec_string raw x = Some x' \<Longrightarrow> utf8_valid x \<Longrightarrow> utf8_valid x'"
  "on_value (dec_struct strict capability_fields) raw c = Some c' \<Longrightarrow> capability_utf8 c \<Longrightarrow> capability_utf8 c'"
  "on_value (dec_struct strict model_fields) raw m = Some m' \<Longrightarrow> model_utf8 m \<Longrightarrow> model_utf8 m'"
  by (auto simp: on_value_def bind_eq_Some_conv dest: dec_string_utf8 capability_fields_utf8 model_fields_utf8)

lemma dec_text_struct_inv:
  assumes "\<forall>f\<in>snd ` set fs. \<forall>v r r'. P r \<longrightarrow> f v r = Some r' \<longrightarrow> P r'"
    and "dec_text_struct strict fs raw r = Some r'" and "P r"
  shows "P r'"
  using assms dec_members_inv [OF assms(1)] by (auto simp: dec_text_struct_def split: option.splits jdata.splits)

lemma dec_request_utf8: "dec_request raw q = Some q' \<Longrightarrow> request_utf8 q \<Longrightarrow> request_utf8 q'"
  unfolding dec_request_def
proof (erule dec_text_struct_inv [rotated])
  show "\<forall>f\<in>snd ` set request_fields. \<forall>v r r'. request_utf8 r \<longrightarrow> f v r = Some r' \<longrightarrow> request_utf8 r'"
    unfolding request_fields_def field_sets
    by (intro conjI TrueI field_inv [where Q = utf8_valid, OF on_value_utf8(1)]
        field_inv [where Q = capability_utf8, OF on_value_utf8(2)] field_inv [where Q = model_utf8, OF on_value_utf8(3)]
        field_inv [where dec = raw_message and Q = "\<lambda>_. True"]
        field_inv [where dec = "on_value (dec_map dec_string [])" and Q = "\<lambda>_. True"]
        field_inv [where dec = "on_value (dec_pointer (dec_struct True coherence_fields) zero_CoherenceProjection)" and Q = "\<lambda>_. True"])
      (simp_all add: request_utf8_def)
qed

lemma zero_request_utf8 [simp]: "request_utf8 zero_CapabilityRequest"
  by (simp add: request_utf8_def zero_CapabilityRequest_def capability_utf8_def zero_CapabilityClass_def model_utf8_def zero_ModelRef_def)

lemma Decode_utf8:
  "Decode_request s = Some q \<Longrightarrow> request_utf8 q"
  "Decode_workflow s = Some (wid, q) \<Longrightarrow> request_utf8 q"
  "Decode_operator s = Some ir \<Longrightarrow> utf8_valid (or_IntentID ir) \<and> utf8_valid (or_Directive ir)"
proof -
  show "Decode_request s = Some q \<Longrightarrow> request_utf8 q"
    using dec_request_utf8 by (auto simp: Decode_request_def Decode_into_def bind_eq_Some_conv)
  have w: "\<forall>f\<in>snd ` set workflow_fields. \<forall>v r r'. request_utf8 (snd r) \<longrightarrow> f v r = Some r' \<longrightarrow> request_utf8 (snd r')"
    unfolding workflow_fields_def field_sets
    by (intro conjI TrueI field_inv [where Q = request_utf8, OF dec_request_utf8]
        field_inv [where dec = "on_value dec_string" and Q = "\<lambda>_. True"]) (auto split: prod.splits)
  show "Decode_workflow s = Some (wid, q) \<Longrightarrow> request_utf8 q"
    using dec_text_struct_inv [OF w] by (fastforce simp: Decode_workflow_def Decode_into_def bind_eq_Some_conv)
  have o: "\<forall>f\<in>snd ` set operator_fields. \<forall>v r r'. utf8_valid (or_IntentID r) \<and> utf8_valid (or_Directive r) \<longrightarrow> f v r = Some r'
      \<longrightarrow> utf8_valid (or_IntentID r') \<and> utf8_valid (or_Directive r')"
    unfolding operator_fields_def field_sets
    by (auto simp: field_def dest: dec_string_utf8)
  show "Decode_operator s = Some ir \<Longrightarrow> utf8_valid (or_IntentID ir) \<and> utf8_valid (or_Directive ir)"
    using dec_struct_inv [OF o] by (fastforce simp: Decode_operator_def Decode_into_def bind_eq_Some_conv on_value_def zero_operatorRequest_def)
qed

section \<open>The handlers on the wire\<close>

lemma keeps_says: "says Q p \<Longrightarrow> keeps legible p"
  by (simp add: yields_keeps [symmetric]) (erule yields_weaken, simp)

lemma says_respond [says_intros]: "Q \<lparr>rp_Status = st, rp_Body = b\<rparr> \<Longrightarrow> says Q (respond st b)"
  by (simp add: respond_def)

lemma read_strict_decoded: "read_strict fault dec r = Decoded v \<Longrightarrow> \<exists>s. dec s = Some v"
  by (auto simp: read_strict_def split: option.splits)

definition readable :: "Response \<Rightarrow> bool" where
  "readable rp \<longleftrightarrow>
     (case rp_Body rp of
        BRoute d e q \<Rightarrow> decision_ok d \<and> entry_ok e
      | BWorkflow wid d x e err \<Rightarrow> decision_ok d \<and> entry_ok e
      | BLedger es \<Rightarrow> list_all entry_ok es
      | _ \<Rightarrow> True)"

lemma readable_simps [simp]:
  "readable \<lparr>rp_Status = st, rp_Body = BRoute d e q\<rparr> \<longleftrightarrow> decision_ok d \<and> entry_ok e"
  "readable \<lparr>rp_Status = st, rp_Body = BWorkflow wid d x e err\<rparr> \<longleftrightarrow> decision_ok d \<and> entry_ok e"
  "readable \<lparr>rp_Status = st, rp_Body = BLedger es\<rparr> \<longleftrightarrow> list_all entry_ok es"
  "readable \<lparr>rp_Status = st, rp_Body = BError s\<rparr>" "readable \<lparr>rp_Status = st, rp_Body = BText s\<rparr>"
  "readable \<lparr>rp_Status = st, rp_Body = BRedirect s\<rparr>" "readable \<lparr>rp_Status = st, rp_Body = BOperator s i\<rparr>"
  "readable \<lparr>rp_Status = st, rp_Body = BVerify ok n\<rparr>"
  by (simp_all add: readable_def)

lemma says_RouteHandler:
  assumes "\<And>q. hr_Body r = Decoded q \<Longrightarrow> request_utf8 q"
  shows "says readable (RouteHandler (make_Server ts lat token) r)"
proof -
  have "says readable (bindP (Router_Admit (make_Router ts lat) q) (\<lambda>(out, err).
      respond (route_status out err) (BRoute (ao_Decision out) (ao_Entry out) q)))" if "hr_Body r = Decoded q" for q
    by (intro says_bindP yields_weaken [OF says_Router_Admit [OF assms [OF that]]]) (auto simp: outcome_ok_def intro!: says_intros)
  then show ?thesis
    by (auto simp: RouteHandler_def make_Server_def WithAuth_def NewServer_def intro!: says_intros split: body.splits)
qed

lemma zero_outcome_ok: "outcome_ok zero_AdmissionOutcome"
proof -
  have "writable zero_Time" by code_simp
  then show ?thesis
    by (simp add: outcome_ok_def zero_AdmissionOutcome_def decision_ok_def zero_AdmissionDecision_def entry_ok_def zero_LedgerEntry_def
        entry_utf8_def capability_utf8_def zero_CapabilityClass_def)
qed

lemma says_workflowHandler:
  assumes "\<And>wid q. hr_Body r = Decoded (wid, q) \<Longrightarrow> request_utf8 q"
  shows "says readable (workflowHandler (NewWorkflowService (make_Router ts lat)) r)"
proof -
  have specs: "capability_utf8 (wf_CapabilityClass spec)" if "ws_specs (NewWorkflowService s) wid = Some spec" for spec wid s
    using that
    by (auto simp: NewWorkflowService_def intake_spec_def otem_spec_def suggestion_spec_def training_spec_def capability_def
        capability_utf8_def split: if_splits)
  have "executes (Workflow_Run (NewWorkflowService (make_Router ts lat)) wid q)" if "hr_Body r = Decoded (wid, q)" for wid q
  proof -
    have "request_utf8 (q\<lparr>rq_CapabilityClass := wf_CapabilityClass spec\<rparr>)"
      if "ws_specs (NewWorkflowService (make_Router ts lat)) wid = Some spec" for spec
      using specs [OF that] assms [OF \<open>hr_Body r = Decoded (wid, q)\<close>] by (simp add: request_utf8_def)
    moreover have "ws_router (NewWorkflowService (make_Router ts lat)) = make_Router ts lat" by (simp add: NewWorkflowService_def)
    ultimately show ?thesis
      unfolding Workflow_Run_def by (auto intro!: says_GovernAndExecute zero_outcome_ok split: option.splits)
  qed
  note run = this
  have "says readable (bindP (Workflow_Run (NewWorkflowService (make_Router ts lat)) wid q) (\<lambda>(out, exec, err).
      respond (workflow_status out err) (BWorkflow wid (ao_Decision out) exec (ao_Entry out) err)))"
    if "hr_Body r = Decoded (wid, q)" for wid q
    by (intro says_bindP yields_weaken [OF run [OF that]]) (auto simp: outcome_ok_def intro!: says_intros)
  then show ?thesis
    unfolding workflowHandler_def by (auto intro!: says_intros split: body.splits)
qed

lemma says_operator_handlers:
  assumes "\<And>ir. hr_Body r = Decoded ir \<Longrightarrow> utf8_valid (or_IntentID ir) \<and> utf8_valid (or_Directive ir)"
  shows "says readable (InterruptHandler s r)" "says readable (CorrectHandler s r)" "says readable (TerminateHandler s r)"
proof -
  have frame: "says readable (operator_frame s r filled missing act)"
    if "\<And>ir. hr_Body r = Decoded ir \<Longrightarrow> says readable (act ir)" for filled missing act
    using that by (auto simp: operator_frame_def intro!: says_intros split: body.splits)
  show "says readable (InterruptHandler s r)" "says readable (CorrectHandler s r)" "says readable (TerminateHandler s r)"
    unfolding InterruptHandler_def CorrectHandler_def TerminateHandler_def
    by (rule frame, use assms in \<open>auto intro!: says_intros utf8_valid_append\<close>)+
qed

theorem says_wire:
  "says readable (ServeHTTP (runHTTP (routes_router (make_Server ts lat token) fault page)) r)"
proof (cases rule: ServeHTTP_cases [of "runHTTP (routes_router (make_Server ts lat token) fault page)" r])
  case (1 h p)
  let ?s = "make_Server ts lat token"
  have router: "sv_router ?s = make_Router ts lat" by (simp add: make_Server_def WithAuth_def NewServer_def)
  have ledger: "says readable LedgerHandler"
    unfolding LedgerHandler_def ledger_Export_def
    by (intro says_bindP yields_gets says_respond) (simp add: legible_def Export_def)
  have reads: "says readable VerifyHandler" "says readable (metricsHandler page)" "says readable healthzHandler"
    unfolding VerifyHandler_def metricsHandler_def healthzHandler_def
    by (auto intro!: says_intros yields_gets split: sum.splits)
  have operator: "hr_Body (http_request r (read_operator r)) = Decoded ir \<Longrightarrow> utf8_valid (or_IntentID ir) \<and> utf8_valid (or_Directive ir)" for ir
    using Decode_utf8(3) by (auto simp: http_request_def read_operator_def split: option.splits)
  have "says readable (RouteHandler ?s (http_request r (read_strict fault Decode_request r)))"
    by (rule says_RouteHandler) (auto simp: http_request_def dest!: read_strict_decoded Decode_utf8(1))
  moreover have "says readable (workflowHandler (NewWorkflowService (make_Router ts lat)) (http_request r (read_strict fault Decode_workflow r)))"
    by (rule says_workflowHandler) (auto simp: http_request_def dest!: read_strict_decoded Decode_utf8(2))
  ultimately show ?thesis
    using 1(1,2) ledger reads says_operator_handlers [OF operator] router unfolding runHTTP_def routes_router_def by fastforce
next
  case 2
  then show ?thesis by (simp add: NotFoundHandler_def says_intros)
next
  case (3 c)
  then show ?thesis by (simp add: RedirectHandler_def says_intros)
qed

text \<open>So the world stays legible at every moment of every interleaving of requests from the wire.\<close>

interpretation legible_pool: pool_invariant
  "range (ServeHTTP (runHTTP (routes_router (make_Server ts lat token) fault page)))" legible for ts lat token fault page
  by unfold_locales (auto intro: keeps_says [OF says_wire])

end
