(* ===== verification/Answers.thy ===== *)
theory Answers
  imports Boot Responses Legible
begin

text \<open>
  What a client can do with an answer: the ledger that \<open>/ledger\<close> sends is read back entry for entry and
  verifies, and \<open>/route\<close> answers with the decision, the entry it has appended and the request as the client
  wrote it.
\<close>

section \<open>Facts\<close>

declare json_chars.simps(2) [simp del]

lemma yields_run: "yields P Q p \<Longrightarrow> P w \<Longrightarrow> Q (fst (run p w))"
  by (induction p arbitrary: w) auto

lemma infinity_utf8: "adapter_utf8 (NewProjectInfinityAdapter url latency)"
  by (auto simp: adapter_utf8_def NewProjectInfinityAdapter_def ProjectInfinity_CapabilityRequest_def ProjectInfinity_Generate_def)

lemma fake_utf8: "adapter_utf8 (NewFakeAdapter allow latency)"
  by (auto simp: adapter_utf8_def NewFakeAdapter_def FakeAdapter_CapabilityRequest_def FakeAdapter_Generate_def)

text \<open>A service starts in a legible world.\<close>

lemma legible_started: "started_state w w' \<Longrightarrow> \<forall>n. writable (w_clock w n) \<Longrightarrow> legible w'"
  by (auto simp: started_state_def legible_def NewLedger_def genesis_def NewInterruptStore_def Correction_def)
    (metis infinity_utf8)

text \<open>The entry that \<open>Admit\<close> returns is the one it has appended.\<close>

lemma Admit_appends:
  "\<exists>out err w'. run (Router_Admit (make_Router ts lat) req) w = ((out, err), w')
     \<and> Export (w_ledger w') = Export (w_ledger w) @ [ao_Entry out]"
proof -
  obtain n where dec: "decided req (admit_verdict (make_Router ts lat) req w n) w (run (Router_Admit (make_Router ts lat) req) w)"
    using decided_Admit [OF make_Router_gre] by blast
  obtain out err w' where r: "run (Router_Admit (make_Router ts lat) req) w = ((out, err), w')" by (metis prod.collapse)
  with dec obtain t e ex cs where "ao_Entry out = fst (Append t e (w_ledger w))"
    and "gov w' = gov (w\<lparr>w_ledger := snd (Append t e (w_ledger w)), w_exec := ex, w_calls := cs\<rparr>)"
    by (auto simp: decided_def Let_def)
  with gov_fields(3) [OF this(2)] have "Export (w_ledger w') = Export (w_ledger w) @ [ao_Entry out]"
    by (simp add: Export_def Append_def Let_def)
  with r show ?thesis by blast
qed

lemma wire_ledger_path:
  assumes "wr_EscapedPath r = ''/ledger''"
  shows "ServeHTTP (runHTTP (routes_router s fault page)) r = LedgerHandler"
proof -
  have "cleanPath ''/ledger'' = ''/ledger''"
    by (simp add: cleanPath_def path_Clean_def join_segments_def Let_def)
  moreover have "mux_match (runHTTP (routes_router s fault page)) ''/ledger'' = Some (\<lambda>r. LedgerHandler)"
    by (simp add: mux_match_def pathUnescape_def runHTTP_def routes_router_def)
  ultimately show ?thesis using ServeHTTP_route assms by metis
qed

definition still_world :: world where
  "still_world = sample_world\<lparr>w_clock := \<lambda>_. 0\<rparr>"

lemma still_legible: "legible still_world"
proof -
  have "writable 0" by code_simp
  then show ?thesis
    by (simp add: still_world_def sample_world_def legible_def NewLedger_def genesis_def NewInterruptStore_def Correction_def fake_utf8)
qed

definition get_ledger :: WireRequest where
  "get_ledger = \<lparr>wr_Method = ''GET'', wr_EscapedPath = ''/ledger'', wr_Authorization = [], wr_Bytes = [], wr_Broken = False\<rparr>"

definition post_route :: "string \<Rightarrow> WireRequest" where
  "post_route text = \<lparr>wr_Method = ''POST'', wr_EscapedPath = ''/route'', wr_Authorization = [], wr_Bytes = text, wr_Broken = False\<rparr>"

section \<open>Properties\<close>

text \<open>
  C11: a client that reads \<open>/ledger\<close> can verify what it gets: whatever requests have arrived on the wire and
  however they are interleaved, the bytes of the answer are decoded to exactly the entries of the
  ledger, and these verify, as long as the clock stays within the years 0 to 9999.
\<close>

theorem ledger_answer_verifies:
  assumes "registers MustRegister names" and "names reg = {}" and "RunService (w_env w) = Some RouterService"
    and "run (boot MustRegister reg latency fault page) w = (Some (addr, mux), w1)"
    and "\<forall>n. rfc3339_nano (w_clock w n) \<noteq> None"
    and "pool_run (range (ServeHTTP mux)) (w1, []) (w2, ps)" and "wr_EscapedPath r = ''/ledger''"
  shows "\<exists>es. Unmarshal_entries (response_text printable redirect (rp_Body (fst (run (ServeHTTP mux r) w2)))) = Some es
    \<and> es = Export (w_ledger w2) \<and> VerifyExport es = (True, 0)"
proof -
  define ts where "ts = fst (Build (LoadConfig (w_disk w) Unmarshal_Config (config_path (w_env w))))"
  define lat where "lat = snd (Build (LoadConfig (w_disk w) Unmarshal_Config (config_path (w_env w))))"
  let ?token = "w_env w ''VOSS_OPERATOR_TOKEN''"
  obtain w' where "run (boot MustRegister reg latency fault page) w =
      (Some (listen_addr (w_env w), runHTTP (routes_router (make_Server ts lat ?token) fault page)), w')" "started_state w w'"
    using run_boot_router [OF assms(1-3) refl, of latency fault page] unfolding ts_def lat_def by auto
  then have mux: "mux = runHTTP (routes_router (make_Server ts lat ?token) fault page)" and w1: "started_state w w1"
    using assms(4) by auto
  have "legible w2"
    using legible_pool.run_keeps [OF assms(6) [unfolded mux]] legible_started [OF w1 assms(5)] by simp
  then have ok: "list_all entry_ok (Export (w_ledger w2))" by (simp add: legible_def Export_def)
  have "pool_run (endpoints ts lat ?token) (w1, []) (w2, ps)"
    using pool_run_mono [OF assms(6)] wire_endpoint unfolding mux by (simp add: image_subset_iff)
  from wf_inv.service_keeps [OF this] started_state_facts(1) [OF w1] have "Verify (w_ledger w2) = (True, 0)"
    by (simp add: ledger_wf_Verify)
  then have "VerifyExport (Export (w_ledger w2)) = (True, 0)" by (simp add: Verify_VerifyExport Export_def)
  moreover have "rp_Body (fst (run (ServeHTTP mux r) w2)) = BLedger (Export (w_ledger w2))"
    unfolding mux wire_ledger_path [OF assms(7)] by (simp add: LedgerHandler_def ledger_Export_def run_simps)
  ultimately show ?thesis using Unmarshal_ledger_answer [OF ok] by simp
qed

theorem ledger_answer_verifies_witness:
  "let (started, w1) = run (boot name_registry [] 1 (\<lambda>s. s) (\<lambda>_. Inr [])) still_world;
       mux = snd (the started); w2 = snd (run (ServeHTTP mux (post_route ''null'')) w1) in
   Unmarshal_entries (response_text (\<lambda>_. False) (\<lambda>p. p) (rp_Body (fst (run (ServeHTTP mux get_ledger) w2)))) = Some (Export (w_ledger w2))"
proof -
  have env: "w_env still_world = (\<lambda>_. [])" by (simp add: still_world_def sample_world_def)
  have mode: "RunService (w_env still_world) = Some RouterService"
    unfolding env by (simp add: RunService_def modeFromEnv_def ModeRouter_def ModeUslGate_def ModeGRE1001_def ModeLedger_def ModeDrift_def)
  obtain mux w1 where boot: "run (boot name_registry [] 1 (\<lambda>s. s) (\<lambda>_. Inr [])) still_world = (Some (listen_addr (w_env still_world), mux), w1)"
    using run_boot_router [OF registers_name_registry _ mode refl, of "[]" 1 "\<lambda>s. s" "\<lambda>_. Inr []"] by auto
  have clock: "\<forall>n. rfc3339_nano (w_clock still_world n) \<noteq> None"
    using still_legible by (simp add: legible_def)
  have "pool_run (range (ServeHTTP mux)) (w1, []) (snd (run (ServeHTTP mux r) w1), [Ret (fst (run (ServeHTTP mux r) w1))])" for r
    using pool_run_arrive [of "ServeHTTP mux r" "range (ServeHTTP mux)" w1 "[]"] by (auto intro: pool_run_trans [OF sample_run])
  from ledger_answer_verifies [OF registers_name_registry _ mode boot clock this, of get_ledger "\<lambda>_. False" "\<lambda>p. p" "post_route ''null''"]
  show ?thesis by (simp add: boot Let_def get_ledger_def del: One_nat_def)
qed

text \<open>
  C15: the answer of \<open>/route\<close> to a request posted as its compact JSON text, within the limit and in a legible
  world: the world is the one \<open>Admit\<close> leaves, the status is the one of its outcome, and the bytes are the
  JSON object of the decision \<open>Admit\<close> took, of the one entry it appended, which is read back from the bytes
  exactly, and of the request, whose text is the posted one.
\<close>

theorem route_answer:
  assumes "legible w" and "request_ok p ms q" and "length (request_text p ms q) \<le> body_limit"
    and "wr_Method r = ''POST''" and "wr_EscapedPath r = ''/route''" and "wr_Bytes r = request_text p ms q @ x" and "\<not> wr_Broken r"
  shows "let ((out, err), w1) = run (Router_Admit (make_Router ts lat) q) w;
      (rp, w') = run (ServeHTTP (runHTTP (routes_router (make_Server ts lat token) fault page)) r) w in
    w' = w1 \<and> rp_Status rp = route_status out err \<and> Export (w_ledger w') = Export (w_ledger w) @ [ao_Entry out]
    \<and> (\<exists>d entry. decision_value (ao_Decision out) = Some d \<and> Decode_entry entry = Some (ao_Entry out)
      \<and> response_text printable redirect (rp_Body rp) =
          json_fields [(''decision'', json_text d), (''ledger'', entry), (''request'', request_text p ms q)] @ [CHR 0x0A])"
proof -
  let ?route = "ServeHTTP (runHTTP (routes_router (make_Server ts lat token) fault page)) r"
  obtain out err w' where out: "run (Router_Admit (make_Router ts lat) q) w = ((out, err), w')"
    "Export (w_ledger w') = Export (w_ledger w) @ [ao_Entry out]"
    using Admit_appends by blast
  let ?d = "ao_Decision out" and ?e = "ao_Entry out"
  have router: "sv_router (make_Server ts lat token) = make_Router ts lat" by (simp add: make_Server_def WithAuth_def NewServer_def)
  have run: "run ?route w = (\<lparr>rp_Status = route_status out err, rp_Body = BRoute ?d ?e q\<rparr>, w')"
    unfolding wire_request_admitted [OF assms(2-7)] router by (simp add: run_simps out)
  have "readable (fst (run ?route w))" by (rule yields_run [OF says_wire assms(1)])
  then have ok: "decision_ok ?d" "entry_ok ?e" by (simp_all add: run)
  then have d: "decision_value ?d \<noteq> None" by (auto simp: decision_ok_def decision_value_def)
  have e: "entry_value ?e = Some (entry_enc ?e)" using ok(2) by (auto simp: entry_ok_def entry_value_def entry_enc_def)
  have "Decode_entry (json_text (entry_enc ?e)) = Some ?e" using Decode_entry_text [OF ok(2), of "[]"] by simp
  moreover have "response_text printable redirect (BRoute ?d ?e q) =
      json_fields [(''decision'', json_text (the (decision_value ?d))), (''ledger'', json_text (entry_enc ?e)), (''request'', request_text p ms q)]
      @ [CHR 0x0A]"
    using d by (auto simp: response_text_def route_body_def e marshal_request_text [OF assms(2)])
  ultimately show ?thesis using d out(2) unfolding run out(1) Let_def prod.case by auto
qed

theorem route_answer_witness:
  "let out = fst (fst (run (Router_Admit (make_Router [] []) zero_CapabilityRequest) still_world));
       (rp, w') = run (ServeHTTP (runHTTP (routes_router (make_Server [] [] []) (\<lambda>s. s) (\<lambda>_. Inr [])))
         (post_route (request_text None [] zero_CapabilityRequest))) still_world in
    Export (w_ledger w') = [ao_Entry out]
    \<and> (\<exists>d entry. decision_value (ao_Decision out) = Some d \<and> Decode_entry entry = Some (ao_Entry out)
      \<and> response_text (\<lambda>_. False) (\<lambda>p. p) (rp_Body rp) =
          json_fields [(''decision'', json_text d), (''ledger'', entry),
            (''request'', request_text None [] zero_CapabilityRequest)] @ [CHR 0x0A])"
proof -
  have empty: "Export (w_ledger still_world) = []"
    by (simp add: still_world_def sample_world_def NewLedger_def Export_def)
  let ?r = "post_route (request_text None [] zero_CapabilityRequest)"
  have posted: "wr_Method ?r = ''POST''" "wr_EscapedPath ?r = ''/route''" "\<not> wr_Broken ?r"
    "wr_Bytes ?r = request_text None [] zero_CapabilityRequest @ []"
    by (simp_all add: post_route_def)
  from route_answer [OF still_legible zero_request_ok zero_request_length posted(1,2,4,3)] show ?thesis
    unfolding Let_def case_prod_beta empty append_Nil by blast
qed

end
