(* ===== verification/Spec2Isabelle.thy ===== *)
theory Spec2Isabelle
  imports Race Coherence Bookkeeping Identifiers Deadline Blindness Answers
begin

text \<open>
  The governed router of \<open>src/deploy/voss/router/service/go\<close>: a service that decides which capability
  requests may reach a model provider, keeps a hash-chained ledger of its decisions, and obeys operator
  interrupts.  File names below are relative to that directory.

  \<^bold>\<open>The program.\<close>  A request (\<open>types.go\<close>) enters through an HTTP handler (\<open>server.go\<close>, \<open>modes.go\<close>).
  \<open>Router.Admit\<close> (\<open>router.go\<close>) checks the ledger (\<open>ledger.go\<close>), the operator overrides
  (\<open>corrigibility.go\<close>), the nine-stage GRE-1001 pipeline (\<open>gre.go\<close>, with the laws of \<open>lambda.go\<close> and the USL
  gate of \<open>usl.go\<close>), the Immune Protocol (\<open>immune.go\<close>), the provider registry and the adapter
  (\<open>adapters.go\<close>), and the overrides again, and writes the decision to the ledger.  Workflows
  (\<open>workflows.go\<close>) go through \<open>GovernAndExecute\<close>, which admits, checks the overrides once more, calls the
  provider under a deadline and ledgers the result.  Tenants and lattice come from a configuration file
  (\<open>config.go\<close>); operator endpoints need a token (\<open>auth.go\<close>); \<open>execution.go\<close> keeps a state per intent;
  \<open>coherence.go\<close> bounds the evidence attached to a request; \<open>metrics.go\<close> names the metrics.

  \<^bold>\<open>How effects are modelled.\<close>  A function that touches shared state is a tree of atomic actions
  (\<open>Prelude\<close>): one action per critical section, clock reading, metric call or provider call.  \<open>run\<close>
  executes a tree without interruption; \<open>pool_run\<close> (\<open>Interleaving\<close>) executes any number of requests in
  any interleaving of their actions.  The state is the record \<open>world\<close> of \<open>Runtime\<close>: ledger, overrides,
  execution states, drift score, providers, metric calls and provider calls made, catalog of the ledger
  service, and the files.  Clock, random bytes, the choice of a \<open>select\<close> with two ready cases and the
  outcome of writing a file are functions of the position in the run and are arbitrary, as are the
  providers.  Trees are finite, so
  every handler terminates by construction; the only call that may not return, \<open>Generate\<close>, answers after
  a delay or never, and the \<open>select\<close> of \<open>boundedGenerate\<close> decides.  No fuel is used anywhere.

  \<^bold>\<open>The theories.\<close>
  \<^item> \<open>Prelude\<close>, \<open>GoStrings\<close>, \<open>GoEncoding\<close>: programs and their laws; the parts of the Go library the code
    uses on strings, \<open>json.Marshal\<close>, RFC 3339 times and SHA-256, all executable.
  \<^item> \<open>GoJson\<close>, \<open>GoTime\<close>: the reading side: a JSON lexer and a parser as a stack machine with Go's nesting
    limit, \<open>json.MarshalIndent\<close>, string unquoting with its replacement of invalid UTF-8, and the parser of
    RFC 3339 times; what is printed is read back (\<open>parse_text\<close>, \<open>parse_indent\<close>, \<open>parse_rfc3339_nano\<close>).
  \<^item> \<open>VossTypes\<close>, \<open>LambdaLaws\<close>, \<open>USLGate\<close>, \<open>ImmuneProtocol\<close>, \<open>Coherence\<close>, \<open>OperatorAuth\<close>, \<open>Config\<close>,
    \<open>Adapters\<close>, \<open>Execution\<close>, \<open>Corrigibility\<close>, \<open>LedgerChain\<close>, \<open>Metrics\<close>: one theory per source file of pure logic
    or lock-protected state, with its data as records and datatypes and one definition per function.
    Interfaces are locales interpreted on these definitions: \<open>chained_log\<close> (a store of chained
    entries; the router's ledger here, the ledger service's catalog in \<open>LedgerCatalog\<close>),
    \<open>override_store\<close>, \<open>payload_blind\<close> (both adapters).
  \<^item> \<open>GoAssign\<close>, \<open>GoStream\<close>: decoding.  \<open>GoAssign\<close> sets Go variables from parsed JSON, with Go's case folding
    of names and its treatment of \<open>null\<close> and repeated names; its locale \<open>codec\<close> is the contract of a decoder
    for a type (it inverts the encoder).  \<open>GoStream\<close> is \<open>json.Decoder\<close>: the first value of a text, what is
    left unread, and the text of each member, shown to agree with the parser of \<open>GoJson\<close>.
  \<^item> \<open>LedgerCodec\<close>, \<open>LedgerFile\<close>: the file form of a ledger; \<open>codec\<close> is interpreted on the three structures an
    entry is made of; \<open>ExportToFile\<close>.
  \<^item> \<open>RequestCodec\<close>, \<open>ConfigFile\<close>: the bodies of requests, decoded strictly and from text because a payload keeps
    its bytes (\<open>codec\<close> again, on the structures inside a request), and the configuration file, where
    decoding goes on after a type error; what a client or an administrator writes is read as it is.
  \<^item> \<open>Runtime\<close>, \<open>GRE\<close>, \<open>Router\<close>, \<open>Server\<close>, \<open>Workflows\<close>, \<open>LedgerCatalog\<close>, \<open>Modes\<close>: the effectful code.
    \<open>Router_Admit\<close> is split at its early returns into one definition per branch.  The ledger service's
    catalog is not locked in the source, so \<open>LedgerCatalog\<close> models its accesses one by one.
  \<^item> \<open>Admission\<close>, \<open>GovernedRun\<close>: what \<open>Admit\<close> and \<open>GovernAndExecute\<close> do without interruption, as
    refinements of pure specifications (\<open>admit_verdict\<close>, \<open>executed\<close>).  \<open>Deadline\<close> adds what becomes of a request
    whose provider does not answer in time, \<open>Blindness\<close> compares two runs of \<open>Admit\<close> on requests that differ in
    the coherence projection only.
  \<^item> \<open>Interleaving\<close>, \<open>Service\<close>, \<open>GovernedExecution\<close>: what they do under concurrency.  \<open>pool_invariant\<close> and
    \<open>pool_relation\<close> are the contracts between programs and the pool; \<open>service_invariant\<close> is the contract of
    a predicate that all endpoints keep, interpreted on the well-formed ledger, the append-only ledger,
    each kind of override and the execution states, and, through \<open>refused_capabilities\<close>, on what a gate
    admits for nobody; \<open>advances\<close> is the relation every action follows.
  \<^item> \<open>Accounting\<close>, \<open>Bookkeeping\<close>: what a request costs.  \<open>tally\<close> is a weakest precondition over an
    accumulated cost in any commutative group; \<open>pool_accounts\<close> lifts it to interleavings, and schedules
    turn a bound on the cost into an answer.  \<open>Bookkeeping\<close> walks once through the handlers with accounts
    for ledger entries, counters and actions; \<open>Identifiers\<close> interprets the contract a second time, on the
    books of a decision identifier, which a clock reading pays for and a decision in the ledger uses up.
  \<^item> \<open>Wire\<close>, \<open>Boot\<close>: the outermost layer.  \<open>Wire\<close> has \<open>http.ServeMux\<close> with the patterns of the five services and
    reads the bodies from the bytes that arrive; \<open>Boot\<close> is the process: environment, configuration file,
    mode, mux.  Every request on the wire is one of the goroutines of \<open>Service\<close> (\<open>wire_endpoint\<close>), so what is
    shown there holds of the process; which handler a path reaches is specified by \<open>wire_call\<close> and shown of the
    mux (\<open>booted_router\<close>).
  \<^item> \<open>Responses\<close>, \<open>Legible\<close>, \<open>Answers\<close>: the bytes of the answers (\<open>Encode\<close> with its compaction of a raw payload,
    \<open>http.Error\<close>, \<open>errString\<close> with \<open>strconv.Quote\<close>).  \<open>Legible\<close> walks through the handlers with a weakest
    precondition for text: what comes off the wire is UTF-8, so what reaches the ledger is, and its times
    can be written.  \<open>Answers\<close> puts both together: what a client can read back.
  \<^item> \<open>Samples\<close>, \<open>Race\<close>: a small deployment for the instances, and the interleaving in which an
    interrupt comes too late.

  \<^bold>\<open>What is shown.\<close>  Operator precedence: a stopped intent stays stopped in every interleaving, up to
  the gap between the last check and the provider call, which is shown to exist.  Governance: no
  generation and no execution entry without an earlier admission in the ledger.  Ledger: always
  chained, sealed, well typed and append-only; exactly what verification notices and what it misses;
  what is written to a file is read back.  Every request is answered, within a bound of 110 actions of
  its own (the longest path: a workflow through all nine stages that fails at the provider), and the
  counters agree with the ledger.  The ledger service keeps its catalog over a restart, drops a file it
  cannot decode, and loses its chain when two appends meet.  From the bytes on: a request posted as JSON is
  the request that is decided, a malformed or oversized one does nothing, nothing but a POST has an
  effect, a service without a usable configuration admits nothing.  Admission
  and execution: full functional specifications on every branch.  USL gate, pipeline, identity check,
  authentication, configuration, coherence bound, execution states, deadline, hashes, HTTP status:
  exact characterisations.  Several properties state what the code does where it differs from its
  comments or intention: unreachable workflows, shared grants, silent refusals of the state machine,
  status 200 for refusals, wrapped deadlines.  Decision identifiers are unique, and evidence records
  cover the decision they are asked for, exactly as far as the clock never shows one nanosecond twice.  To the bytes again: the answer of \<open>/ledger\<close> is decoded to the
  ledger and verifies, the answer of \<open>/route\<close> carries the decision of \<open>Admit\<close>, its entry and the text of the request.

  \<^bold>\<open>What is not modelled.\<close>  The text of a decoder's error and the exposition of the
  metrics, which is the Prometheus client's (parameters of \<open>boot\<close>), as is the registerer (an argument of
  \<open>RegisterMetrics\<close>); the page of a redirect and the table of printable runes (parameters of
  \<open>response_text\<close>); the headers of a response; whether an empty catalog of the ledger service is exported
  as \<open>[]\<close> or, its slice being nil, as \<open>null\<close>; what \<open>net/http\<close> answers before it calls the mux; the
  listening loop and log lines.
  \<open>CapabilityRequest\<close> of a provider has no deadline in the source and is taken to return, as both adapters do.  The
  \<open>select\<close> of \<open>boundedGenerate\<close> is taken to run as soon as one of its cases is ready: either case may win only where
  both are ready at the same instant, not where the goroutine is scheduled late.
  The router object's providers map is unlocked in the source and only written before serving.  A time
  read from a file keeps its instant, not its zone.  A top-level number in a body is decoded by its whole
  run of number characters; the program refuses it either way.  \<open>append\<close> on the unlocked catalog is
  modelled as a copy: which of two racing writes to one backing array survives is not, nor is what a
  third occurrence of a key in one object finds in the array behind a slice that a second has shortened.

  \<^bold>\<open>Open.\<close>  When replay markers, which also hold the intent, are unique; the interleavings of the ledger
  service beyond two appends.
\<close>

text \<open>The only provider a process registers is an adapter of the repository.\<close>

lemma started_repository: "started_state w w' \<Longrightarrow> repository_providers w'"
  by (auto simp: started_state_def repository_providers_def repository_adapter_def)

section \<open>Operator precedence\<close>

text \<open>
  C1: once an intent is interrupted, corrected or terminated, no interleaving of requests lifts the
  override, contacts a provider for the intent or writes an admission or execution of it to the
  ledger.  This covers new requests and workflow requests that were admitted before and have yet to
  pass the final check.
\<close>

theorem stopped_intent_stays_stopped:
  assumes "stopped (w_interrupts w) i" and "list_all (waiting ts lat token) ps"
    and "pool_run (endpoints ts lat token) (w, ps) (w', ps')"
  shows "stopped (w_interrupts w') i \<and> contact_count i w' = contact_count i w \<and> admit_count i w' = admit_count i w"
proof -
  note run = assms(3,2)
  consider "IsTerminated (w_interrupts w) i" | "IsInterrupted (w_interrupts w) i" | "fst (Correction (w_interrupts w) i) \<noteq> []"
    using assms(1) by (auto simp: stopped_def)
  then show ?thesis
  proof cases
    case 1
    with terminated_inv.service_keeps [OF run, of i "admit_count i w" "contact_count i w"] show ?thesis
      by (simp add: frozen_def stopped_def)
  next
    case 2
    with interrupted_inv.service_keeps [OF run, of i "admit_count i w" "contact_count i w"] show ?thesis
      by (simp add: frozen_def stopped_def)
  next
    case 3
    with corrected_inv.service_keeps [OF run, of i "admit_count i w" "contact_count i w"] show ?thesis
      by (simp add: frozen_def stopped_def)
  qed
qed

theorem stopped_intent_stays_stopped_witness:
  "let w = sample_world\<lparr>w_interrupts := Correct ''intent-1'' ''stop'' NewInterruptStore\<rparr> in
     contact_count ''intent-1'' (snd (run sample_route w)) = 0 \<and> admit_count ''intent-1'' (snd (run sample_route w)) = 0"
proof -
  let ?w = "sample_world\<lparr>w_interrupts := Correct ''intent-1'' ''stop'' NewInterruptStore\<rparr>"
  have "stopped (w_interrupts ?w) ''intent-1''" by (simp add: stopped_def)
  then have "contact_count ''intent-1'' (snd (run sample_route ?w)) = contact_count ''intent-1'' ?w
      \<and> admit_count ''intent-1'' (snd (run sample_route ?w)) = admit_count ''intent-1'' ?w"
    using stopped_intent_stays_stopped [OF _ sample_waiting(1) sample_run] by blast
  then show ?thesis by (simp add: Let_def)
qed

section \<open>Execution under governance\<close>

text \<open>
  C2: in every interleaving of the endpoints, a provider generates only for a request whose admission
  is already in the ledger, and every execution entry of the ledger is preceded by the admission
  with the same decision identifier, request, intent, tenant, lane, capability and provider.
\<close>

theorem execution_is_governed:
  assumes "governed w" and "set ps \<subseteq> endpoints ts lat token" and "pool_run (endpoints ts lat token) (w, ps) (w', ps')"
  shows "governed w'"
  using service_advances [OF assms(3,2)] assms(1) by (simp add: advances_def)

theorem execution_is_governed_witness: "governed (snd (run sample_workflow sample_world))"
  using execution_is_governed [OF sample_governed _ sample_run] sample_routes(2)
  by (simp add: sample_endpoints_def)

section \<open>The ledger under load\<close>

text \<open>
  C3: at every moment of every interleaving the ledger of the service is chained back to the genesis
  marker, each entry carries the hash of its own content and its position, and \<open>Verify\<close> reports a
  valid chain without breaks.
\<close>

theorem ledger_intact_under_load:
  assumes "ledger_wf (w_ledger w)" and "list_all (waiting ts lat token) ps"
    and "pool_run (endpoints ts lat token) (w, ps) (w', ps')"
  shows "Verify (w_ledger w') = (True, 0) \<and> sealed (Export (w_ledger w')) \<and> indexed (Export (w_ledger w'))"
  using wf_inv.service_keeps [OF assms(3,2,1)] by (simp add: ledger_wf_Verify) (simp add: ledger_wf_def Export_def)

theorem ledger_intact_under_load_witness: "Verify (w_ledger (snd (run sample_route sample_world))) = (True, 0)"
  using ledger_intact_under_load [OF sample_wf sample_waiting(1) sample_run] by simp

text \<open>
  C4: the ledger is append-only: in every interleaving, what was in it stays in it, in order and
  unchanged, as a prefix.
\<close>

theorem ledger_append_only:
  assumes "list_all (waiting ts lat token) ps" and "pool_run (endpoints ts lat token) (w, ps) (w', ps')"
  shows "take (Count (w_ledger w)) (Export (w_ledger w')) = Export (w_ledger w)"
  using extends_inv.service_keeps [OF assms(2,1), of "lg_entries (w_ledger w)"] by (auto simp: Count_def Export_def)

theorem ledger_append_only_witness:
  "let w = snd (run sample_route sample_world) in
     take (Count (w_ledger w)) (Export (w_ledger (snd (run sample_workflow w)))) = Export (w_ledger w)"
  using ledger_append_only [OF sample_waiting(2) sample_run] by (simp add: Let_def)

section \<open>Ledger, metrics and answers\<close>

text \<open>
  C21: at every moment of every interleaving each ledger entry is well typed: either a decision, whose
  result is one of the three verdicts, which is marked admitted exactly for \<open>ADMIT\<close>, has no execution
  hash, and lacks a stage log only if it denies; or the record of an execution, admitted, with the hash
  of a result.  Hashes are SHA-256 digests in lower-case hexadecimal.
\<close>

theorem ledger_well_typed:
  assumes "list_all typed_entry (Export (w_ledger w))" and "set ps \<subseteq> endpoints ts lat token"
    and "pool_run (endpoints ts lat token) (w, ps) (w', ps')"
  shows "list_all typed_entry (Export (w_ledger w'))"
proof -
  have "\<forall>p\<in>set ps. keeps (\<lambda>w. list_all typed_entry (Export (w_ledger w))) p"
    using assms(2) typed_inv.handlers_keep by blast
  with typed_inv.run_keeps [OF assms(3)] assms(1) show ?thesis by simp
qed

theorem ledger_well_typed_witness: "list_all typed_entry (Export (w_ledger (snd (run sample_route sample_world))))"
proof (rule ledger_well_typed [OF _ _ sample_run])
  show "list_all typed_entry (Export (w_ledger sample_world))" by (simp add: sample_world_def NewLedger_def Export_def)
  show "set [sample_route] \<subseteq> endpoints (fst (Build sample_config)) (snd (Build sample_config)) ''token''"
    using sample_routes(1) by (simp add: sample_endpoints_def)
qed

text \<open>
  At every moment of every interleaving the metric calls made fit the declarations of the metrics:
  counters are incremented, histograms observed, gauges set, each with as many label values as it has
  label names.  \<open>WithLabelValues\<close> never panics.
\<close>

lemma metric_calls_fit:
  assumes "list_all call_fits (w_metrics w)" and "set ps \<subseteq> endpoints ts lat token"
    and "pool_run (endpoints ts lat token) (w, ps) (w', ps')"
  shows "list_all call_fits (w_metrics w')"
proof -
  have "\<forall>p\<in>set ps. keeps (\<lambda>w. list_all call_fits (w_metrics w)) p"
    using assms(2) fits_inv.handlers_keep by blast
  with fits_inv.run_keeps [OF assms(3)] assms(1) show ?thesis by simp
qed

text \<open>
  C20: once all requests of a freshly started service have been answered, however their actions were
  interleaved, the counters agree with the ledger: \<open>MetricExecutions\<close> is the number of execution
  entries and of workflow answers that carry a result hash; \<open>MetricAdmissions\<close> is the number of
  decisions with each verdict and \<open>MetricLedgerWrites\<close> the number of entries, except that neither counts
  the denial which each accepted operator call writes.
\<close>

theorem counters_match_ledger:
  assumes "w_ledger w = NewLedger" and "w_metrics w = []"
    and "pool_run (endpoints ts lat token) (w, []) (w', map Ret rs)"
  shows "let operator_calls = length (filter operator_answer rs) in
    Count (w_ledger w') = counted MetricLedgerWrites [] w' + operator_calls
    \<and> (\<forall>r. decisions r w' = counted MetricAdmissions [r] w' + (if r = Deny then operator_calls else 0))
    \<and> executions w' = counted MetricExecutions [] w' \<and> executions w' = length (filter executed_answer rs)"
  using settled_accounts [OF assms(3) fresh_books [OF assms(1,2)]] by (simp add: Let_def)

theorem counters_match_ledger_witness:
  "let (r, w) = run sample_route sample_world in
     Count (w_ledger w) = counted MetricLedgerWrites [] w + length (filter operator_answer [r])"
proof -
  have "pool_run sample_endpoints (sample_world, []) (sample_world, [sample_route])"
    using pool_run_arrive [OF sample_routes(1), of sample_world "[]"] by simp
  from pool_run_trans [OF sample_run this]
  have "pool_run sample_endpoints (sample_world, []) (snd (run sample_route sample_world), map Ret [fst (run sample_route sample_world)])"
    by simp
  from counters_match_ledger [OF _ _ this [unfolded sample_endpoints_def]] show ?thesis
    by (simp add: sample_world_def [symmetric] Let_def case_prod_beta) (simp add: sample_world_def)
qed

text \<open>
  C19: every request is answered.  Whatever else arrives and however the goroutines are scheduled, a
  request that keeps being scheduled comes to its answer after at most 110 of its own actions, no matter
  what the other requests do in between, and the status is one the handlers or the mux use.
\<close>

theorem every_request_answered:
  assumes "c n = Arrives (muxRouter (make_Server ts lat token) call)" and "i = length (snd (unfold_schedule c s n))"
    and "infinite {k. c k = Moves i}"
  shows "(\<exists>m. request_bound \<le> moves c i n m) \<and> (\<forall>m. request_bound \<le> moves c i n m \<longrightarrow>
    (\<exists>r. snd (unfold_schedule c s m) ! i = Ret r \<and> documented_status (rp_Status r)))"
proof -
  obtain w ts' where pool: "unfold_schedule c s n = (w, ts')" by (cases "unfold_schedule c s n")
  then have started: "i < length (snd (unfold_schedule c s (Suc n)))"
      "snd (unfold_schedule c s (Suc n)) ! i = muxRouter (make_Server ts lat token) call"
    using assms(1,2) by simp_all
  have later: "moves c i n m = moves c i (Suc n) m" for m
    unfolding moves_def by (rule arg_cong [of _ _ card]) (use assms(1) in \<open>auto simp: Suc_le_eq order_less_le\<close>)
  have "\<exists>r. snd (unfold_schedule c s m) ! i = Ret r \<and> documented_status (rp_Status r)" if "request_bound \<le> moves c i n m" for m
  proof (rule moved_enough [OF started(1), unfolded started(2), OF muxRouter_finishes])
    show "request_bound \<le> moves c i (Suc n) m" using that by (simp add: later)
    show "Suc n \<le> m"
    proof (rule ccontr)
      assume "\<not> Suc n \<le> m"
      then have "moves c i (Suc n) m = 0" by (simp add: moves_def)
      with that show False by (simp add: later request_bound_def)
    qed
  qed
  moreover have "\<exists>m. request_bound \<le> moves c i n m" using moves_unbounded [OF assms(3)] by blast
  ultimately show ?thesis by blast
qed

theorem every_request_answered_witness:
  "let c = (\<lambda>k. if k = 0 then Arrives sample_route else Moves 0) in
     \<exists>m r. snd (unfold_schedule c (sample_world, []) m) ! 0 = Ret r \<and> documented_status (rp_Status r)"
proof -
  let ?c = "\<lambda>k::nat. if k = 0 then Arrives sample_route else Moves 0 :: (world, Response) event"
  have "{k. ?c k = Moves 0} = UNIV - {0}" by auto
  then have often: "infinite {k. ?c k = Moves 0}" by (simp add: infinite_UNIV_nat)
  have first: "?c 0 = Arrives (muxRouter (make_Server (fst (Build sample_config)) (snd (Build sample_config)) ''token'')
      (Route (post ''/route'' [] sample_request)))"
    by (simp only: sample_route_def sample_server_def if_True refl)
  have "(\<exists>m. request_bound \<le> moves ?c 0 0 m) \<and> (\<forall>m. request_bound \<le> moves ?c 0 0 m \<longrightarrow>
      (\<exists>r. snd (unfold_schedule ?c (sample_world, []) m) ! 0 = Ret r \<and> documented_status (rp_Status r)))"
    by (rule every_request_answered [OF first _ often]) simp
  then show ?thesis by (simp only: Let_def) blast
qed

section \<open>What an admission requires\<close>

text \<open>
  C6: an uninterrupted \<open>Admit\<close> that admits had a verified ledger, an intent under no override, a
  request within lane, lattice and tenant policy, the tenant's sovereign operator as its operator
  (where the tenant has one, and always in the normal and express lanes), a payload, and a registered
  provider that was asked; all seven laws pass on it, and \<open>Generate\<close> was not called.
\<close>

theorem admit_requires:
  assumes "ad_Result (ao_Decision (fst (fst (run (Router_Admit (make_Router ts lat) req) w)))) = Admit"
  shows "fst (Verify (w_ledger w)) \<and> \<not> overridden (w_interrupts w) (rq_IntentID req)
    \<and> usl_admits \<lparr>ug_Tenants = ts, ug_Lattice = lat, ug_GovernanceEnforced = True\<rparr> req
    \<and> rq_MLCALane req \<in> {LaneSafe, LaneNormal, LaneExpress} \<and> rq_Payload req \<noteq> []
    \<and> (\<exists>t. findTenant_from ts (rq_TenantID req) = Some t
         \<and> (if rq_MLCALane req = LaneSafe then operator_bound t (rq_OperatorID req)
            else tp_SovereignOperator t = rq_OperatorID req))
    \<and> list_all lr_Passed [checkLambda1 req, checkLambda2 req, checkLambda3 req, checkLambda4 req ts, checkLambda5,
        checkLambda6 req, checkLambda7 True]
    \<and> (\<exists>a. w_providers w (mr_ProviderID (rq_ModelRef req)) = Some a)
    \<and> w_calls (snd (run (Router_Admit (make_Router ts lat) req) w)) =
        w_calls w @ [CallCapability (mr_ProviderID (rq_ModelRef req)) req]"
proof -
  let ?r = "make_Router ts lat"
  obtain n where dec: "decided req (admit_verdict ?r req w n) w (run (Router_Admit ?r req) w)"
    using decided_Admit [OF make_Router_gre] by blast
  then have v: "v_Result (admit_verdict ?r req w n) = Admit" using assms by (simp add: decided_def Let_def)
  then have adm: "admissible ?r req w n" by (simp add: verdict_Admit)
  have usl: "usl_admits (rt_usl ?r) req" and l4: "lr_Passed (checkLambda4 req ts)"
    and free: "\<not> overridden (w_interrupts w) (rq_IntentID req)"
    using adm by (simp_all add: admissible_def pipeline_passes_def router_input_def stage_gate_def Let_def)
  obtain t where t: "findTenant_from ts (rq_TenantID req) = Some t" "tp_MLCALane t = rq_MLCALane req"
    using usl by (auto simp: usl_admits_def findTenant_def)
  then have "lane_policy req ts = Some t"
    using lane_policy_of_usl [of "rt_usl ?r" req t] by (simp add: findTenant_def)
  with l4 have op: "operator_bound t (rq_OperatorID req)" by (simp add: checkLambda4_passed)
  have sov: "tenantSovereign_from ts (rq_TenantID req) = (tp_SovereignOperator t, True)"
    using t(1) by (induction ts) (auto split: if_splits)
  have immune: "rq_MLCALane req \<in> {LaneSafe, LaneNormal, LaneExpress} \<and> rq_Payload req \<noteq> []
      \<and> (rq_MLCALane req \<noteq> LaneSafe \<longrightarrow> tp_SovereignOperator t = rq_OperatorID req)"
    using adm Classify_not_rejected [of req] Classify_Allow [of req]
    by (auto simp: admissible_def operator_approval_def tenantSovereign_def sov split: if_splits)
  have calls: "w_calls (snd (run (Router_Admit ?r req) w)) = w_calls w @ asked req"
    using decided_world(1) [OF dec] verdict_commit [OF v] by (simp add: commit_verdict_def)
  have "rq_MLCALane req \<noteq> []" using immune by auto
  then have laws: "list_all lr_Passed [checkLambda1 req, checkLambda2 req, checkLambda3 req, checkLambda4 req ts, checkLambda5,
      checkLambda6 req, checkLambda7 True]"
    using adm l4 by (simp add: admissible_def pipeline_passes_def router_input_def Let_def checkLambda1_def checkLambda2_def
        checkLambda3_def checkLambda6_def checkLambda7_def)
  show ?thesis
    using adm usl free t op immune calls laws by (auto simp: admissible_def asked_def)
qed

theorem admit_requires_witness:
  "\<not> overridden (w_interrupts sample_world) (rq_IntentID sample_request)"
  using admit_requires [OF sample_admitted [unfolded sample_router_def]] by blast

section \<open>The service from its start\<close>

text \<open>
  C31: no run of the service ever brings an intent to \<open>ADMITTED\<close> or \<open>RUNNING\<close>: nothing performs the
  transition to \<open>ADMITTED\<close>, so the transition to \<open>RUNNING\<close> that \<open>GovernAndExecute\<close> asks for is refused
  every time, silently.
\<close>

theorem executions_never_start:
  assumes "never_started (w_exec w)" and "list_all (waiting ts lat token) ps"
    and "pool_run (endpoints ts lat token) (w, ps) (w', ps')"
  shows "Current (w_exec w') i \<notin> {ExecAdmitted, ExecRunning} \<and> \<not> fst (Transition i cur ExecRunning (w_exec w'))"
proof -
  have ns: "never_started (w_exec w')" by (rule started_inv.service_keeps [OF assms(3,2,1)])
  then have state: "Current (w_exec w') i \<in> {ExecPending, ExecHalted, ExecTerminated}" by (simp add: never_started_def)
  then show ?thesis by (auto simp: Transition_iff legal_step_to_running)
qed

theorem executions_never_start_witness:
  "Current (w_exec (snd (run sample_workflow sample_world))) ''intent-1'' \<noteq> ExecRunning"
proof -
  have "never_started (w_exec sample_world)" by (simp add: sample_world_def never_started_def)
  from executions_never_start [OF this sample_waiting(2) sample_run] show ?thesis by blast
qed

section \<open>Workflows and configuration\<close>

text \<open>
  C30: with the tenants and the lattice built from any configuration, no workflow is ever admitted and no
  provider is ever contacted for one, whatever else is served at the same time: the built lattice
  grants the action \<open>execute\<close> at risk \<open>low\<close> only, and each of the four workflows asks for something
  else.
\<close>

theorem configured_workflows_never_admitted:
  assumes "pool_run (endpoints (fst (Build cfg)) (snd (Build cfg)) token) (w, ps) (w', ps')"
    and "set ps \<subseteq> endpoints (fst (Build cfg)) (snd (Build cfg)) token"
  shows "admitted_in ungrantable w' = admitted_in ungrantable w \<and> contacted_in ungrantable w' = contacted_in ungrantable w
    \<and> (\<forall>wid. pred_option (\<lambda>spec. ungrantable (wf_CapabilityClass spec)) (Spec (NewWorkflowService r) wid))"
proof -
  have "pred_option (\<lambda>spec. ungrantable (wf_CapabilityClass spec)) (Spec (NewWorkflowService r) wid)" for wid
    using workflow_capability_not_execute_low [of r wid] by (auto simp: ungrantable_def Spec_def option.pred_set)
  with configured.nothing_admitted [OF assms] show ?thesis by simp
qed

theorem configured_workflows_never_admitted_witness:
  "admitted_in ungrantable (snd (run sample_workflow sample_world)) = []
   \<and> contacted_in ungrantable (snd (run sample_workflow sample_world)) = []"
proof -
  have "pool_run sample_endpoints (sample_world, [sample_workflow])
      (snd (run sample_workflow sample_world), [Ret (fst (run sample_workflow sample_world))])"
    by (rule sample_run)
  from configured_workflows_never_admitted [OF this [unfolded sample_endpoints_def]] sample_routes show ?thesis
    by (simp add: sample_endpoints_def) (simp add: sample_world_def admitted_in_def contacted_in_def NewLedger_def)
qed

section \<open>HTTP status\<close>

text \<open>
  C33: the route endpoint decides with \<open>Admit\<close> and nothing else, and its status is 200 exactly for an
  admission, 409 for an intent under termination or interruption, and 403 for every other refusal.
\<close>

theorem route_status_faithful:
  "let (resp, w') = run (RouteHandler (make_Server ts lat token) (post path auth req)) w;
       (res, w1) = run (Router_Admit (make_Router ts lat) req) w in
     w' = w1 \<and> rp_Body resp = BRoute (ao_Decision (fst res)) (ao_Entry (fst res)) req
     \<and> rp_Status resp =
         (if ad_Result (ao_Decision (fst res)) = Admit then StatusOK
          else if fst (Verify (w_ledger w)) \<and>
            (IsTerminated (w_interrupts w) (rq_IntentID req) \<or> IsInterrupted (w_interrupts w) (rq_IntentID req))
          then StatusConflict else StatusForbidden)"
proof -
  let ?r = "make_Router ts lat"
  obtain n where dec: "decided req (admit_verdict ?r req w n) w (run (Router_Admit ?r req) w)"
    using decided_Admit [OF make_Router_gre] by blast
  have res: "ad_Result (ao_Decision (fst (fst (run (Router_Admit ?r req) w)))) = v_Result (admit_verdict ?r req w n)"
    "snd (fst (run (Router_Admit ?r req) w)) = v_Err (admit_verdict ?r req w n)"
    using dec by (simp_all add: decided_def Let_def)
  have "v_Err (admit_verdict ?r req w n) = None" if "v_Result (admit_verdict ?r req w n) = Admit"
    using verdict_commit [OF that] by (simp add: commit_verdict_def)
  with verdict_results [of ?r req w n] verdict_conflict [of ?r req w n] show ?thesis
    by (auto simp: RouteHandler_def post_def make_Server_def WithAuth_def NewServer_def run_simps case_prod_beta
        route_status_def res)
qed

end
